(* ===== verification/Cadence_Prelude.thy ===== *)
theory Cadence_Prelude
  imports Main "HOL-Library.AList" "HOL-Library.FSet" "HOL-Library.Multiset"
    "HOL-Library.Char_ord" "HOL-Library.List_Lexorder"
begin

text \<open>
  Shared vocabulary of the development: the Go types every component uses and the generic
  lemmas about them.

  \<^item> An error of the code is a value of \<open>go_error\<close>; a message built by
    \<open>fmt.Sprintf\<close> is its format string together with the integer arguments. A panic is the
    constructor \<open>Panic\<close>. A function that returns \<open>(T, error)\<close> or may panic returns
    \<open>'a result\<close>.
  \<^item> A Go map is an association list with distinct keys: the list order stands for the order
    in which one run of the program happens to iterate over the map, so a theorem about every
    such list holds for every iteration order.
  \<^item> An instant (\<open>time.Time\<close>) is its number of nanoseconds since the Unix epoch, a
    \<open>time.Duration\<close> a number of nanoseconds.
  \<^item> An \<open>int64\<close> is an \<open>int\<close>; where the code can leave the 64 bit range the
    wrap-around is written with \<open>wrap64\<close>.
\<close>

section \<open>Errors\<close>

datatype go_error =
    BadRequestError string "int list"
  | InternalServiceError string "int list"
  | PersistenceError string
  | Panic string "int list"

type_synonym 'a result = "go_error + 'a"

abbreviation Err :: "go_error \<Rightarrow> 'a result" where
  "Err e \<equiv> Inl e"

abbreviation Ok :: "'a \<Rightarrow> 'a result" where
  "Ok x \<equiv> Inr x"

definition rbind :: "'a result \<Rightarrow> ('a \<Rightarrow> 'b result) \<Rightarrow> 'b result" where
  "rbind r f = (case r of Inl e \<Rightarrow> Inl e | Inr x \<Rightarrow> f x)"

lemma rbind_simps [simp]:
  "rbind (Inl e) f = Inl e"
  "rbind (Inr x) f = f x"
  by (simp_all add: rbind_def)

lemma rbind_eq_Inr_iff: "rbind r f = Inr y \<longleftrightarrow> (\<exists>x. r = Inr x \<and> f x = Inr y)"
  by (cases r) auto

text \<open>Lifting a fallible function over a list, stopping at the first error.\<close>

fun rmap :: "('a \<Rightarrow> 'b result) \<Rightarrow> 'a list \<Rightarrow> 'b list result" where
  "rmap f [] = Ok []"
| "rmap f (x # xs) = rbind (f x) (\<lambda>y. rbind (rmap f xs) (\<lambda>ys. Ok (y # ys)))"

lemma rmap_Inr_id:
  "(\<And>x. x \<in> set xs \<Longrightarrow> f x = Inr (g x)) \<Longrightarrow> rmap f xs = Inr (map g xs)"
  by (induction xs) auto

section \<open>Integers\<close>

definition MaxInt64 :: int where
  "MaxInt64 = 9223372036854775807"

definition MinInt64 :: int where
  "MinInt64 = -9223372036854775808"

definition int64 :: "int \<Rightarrow> bool" where
  "int64 x \<longleftrightarrow> MinInt64 \<le> x \<and> x \<le> MaxInt64"

definition wrap64 :: "int \<Rightarrow> int" where
  "wrap64 x = (x + 2 ^ 63) mod 2 ^ 64 - 2 ^ 63"

lemma wrap64_id: "int64 x \<Longrightarrow> wrap64 x = x"
  by (simp add: wrap64_def int64_def MaxInt64_def MinInt64_def)

lemma int64_wrap64: "int64 (wrap64 x)"
proof -
  have "0 \<le> (x + 2 ^ 63) mod 2 ^ 64" and "(x + 2 ^ 63) mod 2 ^ 64 < 2 ^ 64"
    by simp_all
  then show ?thesis
    by (simp add: wrap64_def int64_def MaxInt64_def MinInt64_def)
qed

section \<open>Byte strings\<close>

text \<open>
  A \<open>[]byte\<close> distinguishes \<open>nil\<close> from an empty slice; \<open>len\<close> is zero on both.
\<close>

type_synonym go_bytes = "nat list option"

definition blen :: "go_bytes \<Rightarrow> nat" where
  "blen b = (case b of None \<Rightarrow> 0 | Some xs \<Rightarrow> length xs)"

lemma blen_None [simp]: "blen None = 0"
  by (simp add: blen_def)

section \<open>Maps\<close>

type_synonym ('k, 'v) gomap = "('k \<times> 'v) list"

text \<open>The value of a missing key in a \<open>map[K]int\<close> is 0.\<close>

definition gm_int :: "('k, int) gomap \<Rightarrow> 'k \<Rightarrow> int" where
  "gm_int m k = (case map_of m k of None \<Rightarrow> 0 | Some v \<Rightarrow> v)"

definition gm_list :: "('k, 'v list) gomap \<Rightarrow> 'k \<Rightarrow> 'v list" where
  "gm_list m k = (case map_of m k of None \<Rightarrow> [] | Some v \<Rightarrow> v)"

abbreviation gm_wf :: "('k, 'v) gomap \<Rightarrow> bool" where
  "gm_wf m \<equiv> distinct (map fst m)"

lemma gm_int_Nil [simp]: "gm_int [] k = 0"
  by (simp add: gm_int_def)

lemma gm_int_update [simp]:
  "gm_int (AList.update k v m) k' = (if k' = k then v else gm_int m k')"
  by (simp add: gm_int_def update_conv)

lemma gm_list_Nil [simp]: "gm_list [] k = []"
  by (simp add: gm_list_def)

lemma gm_list_update [simp]:
  "gm_list (AList.update k v m) k' = (if k' = k then v else gm_list m k')"
  by (simp add: gm_list_def update_conv)

lemma gm_wf_update [simp]: "gm_wf m \<Longrightarrow> gm_wf (AList.update k v m)"
  by (rule distinct_update)

lemma gm_wf_delete [simp]: "gm_wf m \<Longrightarrow> gm_wf (AList.delete k m)"
  by (rule distinct_delete)

lemma fst_set_update [simp]: "fst ` set (AList.update k v m) = insert k (fst ` set m)"
  by (induction m) auto

lemma fst_set_delete [simp]: "fst ` set (AList.delete k m) = fst ` set m - {k}"
  by (induction m) auto

lemma set_update_wf:
  "gm_wf m \<Longrightarrow> set (AList.update k v m) = insert (k, v) {p \<in> set m. fst p \<noteq> k}"
  by (induction m) (auto simp: rev_image_eqI)

lemma set_delete: "set (AList.delete k m) = {p \<in> set m. fst p \<noteq> k}"
  by (auto simp: AList.delete_eq)

lemma gm_wf_filter [simp]: "gm_wf m \<Longrightarrow> gm_wf (filter P m)"
  by (induction m) auto

lemma map_of_filter_snd:
  "gm_wf m \<Longrightarrow> map_of (filter (\<lambda>e. P (snd e)) m) k =
     (case map_of m k of None \<Rightarrow> None | Some v \<Rightarrow> if P v then Some v else None)"
  by (induction m) (auto simp: map_of_eq_None_iff split: option.splits)

lemma update_fresh: "k \<notin> fst ` set m \<Longrightarrow> AList.update k v m = m @ [(k, v)]"
  by (induction m) auto

lemma Min_insert_top:
  fixes A :: "'a :: linorder set"
  assumes "finite A" "A \<noteq> {}" "\<forall>a \<in> A. a \<le> m"
  shows "Min (insert m A) = Min A"
proof -
  have "Min A \<le> m" using assms Min_in by blast
  then show ?thesis using assms by (subst Min_insert) (simp_all add: min_absorb2 del: Min_le_iff)
qed

section \<open>Collections of facts\<close>

named_theorems slice_simps \<open>definitions of the slice operations\<close>
named_theorems queue_simps \<open>definitions of the queue operations\<close>

end
