(* ===== verification/Task_Key.thy ===== *)
theory Task_Key
  imports Cadence_Prelude
begin

text \<open>
  History task keys and history tasks (\<open>common/persistence/tasks.go\<close>), and the executable
  task wrapped around a persisted one (\<open>service/history/task/task.go\<close>).

  The keys form a linear order, on which the ranges of the queues are intervals;
  \<open>Compare_simps\<close> turns every comparison of the code into that order.
\<close>

section \<open>Keys\<close>

datatype htask_key = HistoryTaskKey (scheduledTime: int) (taskID: int)

text \<open>The zero \<open>time.Time\<close> is midnight of January 1 of year 1, UTC.\<close>

definition zeroTime :: int where
  "zeroTime = - (62135596800 * 1000000000)"

definition MinimumHistoryTaskKey :: htask_key where
  "MinimumHistoryTaskKey = HistoryTaskKey zeroTime 0"

definition MaximumHistoryTaskKey :: htask_key where
  "MaximumHistoryTaskKey = HistoryTaskKey MaxInt64 MaxInt64"

definition NewImmediateTaskKey :: "int \<Rightarrow> htask_key" where
  "NewImmediateTaskKey i = HistoryTaskKey 0 i"

definition NewHistoryTaskKey :: "int \<Rightarrow> int \<Rightarrow> htask_key" where
  "NewHistoryTaskKey t i = HistoryTaskKey t i"

definition Compare :: "htask_key \<Rightarrow> htask_key \<Rightarrow> int" where
  "Compare a b =
     (if scheduledTime a < scheduledTime b then -1
      else if scheduledTime a > scheduledTime b then 1
      else if taskID a < taskID b then -1
      else if taskID a > taskID b then 1
      else 0)"

definition Next :: "htask_key \<Rightarrow> htask_key" where
  "Next a =
     (if taskID a = MaxInt64 then HistoryTaskKey (scheduledTime a + 1) 0
      else HistoryTaskKey (scheduledTime a) (wrap64 (taskID a + 1)))"

definition IsZero :: "htask_key \<Rightarrow> bool" where
  "IsZero a \<longleftrightarrow> scheduledTime a = zeroTime \<and> taskID a = 0"

definition key_Less :: "htask_key \<Rightarrow> htask_key \<Rightarrow> bool" where
  "key_Less a b \<longleftrightarrow> Compare a b < 0"

definition key_Greater :: "htask_key \<Rightarrow> htask_key \<Rightarrow> bool" where
  "key_Greater a b \<longleftrightarrow> Compare a b > 0"

definition key_GreaterOrEqual :: "htask_key \<Rightarrow> htask_key \<Rightarrow> bool" where
  "key_GreaterOrEqual a b \<longleftrightarrow> Compare a b \<ge> 0"

definition key_Equal :: "htask_key \<Rightarrow> htask_key \<Rightarrow> bool" where
  "key_Equal a b \<longleftrightarrow> Compare a b = 0"

definition MinHistoryTaskKey :: "htask_key \<Rightarrow> htask_key \<Rightarrow> htask_key" where
  "MinHistoryTaskKey a b = (if Compare a b < 0 then a else b)"

definition MaxHistoryTaskKey :: "htask_key \<Rightarrow> htask_key \<Rightarrow> htask_key" where
  "MaxHistoryTaskKey a b = (if Compare a b > 0 then a else b)"

instantiation htask_key :: linorder
begin

definition less_eq_htask_key :: "htask_key \<Rightarrow> htask_key \<Rightarrow> bool" where
  "less_eq_htask_key a b \<longleftrightarrow> scheduledTime a < scheduledTime b \<or>
     scheduledTime a = scheduledTime b \<and> taskID a \<le> taskID b"

definition less_htask_key :: "htask_key \<Rightarrow> htask_key \<Rightarrow> bool" where
  "less_htask_key a b \<longleftrightarrow> scheduledTime a < scheduledTime b \<or>
     scheduledTime a = scheduledTime b \<and> taskID a < taskID b"

instance
proof
  fix x y z :: htask_key
  show "x < y \<longleftrightarrow> x \<le> y \<and> \<not> y \<le> x"
    by (auto simp: less_eq_htask_key_def less_htask_key_def)
  show "x \<le> x"
    by (simp add: less_eq_htask_key_def)
  show "x \<le> y \<Longrightarrow> y \<le> z \<Longrightarrow> x \<le> z"
    by (auto simp: less_eq_htask_key_def)
  show "x \<le> y \<Longrightarrow> y \<le> x \<Longrightarrow> x = y"
    by (cases x; cases y) (auto simp: less_eq_htask_key_def)
  show "x \<le> y \<or> y \<le> x"
    by (auto simp: less_eq_htask_key_def)
qed

end

lemma Compare_iff:
  "Compare a b < 0 \<longleftrightarrow> a < b"
  "Compare a b > 0 \<longleftrightarrow> b < a"
  "Compare a b \<le> 0 \<longleftrightarrow> a \<le> b"
  "Compare a b \<ge> 0 \<longleftrightarrow> b \<le> a"
  "Compare a b = 0 \<longleftrightarrow> a = b"
  by (auto simp: Compare_def less_eq_htask_key_def less_htask_key_def htask_key.expand)

lemma key_order_iff:
  "key_Less a b \<longleftrightarrow> a < b"
  "key_Greater a b \<longleftrightarrow> b < a"
  "key_GreaterOrEqual a b \<longleftrightarrow> b \<le> a"
  "key_Equal a b \<longleftrightarrow> a = b"
  by (simp_all add: key_Less_def key_Greater_def key_GreaterOrEqual_def key_Equal_def Compare_iff)

lemma MinHistoryTaskKey_min: "MinHistoryTaskKey a b = min a b"
  by (auto simp: MinHistoryTaskKey_def Compare_iff min_def)

lemma MaxHistoryTaskKey_max: "MaxHistoryTaskKey a b = max a b"
  by (auto simp: MaxHistoryTaskKey_def Compare_iff max_def)

lemmas Compare_simps [simp] =
  Compare_iff key_order_iff MinHistoryTaskKey_min MaxHistoryTaskKey_max

text \<open>A key whose task ID is a 64 bit integer, and is not negative.\<close>

definition valid_key :: "htask_key \<Rightarrow> bool" where
  "valid_key k \<longleftrightarrow> 0 \<le> taskID k \<and> taskID k \<le> MaxInt64"

lemma Next_no_wrap: "valid_key k \<Longrightarrow> taskID k \<noteq> MaxInt64 \<Longrightarrow> wrap64 (taskID k + 1) = taskID k + 1"
  by (rule wrap64_id) (auto simp: valid_key_def int64_def MinInt64_def)

lemma less_Next [simp]: "valid_key k \<Longrightarrow> k < Next k"
  by (auto simp: Next_def less_htask_key_def Next_no_wrap)

lemma valid_Next [simp]: "valid_key k \<Longrightarrow> valid_key (Next k)"
  by (auto simp: Next_def Next_no_wrap) (auto simp: valid_key_def MaxInt64_def)

text \<open>\<open>Next\<close> is the immediate successor among the valid keys: no key is skipped.\<close>

lemma less_Next_iff: "valid_key k \<Longrightarrow> valid_key j \<Longrightarrow> j < Next k \<longleftrightarrow> j \<le> k"
  by (auto simp: Next_def Next_no_wrap less_htask_key_def less_eq_htask_key_def)
    (auto simp: valid_key_def)

lemma Next_le_iff: "valid_key k \<Longrightarrow> valid_key j \<Longrightarrow> Next k \<le> j \<longleftrightarrow> k < j"
  by (metis less_Next_iff linorder_not_le)

section \<open>Persisted tasks\<close>

datatype task_kind =
    ActivityTask | DecisionTask | RecordWorkflowStartedTask | ResetWorkflowTask
  | CloseExecutionTask | DeleteHistoryEventTask | DecisionTimeoutTask | WorkflowTimeoutTask
  | CancelExecutionTask | SignalExecutionTask | UpsertWorkflowSearchAttributesTask
  | StartChildExecutionTask | RecordWorkflowClosedTask | RecordChildExecutionCompletedTask
  | AcquireSemaphoreTask | ReleaseSemaphoreTask | ActivityTimeoutTask | UserTimerTask
  | ActivityRetryTimerTask | WorkflowBackoffTimerTask | HistoryReplicationTask
  | SyncActivityTask | FailoverMarkerTask

datatype task_category =
    HistoryTaskCategoryTransfer | HistoryTaskCategoryTimer | HistoryTaskCategoryReplication
  | HistoryTaskCategoryVisibility

datatype category_type = HistoryTaskCategoryTypeImmediate | HistoryTaskCategoryTypeScheduled

fun category_Type :: "task_category \<Rightarrow> category_type" where
  "category_Type HistoryTaskCategoryTransfer = HistoryTaskCategoryTypeImmediate"
| "category_Type HistoryTaskCategoryTimer = HistoryTaskCategoryTypeScheduled"
| "category_Type HistoryTaskCategoryReplication = HistoryTaskCategoryTypeImmediate"
| "category_Type HistoryTaskCategoryVisibility = HistoryTaskCategoryTypeImmediate"

text \<open>
  The part every persisted task has: \<open>WorkflowIdentifier\<close> and \<open>TaskData\<close>. The
  attributes of the single kinds do not influence the queues.
\<close>

record ptask =
  task_kind :: task_kind
  task_DomainID :: string
  task_WorkflowID :: string
  task_RunID :: string
  task_Version :: int
  task_TaskID :: int
  task_VisibilityTimestamp :: int

definition GetTaskCategory :: "ptask \<Rightarrow> task_category" where
  "GetTaskCategory t =
     (if task_kind t \<in> {DeleteHistoryEventTask, DecisionTimeoutTask, ActivityTimeoutTask,
         UserTimerTask, ActivityRetryTimerTask, WorkflowBackoffTimerTask, WorkflowTimeoutTask}
      then HistoryTaskCategoryTimer
      else if task_kind t \<in> {HistoryReplicationTask, SyncActivityTask, FailoverMarkerTask}
      then HistoryTaskCategoryReplication
      else HistoryTaskCategoryTransfer)"

definition GetTaskKey :: "ptask \<Rightarrow> htask_key" where
  "GetTaskKey t =
     (if task_kind t \<in> {DeleteHistoryEventTask, DecisionTimeoutTask, ActivityTimeoutTask,
         UserTimerTask, ActivityRetryTimerTask, WorkflowBackoffTimerTask, WorkflowTimeoutTask}
      then NewHistoryTaskKey (task_VisibilityTimestamp t) (task_TaskID t)
      else NewImmediateTaskKey (task_TaskID t))"

definition GetDomainID :: "ptask \<Rightarrow> string" where
  "GetDomainID t = task_DomainID t"

definition GetWorkflowID :: "ptask \<Rightarrow> string" where
  "GetWorkflowID t = (if task_kind t = FailoverMarkerTask then '''' else task_WorkflowID t)"

definition GetRunID :: "ptask \<Rightarrow> string" where
  "GetRunID t = (if task_kind t = FailoverMarkerTask then '''' else task_RunID t)"

definition IsTaskCorrupted :: "ptask \<Rightarrow> bool" where
  "IsTaskCorrupted t =
     (case task_kind t of
        FailoverMarkerTask \<Rightarrow> GetDomainID t = ''''
      | _ \<Rightarrow> GetDomainID t = '''' \<or> GetWorkflowID t = '''' \<or> GetRunID t = '''')"

lemma taskID_GetTaskKey [simp]: "taskID (GetTaskKey t) = task_TaskID t"
  by (simp add: GetTaskKey_def NewHistoryTaskKey_def NewImmediateTaskKey_def)

text \<open>A task is keyed by its visibility time exactly when its category is a scheduled one.\<close>

lemma scheduledTime_GetTaskKey:
  "scheduledTime (GetTaskKey t) =
     (if category_Type (GetTaskCategory t) = HistoryTaskCategoryTypeScheduled
      then task_VisibilityTimestamp t else 0)"
  by (cases "task_kind t")
    (simp_all add: GetTaskKey_def GetTaskCategory_def NewHistoryTaskKey_def NewImmediateTaskKey_def)

section \<open>Executable tasks\<close>

datatype task_state = TaskStatePending | TaskStateAcked | TaskStateCanceled

record htask =
  ht_Task :: ptask
  ht_state :: task_state
  ht_initialSubmitTime :: int

definition NewHistoryTaskV2 :: "int \<Rightarrow> ptask \<Rightarrow> htask" where
  "NewHistoryTaskV2 now t = \<lparr>ht_Task = t, ht_state = TaskStatePending, ht_initialSubmitTime = now\<rparr>"

definition task_Ack :: "htask \<Rightarrow> htask" where
  "task_Ack t = (if ht_state t \<noteq> TaskStatePending then t else t\<lparr>ht_state := TaskStateAcked\<rparr>)"

definition task_Cancel :: "htask \<Rightarrow> htask" where
  "task_Cancel t = (if ht_state t = TaskStatePending then t\<lparr>ht_state := TaskStateCanceled\<rparr> else t)"

abbreviation ht_key :: "htask \<Rightarrow> htask_key" where
  "ht_key t \<equiv> GetTaskKey (ht_Task t)"

abbreviation ht_domain :: "htask \<Rightarrow> string" where
  "ht_domain t \<equiv> GetDomainID (ht_Task t)"

lemma NewHistoryTaskV2_simps [simp]:
  "ht_Task (NewHistoryTaskV2 now t) = t"
  "ht_state (NewHistoryTaskV2 now t) = TaskStatePending"
  by (simp_all add: NewHistoryTaskV2_def)

lemma ht_Task_state_changes [simp]:
  "ht_Task (task_Ack t) = ht_Task t"
  "ht_Task (task_Cancel t) = ht_Task t"
  by (simp_all add: task_Ack_def task_Cancel_def)

lemma task_Ack_state:
  "ht_state (task_Ack t) = TaskStateAcked \<longleftrightarrow> ht_state t \<noteq> TaskStateCanceled"
  by (cases "ht_state t") (simp_all add: task_Ack_def)

end
