(* ===== verification/Predicates.thy ===== *)
theory Predicates
  imports Task_Key
begin

text \<open>
  Task predicates (\<open>service/history/queuev2/predicate.go\<close> and
  \<open>predicate_operation.go\<close>). A \<open>map[string]struct{}\<close> is a finite set. The interface
  has three implementations in the package, the constructors of \<open>predicate\<close>, so the
  \<open>default\<close> branches of the type switches, which panic, cannot be reached.

  \<open>predicate_algebra\<close> is what the slices rely on: that the Boolean operations compute the
  Boolean combination of the checks. It holds of the code on the predicates that are not an
  exclusion of no domain at all (\<open>pred_normal\<close>), a set the operations do not leave.
\<close>

datatype predicate =
    UniversalPredicate
  | EmptyPredicate
  | DomainIDPredicate (domainIDs: "string fset") (isExclusive: bool)

definition NewUniversalPredicate :: predicate where
  "NewUniversalPredicate = UniversalPredicate"

definition NewEmptyPredicate :: predicate where
  "NewEmptyPredicate = EmptyPredicate"

definition NewDomainIDPredicate :: "string list \<Rightarrow> bool \<Rightarrow> predicate" where
  "NewDomainIDPredicate ds excl = DomainIDPredicate (fset_of_list ds) excl"

fun pred_IsEmpty :: "predicate \<Rightarrow> bool" where
  "pred_IsEmpty UniversalPredicate = False"
| "pred_IsEmpty EmptyPredicate = True"
| "pred_IsEmpty (DomainIDPredicate ds excl) = (ds = {||} \<and> \<not> excl)"

fun Check :: "predicate \<Rightarrow> ptask \<Rightarrow> bool" where
  "Check UniversalPredicate t = True"
| "Check EmptyPredicate t = False"
| "Check (DomainIDPredicate ds excl) t = (if GetDomainID t |\<in>| ds then \<not> excl else excl)"

fun Equals :: "predicate \<Rightarrow> predicate \<Rightarrow> bool" where
  "Equals UniversalPredicate q = (case q of UniversalPredicate \<Rightarrow> True | _ \<Rightarrow> False)"
| "Equals EmptyPredicate q = (case q of EmptyPredicate \<Rightarrow> True | _ \<Rightarrow> False)"
| "Equals (DomainIDPredicate ds excl) q =
     (case q of DomainIDPredicate ds' excl' \<Rightarrow> excl = excl' \<and> ds = ds' | _ \<Rightarrow> False)"

definition unionStringSet :: "string fset \<Rightarrow> string fset \<Rightarrow> string fset" where
  "unionStringSet s1 s2 = s1 |\<union>| s2"

definition intersectStringSet :: "string fset \<Rightarrow> string fset \<Rightarrow> string fset" where
  "intersectStringSet s1 s2 = ffilter (\<lambda>d. d |\<in>| s2) s1"

definition diffStringSet :: "string fset \<Rightarrow> string fset \<Rightarrow> string fset" where
  "diffStringSet s1 s2 = ffilter (\<lambda>d. d |\<notin>| s2) s1"

lemmas stringSet_defs = unionStringSet_def intersectStringSet_def diffStringSet_def

fun Not_pred :: "predicate \<Rightarrow> predicate" where
  "Not_pred UniversalPredicate = EmptyPredicate"
| "Not_pred EmptyPredicate = UniversalPredicate"
| "Not_pred (DomainIDPredicate ds excl) =
     (if \<not> excl \<and> ds = {||} then UniversalPredicate else DomainIDPredicate ds (\<not> excl))"

fun And_pred :: "predicate \<Rightarrow> predicate \<Rightarrow> predicate" where
  "And_pred UniversalPredicate p2 = p2"
| "And_pred EmptyPredicate p2 = EmptyPredicate"
| "And_pred (DomainIDPredicate ds1 excl1) UniversalPredicate = DomainIDPredicate ds1 excl1"
| "And_pred (DomainIDPredicate ds1 excl1) EmptyPredicate = EmptyPredicate"
| "And_pred (DomainIDPredicate ds1 excl1) (DomainIDPredicate ds2 excl2) =
     (if excl1 then
        (if excl2 then
           (let ds = unionStringSet ds1 ds2 in
            if ds = {||} then EmptyPredicate else DomainIDPredicate ds True)
         else
           (let ds = ffilter (\<lambda>d. d |\<notin>| ds1) ds2 in
            if ds = {||} then EmptyPredicate else DomainIDPredicate ds False))
      else if excl2 then
        (let ds = ffilter (\<lambda>d. d |\<notin>| ds2) ds1 in
         if ds = {||} then EmptyPredicate else DomainIDPredicate ds False)
      else
        (let ds = intersectStringSet ds1 ds2 in
         if ds = {||} then EmptyPredicate else DomainIDPredicate ds False))"

fun Or_pred :: "predicate \<Rightarrow> predicate \<Rightarrow> predicate" where
  "Or_pred UniversalPredicate p2 = UniversalPredicate"
| "Or_pred EmptyPredicate p2 = p2"
| "Or_pred (DomainIDPredicate ds1 excl1) UniversalPredicate = UniversalPredicate"
| "Or_pred (DomainIDPredicate ds1 excl1) EmptyPredicate = DomainIDPredicate ds1 excl1"
| "Or_pred (DomainIDPredicate ds1 excl1) (DomainIDPredicate ds2 excl2) =
     (if excl1 then
        (if excl2 then
           (let ds = intersectStringSet ds1 ds2 in
            if ds = {||} then UniversalPredicate else DomainIDPredicate ds True)
         else
           (let ds = diffStringSet ds1 ds2 in
            if ds = {||} then UniversalPredicate else DomainIDPredicate ds True))
      else if excl2 then
        (let ds = diffStringSet ds2 ds1 in
         if ds = {||} then UniversalPredicate else DomainIDPredicate ds True)
      else
        (let ds = unionStringSet ds1 ds2 in
         if ds = {||} then EmptyPredicate else DomainIDPredicate ds False))"

text \<open>Not an exclusion of no domain.\<close>

definition pred_normal :: "predicate \<Rightarrow> bool" where
  "pred_normal p \<longleftrightarrow> p \<noteq> DomainIDPredicate {||} True"

section \<open>The contract of the predicates\<close>

locale predicate_algebra =
  fixes check :: "'p \<Rightarrow> 't \<Rightarrow> bool"
    and normal :: "'p \<Rightarrow> bool"
    and neg :: "'p \<Rightarrow> 'p"
    and conj :: "'p \<Rightarrow> 'p \<Rightarrow> 'p"
    and disj :: "'p \<Rightarrow> 'p \<Rightarrow> 'p"
  assumes check_neg: "check (neg p) t \<longleftrightarrow> \<not> check p t"
    and check_conj: "normal p \<Longrightarrow> normal q \<Longrightarrow> check (conj p q) t \<longleftrightarrow> check p t \<and> check q t"
    and check_disj: "check (disj p q) t \<longleftrightarrow> check p t \<or> check q t"
    and normal_neg: "normal p \<Longrightarrow> normal (neg p)"
    and normal_conj: "normal p \<Longrightarrow> normal q \<Longrightarrow> normal (conj p q)"
    and normal_disj: "normal p \<Longrightarrow> normal q \<Longrightarrow> normal (disj p q)"
begin

text \<open>Splitting a predicate by another one partitions the tasks it accepts.\<close>

lemma split_partition:
  assumes "normal p" "normal q"
  shows "check p t \<longleftrightarrow> check (conj p q) t \<or> check (conj p (neg q)) t"
    and "\<not> (check (conj p q) t \<and> check (conj p (neg q)) t)"
  using assms by (auto simp: check_conj check_neg normal_neg)

lemma split_fail_iff:
  assumes "normal p" "normal q" "check p t"
  shows "check (conj p (neg q)) t \<longleftrightarrow> \<not> check (conj p q) t"
  using assms by (auto simp: check_conj check_neg normal_neg)

end

lemma Check_Not_pred: "Check (Not_pred p) t \<longleftrightarrow> \<not> Check p t"
  by (cases p) auto

lemma Check_Or_pred: "Check (Or_pred p q) t \<longleftrightarrow> Check p t \<or> Check q t"
  by (cases p; cases q) (auto simp: stringSet_defs Let_def fset_eq_iff)

text \<open>Two exclusions of no domain are the only predicates whose conjunction is not the Boolean one.\<close>

lemma Check_And_pred_iff:
  "Check (And_pred p q) t \<longleftrightarrow> Check p t \<and> Check q t \<and>
     \<not> (p = DomainIDPredicate {||} True \<and> q = DomainIDPredicate {||} True)"
  by (cases p; cases q) (auto simp: stringSet_defs Let_def fset_eq_iff)

lemma Check_And_pred:
  assumes "pred_normal p" "pred_normal q"
  shows "Check (And_pred p q) t \<longleftrightarrow> Check p t \<and> Check q t"
  using assms by (auto simp: Check_And_pred_iff pred_normal_def)

lemma pred_normal_Not_pred: "pred_normal p \<Longrightarrow> pred_normal (Not_pred p)"
  by (cases p) (auto simp: pred_normal_def)

lemma pred_normal_And_pred: "pred_normal p \<Longrightarrow> pred_normal q \<Longrightarrow> pred_normal (And_pred p q)"
  by (cases p; cases q) (auto simp: pred_normal_def stringSet_defs Let_def)

lemma pred_normal_Or_pred: "pred_normal p \<Longrightarrow> pred_normal q \<Longrightarrow> pred_normal (Or_pred p q)"
  by (cases p; cases q) (auto simp: pred_normal_def stringSet_defs Let_def)

interpretation pa: predicate_algebra Check pred_normal Not_pred And_pred Or_pred
  by unfold_locales
    (auto simp: Check_Not_pred Check_And_pred Check_Or_pred pred_normal_Not_pred
      pred_normal_And_pred pred_normal_Or_pred)

lemma pred_normal_simps [simp]:
  "pred_normal UniversalPredicate"
  "pred_normal EmptyPredicate"
  "pred_normal (NewDomainIDPredicate ds False)"
  by (simp_all add: pred_normal_def NewDomainIDPredicate_def)

lemma Equals_iff [simp]: "Equals p q \<longleftrightarrow> p = q"
  by (cases p; cases q) auto

lemma fresh_domain: "\<exists>d. d |\<notin>| (ds :: string fset)"
  by (metis ex_new_if_finite finite_fset infinite_UNIV_listI)

text \<open>\<open>IsEmpty\<close> is exact: it holds precisely of the predicates no task satisfies.\<close>

lemma pred_IsEmpty_iff: "pred_IsEmpty p \<longleftrightarrow> (\<forall>t. \<not> Check p t)"
proof (cases p)
  case (DomainIDPredicate ds excl)
  have dom: "GetDomainID (undefined\<lparr>task_DomainID := x\<rparr>) = x" for x
    by (simp add: GetDomainID_def)
  obtain d where d: "d |\<notin>| ds" using fresh_domain by blast
  have "\<exists>t. Check p t" if ne: "\<not> pred_IsEmpty p"
  proof (cases excl)
    case True
    then have "Check p (undefined\<lparr>task_DomainID := d\<rparr>)"
      using DomainIDPredicate d by (simp add: dom)
    then show ?thesis ..
  next
    case False
    then obtain e where "e |\<in>| ds" using ne DomainIDPredicate by auto
    then have "Check p (undefined\<lparr>task_DomainID := e\<rparr>)"
      using DomainIDPredicate False by (simp add: dom)
    then show ?thesis ..
  qed
  moreover have "\<not> Check p t" if "pred_IsEmpty p" for t
    using that DomainIDPredicate by simp
  ultimately show ?thesis by blast
qed auto

end
