(* ===== verification/Queue_State.thy ===== *)
theory Queue_State
  imports Predicates
begin

text \<open>
  Key ranges (\<open>range.go\<close>), the state of a virtual slice and of a queue
  (\<open>queue_state.go\<close>) and their persisted form (\<open>convert.go\<close>).

  A range denotes the interval \<open>range_keys\<close> of task keys, a slice state the set of tasks it
  contains; the operations are proved against these denotations. Pointers of the persisted form
  are options, and following a nil pointer is a panic.
\<close>

section \<open>Ranges\<close>

record task_range =
  InclusiveMinTaskKey :: htask_key
  ExclusiveMaxTaskKey :: htask_key

definition range_IsEmpty :: "'a task_range_scheme \<Rightarrow> bool" where
  "range_IsEmpty r \<longleftrightarrow> Compare (InclusiveMinTaskKey r) (ExclusiveMaxTaskKey r) \<ge> 0"

definition range_Contains :: "'a task_range_scheme \<Rightarrow> htask_key \<Rightarrow> bool" where
  "range_Contains r k \<longleftrightarrow>
     Compare k (InclusiveMinTaskKey r) \<ge> 0 \<and> Compare k (ExclusiveMaxTaskKey r) < 0"

definition ContainsRange :: "'a task_range_scheme \<Rightarrow> 'b task_range_scheme \<Rightarrow> bool" where
  "ContainsRange r other \<longleftrightarrow>
     Compare (InclusiveMinTaskKey r) (InclusiveMinTaskKey other) \<le> 0 \<and>
     Compare (ExclusiveMaxTaskKey r) (ExclusiveMaxTaskKey other) \<ge> 0"

definition CanMerge :: "'a task_range_scheme \<Rightarrow> 'b task_range_scheme \<Rightarrow> bool" where
  "CanMerge r other \<longleftrightarrow>
     Compare (InclusiveMinTaskKey r) (ExclusiveMaxTaskKey other) \<le> 0 \<and>
     Compare (ExclusiveMaxTaskKey r) (InclusiveMinTaskKey other) \<ge> 0"

definition CanSplitByTaskKey :: "'a task_range_scheme \<Rightarrow> htask_key \<Rightarrow> bool" where
  "CanSplitByTaskKey r k \<longleftrightarrow>
     Compare k (InclusiveMinTaskKey r) > 0 \<and> Compare k (ExclusiveMaxTaskKey r) < 0"

definition range_keys :: "'a task_range_scheme \<Rightarrow> htask_key set" where
  "range_keys r = {InclusiveMinTaskKey r ..< ExclusiveMaxTaskKey r}"

lemmas range_defs = range_IsEmpty_def range_Contains_def ContainsRange_def CanMerge_def
  CanSplitByTaskKey_def

lemma mem_range_keys [simp]:
  "k \<in> range_keys r \<longleftrightarrow> InclusiveMinTaskKey r \<le> k \<and> k < ExclusiveMaxTaskKey r"
  by (simp add: range_keys_def)

lemma range_IsEmpty_iff: "range_IsEmpty r \<longleftrightarrow> range_keys r = {}"
  by (auto simp: range_IsEmpty_def range_keys_def)

lemma range_Contains_iff [simp]: "range_Contains r k \<longleftrightarrow> k \<in> range_keys r"
  by (simp add: range_Contains_def)

lemma ContainsRange_keys: "ContainsRange r other \<Longrightarrow> range_keys other \<subseteq> range_keys r"
  by (auto simp: ContainsRange_def)

text \<open>Two ranges that can merge leave no gap between them.\<close>

lemma CanMerge_union:
  assumes "CanMerge r s" "\<not> range_IsEmpty r" "\<not> range_IsEmpty s"
  shows "range_keys r \<union> range_keys s =
    {min (InclusiveMinTaskKey r) (InclusiveMinTaskKey s) ..<
     max (ExclusiveMaxTaskKey r) (ExclusiveMaxTaskKey s)}"
  using assms unfolding range_defs range_keys_def Compare_simps
  by (auto simp: min_le_iff_disj less_max_iff_disj)

section \<open>Slice states\<close>

record slice_state =
  ss_Range :: task_range
  ss_Predicate :: predicate

record queue_state =
  VirtualQueueStates :: "(int, slice_state list) gomap"
  ExclusiveMaxReadLevel :: htask_key

definition state_IsEmpty :: "slice_state \<Rightarrow> bool" where
  "state_IsEmpty s \<longleftrightarrow> range_IsEmpty (ss_Range s) \<or> pred_IsEmpty (ss_Predicate s)"

definition state_Contains :: "slice_state \<Rightarrow> ptask \<Rightarrow> bool" where
  "state_Contains s t \<longleftrightarrow> range_Contains (ss_Range s) (GetTaskKey t) \<and> Check (ss_Predicate s) t"

definition state_TrySplitByTaskKey :: "slice_state \<Rightarrow> htask_key \<Rightarrow> (slice_state \<times> slice_state) option" where
  "state_TrySplitByTaskKey s k =
     (if \<not> CanSplitByTaskKey (ss_Range s) k then None
      else Some
        (\<lparr>ss_Range = \<lparr>InclusiveMinTaskKey = InclusiveMinTaskKey (ss_Range s), ExclusiveMaxTaskKey = k\<rparr>,
          ss_Predicate = ss_Predicate s\<rparr>,
         \<lparr>ss_Range = \<lparr>InclusiveMinTaskKey = k, ExclusiveMaxTaskKey = ExclusiveMaxTaskKey (ss_Range s)\<rparr>,
          ss_Predicate = ss_Predicate s\<rparr>))"

definition state_TrySplitByPredicate :: "slice_state \<Rightarrow> predicate \<Rightarrow> (slice_state \<times> slice_state) option" where
  "state_TrySplitByPredicate s p =
     (if Equals p UniversalPredicate \<or> Equals p EmptyPredicate \<or> Equals p (ss_Predicate s) then None
      else Some
        (\<lparr>ss_Range = ss_Range s, ss_Predicate = And_pred (ss_Predicate s) p\<rparr>,
         \<lparr>ss_Range = ss_Range s, ss_Predicate = And_pred (ss_Predicate s) (Not_pred p)\<rparr>))"

lemma state_Contains_iff:
  "state_Contains s t \<longleftrightarrow> GetTaskKey t \<in> range_keys (ss_Range s) \<and> Check (ss_Predicate s) t"
  by (simp add: state_Contains_def)

text \<open>The range of a split state is cut at the key.\<close>

lemma state_TrySplitByTaskKey_Some:
  assumes "state_TrySplitByTaskKey s k = Some (l, r)"
  shows "InclusiveMinTaskKey (ss_Range s) < k" "k < ExclusiveMaxTaskKey (ss_Range s)"
    "InclusiveMinTaskKey (ss_Range l) = InclusiveMinTaskKey (ss_Range s)"
    "ExclusiveMaxTaskKey (ss_Range l) = k" "InclusiveMinTaskKey (ss_Range r) = k"
    "ExclusiveMaxTaskKey (ss_Range r) = ExclusiveMaxTaskKey (ss_Range s)"
    "ss_Predicate l = ss_Predicate s" "ss_Predicate r = ss_Predicate s"
  using assms by (auto simp: state_TrySplitByTaskKey_def range_defs split: if_splits)

lemma state_TrySplitByPredicate_Some:
  assumes "state_TrySplitByPredicate s p = Some (a, b)"
  shows "ss_Range a = ss_Range s" "ss_Range b = ss_Range s"
    "ss_Predicate a = And_pred (ss_Predicate s) p"
    "ss_Predicate b = And_pred (ss_Predicate s) (Not_pred p)"
  using assms by (auto simp: state_TrySplitByPredicate_def split: if_splits)

section \<open>Persisted form\<close>

record p_TaskKey =
  pk_ScheduledTimeNano :: int
  pk_TaskID :: int

record p_TaskRange =
  pr_InclusiveMin :: "p_TaskKey option"
  pr_ExclusiveMax :: "p_TaskKey option"

record p_DomainIDPredicateAttributes =
  pd_DomainIDs :: "string list"
  pd_IsExclusive :: "bool option"

record p_Predicate =
  pp_PredicateType :: int
  pp_UniversalPredicateAttributes :: "unit option"
  pp_EmptyPredicateAttributes :: "unit option"
  pp_DomainIDPredicateAttributes :: "p_DomainIDPredicateAttributes option"

record p_VirtualSliceState =
  ps_TaskRange :: "p_TaskRange option"
  ps_Predicate :: "p_Predicate option"

record p_VirtualQueueState =
  pv_VirtualSliceStates :: "p_VirtualSliceState option list"

record p_QueueState =
  pq_VirtualQueueStates :: "(int, p_VirtualQueueState option) gomap"
  pq_ExclusiveMaxReadLevel :: "p_TaskKey option"

definition nil_deref :: "'a result" where
  "nil_deref = Err (Panic ''invalid memory address or nil pointer dereference'' [])"

definition FromPersistenceTaskKey :: "p_TaskKey option \<Rightarrow> htask_key result" where
  "FromPersistenceTaskKey key =
     (case key of None \<Rightarrow> nil_deref
      | Some k \<Rightarrow> Ok (NewHistoryTaskKey (pk_ScheduledTimeNano k) (pk_TaskID k)))"

definition ToPersistenceTaskKey :: "htask_key \<Rightarrow> p_TaskKey option" where
  "ToPersistenceTaskKey key =
     Some \<lparr>pk_ScheduledTimeNano = wrap64 (scheduledTime key), pk_TaskID = taskID key\<rparr>"

definition FromPersistenceTaskRange :: "p_TaskRange option \<Rightarrow> task_range result" where
  "FromPersistenceTaskRange rng =
     (case rng of None \<Rightarrow> nil_deref
      | Some r \<Rightarrow>
          rbind (FromPersistenceTaskKey (pr_InclusiveMin r)) (\<lambda>lo.
          rbind (FromPersistenceTaskKey (pr_ExclusiveMax r)) (\<lambda>hi.
          Ok \<lparr>InclusiveMinTaskKey = lo, ExclusiveMaxTaskKey = hi\<rparr>)))"

definition ToPersistenceTaskRange :: "task_range \<Rightarrow> p_TaskRange option" where
  "ToPersistenceTaskRange r =
     Some \<lparr>pr_InclusiveMin = ToPersistenceTaskKey (InclusiveMinTaskKey r),
           pr_ExclusiveMax = ToPersistenceTaskKey (ExclusiveMaxTaskKey r)\<rparr>"

definition GetIsExclusive :: "p_DomainIDPredicateAttributes \<Rightarrow> bool" where
  "GetIsExclusive d = (case pd_IsExclusive d of None \<Rightarrow> False | Some b \<Rightarrow> b)"

definition GetDomainIDPredicateAttributes ::
  "p_Predicate option \<Rightarrow> p_DomainIDPredicateAttributes option" where
  "GetDomainIDPredicateAttributes p =
     (case p of None \<Rightarrow> None
      | Some p \<Rightarrow> if pp_PredicateType p \<noteq> 2 then None else pp_DomainIDPredicateAttributes p)"

definition FromPersistencePredicate :: "p_Predicate option \<Rightarrow> predicate result" where
  "FromPersistencePredicate predicate =
     (case predicate of None \<Rightarrow> Ok NewUniversalPredicate
      | Some p \<Rightarrow>
          if pp_PredicateType p = 0 then Ok NewUniversalPredicate
          else if pp_PredicateType p = 1 then Ok NewEmptyPredicate
          else if pp_PredicateType p = 2 then
            (case GetDomainIDPredicateAttributes predicate of None \<Rightarrow> nil_deref
             | Some d \<Rightarrow> Ok (NewDomainIDPredicate (pd_DomainIDs d) (GetIsExclusive d)))
          else Err (Panic ''unknown predicate type: %v'' [pp_PredicateType p]))"

fun ToPersistencePredicate :: "predicate \<Rightarrow> p_Predicate option" where
  "ToPersistencePredicate UniversalPredicate =
     Some \<lparr>pp_PredicateType = 0, pp_UniversalPredicateAttributes = Some (),
       pp_EmptyPredicateAttributes = None, pp_DomainIDPredicateAttributes = None\<rparr>"
| "ToPersistencePredicate EmptyPredicate =
     Some \<lparr>pp_PredicateType = 1, pp_UniversalPredicateAttributes = None,
       pp_EmptyPredicateAttributes = Some (), pp_DomainIDPredicateAttributes = None\<rparr>"
| "ToPersistencePredicate (DomainIDPredicate ds excl) =
     Some \<lparr>pp_PredicateType = 2, pp_UniversalPredicateAttributes = None,
       pp_EmptyPredicateAttributes = None,
       pp_DomainIDPredicateAttributes =
         Some \<lparr>pd_DomainIDs = sorted_list_of_fset ds, pd_IsExclusive = Some excl\<rparr>\<rparr>"

definition FromPersistenceVirtualSliceState :: "p_VirtualSliceState option \<Rightarrow> slice_state result" where
  "FromPersistenceVirtualSliceState state =
     (case state of None \<Rightarrow> nil_deref
      | Some s \<Rightarrow>
          rbind (FromPersistenceTaskRange (ps_TaskRange s)) (\<lambda>r.
          rbind (FromPersistencePredicate (ps_Predicate s)) (\<lambda>p.
          Ok \<lparr>ss_Range = r, ss_Predicate = p\<rparr>)))"

definition ToPersistenceVirtualSliceState :: "slice_state \<Rightarrow> p_VirtualSliceState option" where
  "ToPersistenceVirtualSliceState s =
     Some \<lparr>ps_TaskRange = ToPersistenceTaskRange (ss_Range s),
           ps_Predicate = ToPersistencePredicate (ss_Predicate s)\<rparr>"

definition FromPersistenceVirtualQueueState ::
  "p_VirtualQueueState option \<Rightarrow> slice_state list result" where
  "FromPersistenceVirtualQueueState state =
     (case state of None \<Rightarrow> nil_deref
      | Some s \<Rightarrow> rmap FromPersistenceVirtualSliceState (pv_VirtualSliceStates s))"

definition ToPersistenceVirtualQueueState :: "slice_state list \<Rightarrow> p_VirtualQueueState option" where
  "ToPersistenceVirtualQueueState ss =
     Some \<lparr>pv_VirtualSliceStates = map ToPersistenceVirtualSliceState ss\<rparr>"

definition FromPersistenceQueueState :: "p_QueueState \<Rightarrow> queue_state result" where
  "FromPersistenceQueueState state =
     rbind (rmap (\<lambda>(k, v). rbind (FromPersistenceVirtualQueueState v) (\<lambda>ss. Ok (k, ss)))
              (pq_VirtualQueueStates state)) (\<lambda>vqs.
     rbind (FromPersistenceTaskKey (pq_ExclusiveMaxReadLevel state)) (\<lambda>lvl.
     Ok \<lparr>VirtualQueueStates = vqs, ExclusiveMaxReadLevel = lvl\<rparr>))"

definition ToPersistenceQueueState :: "queue_state \<Rightarrow> p_QueueState" where
  "ToPersistenceQueueState state =
     \<lparr>pq_VirtualQueueStates =
        map (\<lambda>(k, v). (k, ToPersistenceVirtualQueueState v)) (VirtualQueueStates state),
      pq_ExclusiveMaxReadLevel = ToPersistenceTaskKey (ExclusiveMaxReadLevel state)\<rparr>"

subsection \<open>Round trips\<close>

definition storable_key :: "htask_key \<Rightarrow> bool" where
  "storable_key k \<longleftrightarrow> int64 (scheduledTime k)"

definition storable_state :: "slice_state \<Rightarrow> bool" where
  "storable_state s \<longleftrightarrow> storable_key (InclusiveMinTaskKey (ss_Range s)) \<and>
     storable_key (ExclusiveMaxTaskKey (ss_Range s))"

lemma task_key_roundtrip:
  "storable_key k \<Longrightarrow> FromPersistenceTaskKey (ToPersistenceTaskKey k) = Ok k"
  by (simp add: FromPersistenceTaskKey_def ToPersistenceTaskKey_def storable_key_def wrap64_id
      NewHistoryTaskKey_def)

lemma predicate_roundtrip:
  "FromPersistencePredicate (ToPersistencePredicate p) = Ok p"
  by (cases p)
    (simp_all add: FromPersistencePredicate_def GetDomainIDPredicateAttributes_def
      NewUniversalPredicate_def NewEmptyPredicate_def NewDomainIDPredicate_def GetIsExclusive_def)

lemma slice_state_roundtrip:
  "storable_state s \<Longrightarrow> FromPersistenceVirtualSliceState (ToPersistenceVirtualSliceState s) = Ok s"
  by (simp add: FromPersistenceVirtualSliceState_def ToPersistenceVirtualSliceState_def
      FromPersistenceTaskRange_def ToPersistenceTaskRange_def storable_state_def
      task_key_roundtrip predicate_roundtrip)

lemma virtual_queue_state_roundtrip:
  assumes "\<forall>s \<in> set ss. storable_state s"
  shows "FromPersistenceVirtualQueueState (ToPersistenceVirtualQueueState ss) = Ok ss"
proof -
  have "rmap FromPersistenceVirtualSliceState (map ToPersistenceVirtualSliceState ss) = Inr ss"
    using assms by (induction ss) (simp_all add: slice_state_roundtrip)
  then show ?thesis
    by (simp add: FromPersistenceVirtualQueueState_def ToPersistenceVirtualQueueState_def)
qed

lemma queue_state_restored:
  assumes "\<forall>(k, ss) \<in> set (VirtualQueueStates st). \<forall>s \<in> set ss. storable_state s"
    and "storable_key (ExclusiveMaxReadLevel st)"
  shows "FromPersistenceQueueState (ToPersistenceQueueState st) = Ok st"
proof -
  have "rmap (\<lambda>(k, v). rbind (FromPersistenceVirtualQueueState v) (\<lambda>ss. Ok (k, ss)))
      (map (\<lambda>(k, v). (k, ToPersistenceVirtualQueueState v)) qs) = Ok qs"
    if "\<forall>(k, ss) \<in> set qs. \<forall>s \<in> set ss. storable_state s" for qs :: "(int, slice_state list) gomap"
    using that by (induction qs) (auto simp: virtual_queue_state_roundtrip)
  then show ?thesis
    using assms by (simp add: FromPersistenceQueueState_def ToPersistenceQueueState_def task_key_roundtrip)
qed

end
