(* ===== verification/Task_Store.thy ===== *)
theory Task_Store
  imports Queue_State
begin

text \<open>
  Reading and deleting the immediate history tasks of a shard in the SQL store
  (\<open>common/persistence/sql/sql_execution_store.go\<close>, the queries of
  \<open>sql/sqlplugin/mysql/execution.go\<close> and the page token of \<open>sql/common.go\<close>).

  A table is the list of its rows; a \<open>SELECT ... ORDER BY task_id LIMIT n\<close> is the first
  \<open>n\<close> rows that satisfy the condition, sorted by task ID. A row holds the decoded task, so
  the task serializer is the identity here. The scheduled tasks are read by another query with a
  JSON page token; that branch is a parameter.
\<close>

section \<open>Page tokens\<close>

fun le_bytes :: "nat \<Rightarrow> int \<Rightarrow> nat list" where
  "le_bytes 0 v = []"
| "le_bytes (Suc n) v = nat (v mod 256) # le_bytes n (v div 256)"

fun from_le_bytes :: "nat list \<Rightarrow> int" where
  "from_le_bytes [] = 0"
| "from_le_bytes (b # bs) = int b + 256 * from_le_bytes bs"

definition serializePageToken :: "int \<Rightarrow> go_bytes" where
  "serializePageToken offset = Some (le_bytes 8 (offset mod 2 ^ 64))"

definition deserializePageToken :: "go_bytes \<Rightarrow> int result" where
  "deserializePageToken payload =
     (if blen payload \<noteq> 8
      then Err (InternalServiceError ''invalid token of %v length'' [int (blen payload)])
      else Ok (wrap64 (from_le_bytes (case payload of None \<Rightarrow> [] | Some b \<Rightarrow> b))))"

lemma length_le_bytes [simp]: "length (le_bytes n v) = n"
  by (induction n arbitrary: v) auto

lemma from_le_bytes_le_bytes: "0 \<le> v \<Longrightarrow> from_le_bytes (le_bytes n v) = v mod 256 ^ n"
proof (induction n arbitrary: v)
  case (Suc n)
  have "v mod 256 + 256 * (v div 256 mod 256 ^ n) = v mod (256 * 256 ^ n)"
    by (simp add: mod_mult2_eq' zmod_zmult2_eq)
  then show ?case using Suc by (simp add: pos_imp_zdiv_nonneg_iff)
qed simp

lemma wrap64_mod: "wrap64 (x mod 2 ^ 64) = wrap64 x"
  unfolding wrap64_def by (metis mod_add_left_eq)

lemma blen_serializePageToken [simp]: "blen (serializePageToken x) = 8"
  by (simp add: blen_def serializePageToken_def)

text \<open>A page token is decoded to the offset it was made of.\<close>

lemma token_roundtrip:
  assumes "int64 x"
  shows "deserializePageToken (serializePageToken x) = Ok x"
proof -
  have "from_le_bytes (le_bytes 8 (x mod 2 ^ 64)) = x mod 2 ^ 64 mod 256 ^ 8"
    by (rule from_le_bytes_le_bytes) simp
  also have "\<dots> = x mod 2 ^ 64"
    by simp
  finally have eq: "from_le_bytes (le_bytes 8 (x mod 2 ^ 64)) = x mod 2 ^ 64" .
  have "wrap64 (from_le_bytes (le_bytes 8 (x mod 2 ^ 64))) = x"
    unfolding eq wrap64_mod by (rule wrap64_id [OF assms])
  then show ?thesis
    by (simp add: deserializePageToken_def) (simp add: serializePageToken_def)
qed

section \<open>The tables\<close>

record task_row =
  row_ShardID :: int
  row_Task :: ptask

record tasks_filter =
  tf_ShardID :: int
  tf_InclusiveMinTaskID :: int
  tf_ExclusiveMaxTaskID :: int
  tf_PageSize :: int

text \<open>
  Every call of the database may fail. Which calls fail is a part of the database: \<open>select_error\<close>
  is the error of a query, \<open>decode_error\<close> the one of decoding a row, \<open>delete_error\<close> the one of
  deleting from a table with the given rows. An error of a query is never \<open>sql.ErrNoRows\<close>, which
  the driver does not return for a query of many rows; a deletion that fails has no effect.
\<close>

record sql_db =
  transfer_tasks :: "task_row list"
  replication_tasks :: "task_row list"
  select_error :: "tasks_filter \<Rightarrow> string option"
  decode_error :: "ptask \<Rightarrow> string option"
  delete_error :: "task_row list \<Rightarrow> tasks_filter \<Rightarrow> string option"

definition db_result :: "string option \<Rightarrow> 'a result \<Rightarrow> 'a result" where
  "db_result err r = (case err of Some e \<Rightarrow> Err (PersistenceError e) | None \<Rightarrow> r)"

text \<open>The rows a filter selects, in the order of their task IDs. A negative limit is refused.\<close>

definition select_rows :: "task_row list \<Rightarrow> tasks_filter \<Rightarrow> ptask list" where
  "select_rows table f =
     sort_key task_TaskID (map row_Task
       (filter (\<lambda>r. row_ShardID r = tf_ShardID f \<and>
          tf_InclusiveMinTaskID f \<le> task_TaskID (row_Task r) \<and>
          task_TaskID (row_Task r) < tf_ExclusiveMaxTaskID f) table))"

definition sql_limit :: "int \<Rightarrow> ptask list \<Rightarrow> ptask list result" where
  "sql_limit n rows =
     (if n < 0 then Err (PersistenceError ''LIMIT must not be negative'')
      else Ok (take (nat n) rows))"

definition SelectFromTransferTasks :: "sql_db \<Rightarrow> tasks_filter \<Rightarrow> ptask list result" where
  "SelectFromTransferTasks db f =
     db_result (select_error db f) (sql_limit (tf_PageSize f) (select_rows (transfer_tasks db) f))"

definition SelectFromReplicationTasks :: "sql_db \<Rightarrow> tasks_filter \<Rightarrow> ptask list result" where
  "SelectFromReplicationTasks db f =
     db_result (select_error db f) (sql_limit (tf_PageSize f) (select_rows (replication_tasks db) f))"

text \<open>Deleting keeps the rows that are not among those selected; the count is returned.\<close>

definition delete_rows :: "int \<Rightarrow> ptask list \<Rightarrow> task_row list \<Rightarrow> task_row list" where
  "delete_rows shard ts table =
     filter (\<lambda>r. \<not> (row_ShardID r = shard \<and> row_Task r \<in> set ts)) table"

definition RangeDeleteFromTransferTasks :: "sql_db \<Rightarrow> tasks_filter \<Rightarrow> (sql_db \<times> int) result" where
  "RangeDeleteFromTransferTasks db f =
     (let hit = select_rows (transfer_tasks db) f;
          hit = (if tf_PageSize f > 0 then take (nat (tf_PageSize f)) hit else hit)
      in db_result (delete_error db (transfer_tasks db) f)
           (Ok (db\<lparr>transfer_tasks := delete_rows (tf_ShardID f) hit (transfer_tasks db)\<rparr>,
                int (length hit))))"

definition RangeDeleteFromReplicationTasks :: "sql_db \<Rightarrow> tasks_filter \<Rightarrow> (sql_db \<times> int) result" where
  "RangeDeleteFromReplicationTasks db f =
     (let hit = sort_key task_TaskID (map row_Task
            (filter (\<lambda>r. row_ShardID r = tf_ShardID f \<and>
               task_TaskID (row_Task r) < tf_ExclusiveMaxTaskID f) (replication_tasks db)));
          hit = (if tf_PageSize f > 0 then take (nat (tf_PageSize f)) hit else hit)
      in db_result (delete_error db (replication_tasks db) f)
           (Ok (db\<lparr>replication_tasks := delete_rows (tf_ShardID f) hit (replication_tasks db)\<rparr>,
                int (length hit))))"

section \<open>The execution store\<close>

record GetHistoryTasksRequest =
  gh_ShardID :: "int option"
  gh_TaskCategory :: task_category
  gh_InclusiveMinTaskKey :: htask_key
  gh_ExclusiveMaxTaskKey :: htask_key
  gh_PageSize :: int
  gh_NextPageToken :: go_bytes

record GetHistoryTasksResponse =
  gr_Tasks :: "ptask list"
  gr_NextPageToken :: go_bytes

definition resolveShardID :: "int option \<Rightarrow> int result" where
  "resolveShardID s =
     (case s of None \<Rightarrow> Err (BadRequestError ''execution persistence request missing shard ID'' [])
      | Some i \<Rightarrow> Ok i)"

definition effectiveShardID :: "int option \<Rightarrow> int result" where
  "effectiveShardID s = resolveShardID s"

definition token_offset :: "GetHistoryTasksRequest \<Rightarrow> int result" where
  "token_offset req =
     (if blen (gh_NextPageToken req) > 0 then
        (case deserializePageToken (gh_NextPageToken req) of
           Inl e \<Rightarrow> Err (InternalServiceError
             ''GetImmediateHistoryTasks: error deserializing page token: %v'' [])
         | Inr i \<Rightarrow> Ok i)
      else Ok (taskID (gh_InclusiveMinTaskKey req)))"

definition immediate_response ::
  "GetHistoryTasksRequest \<Rightarrow> ptask list \<Rightarrow> GetHistoryTasksResponse" where
  "immediate_response req rows =
     \<lparr>gr_Tasks = rows,
      gr_NextPageToken =
        (if length rows > 0 then
           (let nextTaskID = wrap64 (task_TaskID (last rows) + 1) in
            if nextTaskID < taskID (gh_ExclusiveMaxTaskKey req)
            then serializePageToken nextTaskID else None)
         else None)\<rparr>"

text \<open>Decoding the rows of a page; a row is the task it encodes.\<close>

primrec deserialize_rows :: "sql_db \<Rightarrow> ptask list \<Rightarrow> ptask list result" where
  "deserialize_rows db [] = Ok []"
| "deserialize_rows db (row # rows) =
     db_result (decode_error db row) (rbind (deserialize_rows db rows) (\<lambda>tasks. Ok (row # tasks)))"

definition getImmediateHistoryTasks ::
  "sql_db \<Rightarrow> GetHistoryTasksRequest \<Rightarrow> int \<Rightarrow> GetHistoryTasksResponse result" where
  "getImmediateHistoryTasks db req shardID =
     (case gh_TaskCategory req of
        HistoryTaskCategoryTransfer \<Rightarrow>
          rbind (token_offset req) (\<lambda>inclusiveMinTaskID.
          rbind (SelectFromTransferTasks db
              \<lparr>tf_ShardID = shardID, tf_InclusiveMinTaskID = inclusiveMinTaskID,
               tf_ExclusiveMaxTaskID = taskID (gh_ExclusiveMaxTaskKey req),
               tf_PageSize = gh_PageSize req\<rparr>) (\<lambda>rows.
          rbind (deserialize_rows db rows) (\<lambda>tasks.
          Ok (immediate_response req tasks))))
      | HistoryTaskCategoryReplication \<Rightarrow>
          rbind (token_offset req) (\<lambda>inclusiveMinTaskID.
          let exclusiveMaxTaskID =
            (if blen (gh_NextPageToken req) > 0
             then max (wrap64 (inclusiveMinTaskID + gh_PageSize req))
                    (taskID (gh_ExclusiveMaxTaskKey req))
             else taskID (gh_ExclusiveMaxTaskKey req)) in
          rbind (SelectFromReplicationTasks db
              \<lparr>tf_ShardID = shardID, tf_InclusiveMinTaskID = inclusiveMinTaskID,
               tf_ExclusiveMaxTaskID = exclusiveMaxTaskID,
               tf_PageSize = gh_PageSize req\<rparr>) (\<lambda>rows.
          rbind (deserialize_rows db rows) (\<lambda>tasks.
          Ok (immediate_response req tasks))))
      | _ \<Rightarrow> Err (BadRequestError ''Unknown task category ID: %v'' []))"

definition GetHistoryTasks ::
  "(GetHistoryTasksRequest \<Rightarrow> int \<Rightarrow> GetHistoryTasksResponse result) \<Rightarrow> sql_db \<Rightarrow>
   GetHistoryTasksRequest \<Rightarrow> GetHistoryTasksResponse result" where
  "GetHistoryTasks getScheduledHistoryTasks db req =
     rbind (effectiveShardID (gh_ShardID req)) (\<lambda>shardID.
     case category_Type (gh_TaskCategory req) of
       HistoryTaskCategoryTypeImmediate \<Rightarrow> getImmediateHistoryTasks db req shardID
     | HistoryTaskCategoryTypeScheduled \<Rightarrow> getScheduledHistoryTasks req shardID)"

record RangeCompleteHistoryTaskRequest =
  rc_ShardID :: "int option"
  rc_TaskCategory :: task_category
  rc_InclusiveMinTaskKey :: htask_key
  rc_ExclusiveMaxTaskKey :: htask_key
  rc_PageSize :: int

definition rangeCompleteImmediateHistoryTask ::
  "sql_db \<Rightarrow> RangeCompleteHistoryTaskRequest \<Rightarrow> int \<Rightarrow> (sql_db \<times> int) result" where
  "rangeCompleteImmediateHistoryTask db req shardID =
     (case rc_TaskCategory req of
        HistoryTaskCategoryTransfer \<Rightarrow>
          RangeDeleteFromTransferTasks db
            \<lparr>tf_ShardID = shardID, tf_InclusiveMinTaskID = taskID (rc_InclusiveMinTaskKey req),
             tf_ExclusiveMaxTaskID = taskID (rc_ExclusiveMaxTaskKey req),
             tf_PageSize = rc_PageSize req\<rparr>
      | HistoryTaskCategoryReplication \<Rightarrow>
          RangeDeleteFromReplicationTasks db
            \<lparr>tf_ShardID = shardID, tf_InclusiveMinTaskID = 0,
             tf_ExclusiveMaxTaskID = taskID (rc_ExclusiveMaxTaskKey req),
             tf_PageSize = rc_PageSize req\<rparr>
      | _ \<Rightarrow> Err (BadRequestError ''Unknown task category: %v'' []))"

definition RangeCompleteHistoryTask ::
  "(sql_db \<Rightarrow> RangeCompleteHistoryTaskRequest \<Rightarrow> int \<Rightarrow> (sql_db \<times> int) result) \<Rightarrow> sql_db \<Rightarrow>
   RangeCompleteHistoryTaskRequest \<Rightarrow> (sql_db \<times> int) result" where
  "RangeCompleteHistoryTask rangeCompleteScheduledHistoryTask db req =
     rbind (effectiveShardID (rc_ShardID req)) (\<lambda>shardID.
     case category_Type (rc_TaskCategory req) of
       HistoryTaskCategoryTypeScheduled \<Rightarrow> rangeCompleteScheduledHistoryTask db req shardID
     | HistoryTaskCategoryTypeImmediate \<Rightarrow> rangeCompleteImmediateHistoryTask db req shardID)"

definition HasMoreRowsToDelete :: "int \<Rightarrow> int \<Rightarrow> bool" where
  "HasMoreRowsToDelete rowsDeleted batchSize \<longleftrightarrow>
     \<not> (rowsDeleted < batchSize \<or> rowsDeleted = -1 \<or> rowsDeleted > batchSize \<or> batchSize \<le> 0)"

section \<open>What a read returns\<close>

definition shard_tasks :: "task_row list \<Rightarrow> int \<Rightarrow> ptask set" where
  "shard_tasks table shard = row_Task ` {r \<in> set table. row_ShardID r = shard}"

lemma set_select_rows:
  "set (select_rows table f) = {t \<in> shard_tasks table (tf_ShardID f).
     tf_InclusiveMinTaskID f \<le> task_TaskID t \<and> task_TaskID t < tf_ExclusiveMaxTaskID f}"
  by (auto simp: select_rows_def shard_tasks_def)

lemma sorted_select_rows: "sorted (map task_TaskID (select_rows table f))"
  by (simp add: select_rows_def)

text \<open>The primary key of the tables is the shard and the task ID.\<close>

definition table_wf :: "task_row list \<Rightarrow> bool" where
  "table_wf table \<longleftrightarrow> distinct (map (\<lambda>r. (row_ShardID r, task_TaskID (row_Task r))) table)"

lemma distinct_select_rows:
  assumes "table_wf table"
  shows "distinct (map task_TaskID (select_rows table f))"
proof -
  let ?P = "\<lambda>r. row_ShardID r = tf_ShardID f \<and>
          tf_InclusiveMinTaskID f \<le> task_TaskID (row_Task r) \<and>
          task_TaskID (row_Task r) < tf_ExclusiveMaxTaskID f"
  have "distinct (map (\<lambda>r. task_TaskID (row_Task r)) (filter ?P table))"
    using assms by (fastforce simp: table_wf_def distinct_map inj_on_def)
  then show ?thesis
    by (auto simp: select_rows_def distinct_map comp_def inj_on_def)
qed

text \<open>
  A page of a sorted list of rows: every row up to the last one of the page is in the page, and
  when the page is short nothing is left.
\<close>

lemma take_sorted_page:
  fixes f :: "'a \<Rightarrow> int"
  assumes "sorted (map f xs)" "distinct (map f xs)" "take n xs \<noteq> []" "x \<in> set xs"
  shows "x \<in> set (take n xs) \<longleftrightarrow> f x \<le> f (last (take n xs))"
proof -
  have app: "xs = take n xs @ drop n xs" by simp
  have lastin: "last (take n xs) \<in> set (take n xs)" using assms by (intro last_in_set)
  have srt: "sorted (map f (take n xs))" using assms by (metis sorted_wrt_take take_map)
  have le: "f y \<le> f (last (take n xs))" if "y \<in> set (take n xs)" for y
  proof -
    obtain ys where ys: "take n xs = ys @ [last (take n xs)]"
      using assms by (metis append_butlast_last_id)
    then have "y \<in> set ys \<or> y = last (take n xs)" using that
      by (metis Un_iff empty_iff empty_set insert_iff list.simps(15) set_append)
    moreover have "sorted (map f (ys @ [last (take n xs)]))" using srt ys by simp
    ultimately show ?thesis by (auto simp: sorted_append)
  qed
  have gt: "f (last (take n xs)) < f y" if "y \<in> set (drop n xs)" for y
  proof -
    have "sorted (map f (take n xs @ drop n xs))" "distinct (map f (take n xs @ drop n xs))"
      using assms by simp_all
    then have "f (last (take n xs)) \<le> f y" "f (last (take n xs)) \<noteq> f y"
      using that lastin unfolding map_append sorted_append distinct_append by force+
    then show ?thesis by simp
  qed
  show ?thesis
  proof
    assume "f x \<le> f (last (take n xs))"
    then have "x \<notin> set (drop n xs)" using gt by force
    then show "x \<in> set (take n xs)"
      using assms(4) app by (metis Un_iff set_append)
  qed (rule le)
qed

text \<open>A page of at most \<open>n\<close> rows that is not full holds every row.\<close>

lemma take_empty_page: "take n xs = [] \<Longrightarrow> 0 < n \<Longrightarrow> xs = []"
  by (cases xs) auto

text \<open>What the calls return when they return.\<close>

lemma db_result_Inr [simp]: "db_result err r = Inr x \<longleftrightarrow> err = None \<and> r = Inr x"
  by (simp add: db_result_def split: option.splits)

lemma db_result_None [simp]: "db_result None r = r"
  by (simp add: db_result_def)

lemma deserialize_rows_Inr: "deserialize_rows db rows = Inr tasks \<Longrightarrow> tasks = rows"
  by (induction rows arbitrary: tasks) (auto simp: rbind_def split: sum.splits)

lemma deserialize_rows_None:
  "\<forall>t \<in> set rows. decode_error db t = None \<Longrightarrow> deserialize_rows db rows = Ok rows"
  by (induction rows) auto

text \<open>The database answers every query, or carries out every deletion.\<close>

definition db_reads :: "sql_db \<Rightarrow> bool" where
  "db_reads db \<longleftrightarrow> (\<forall>f. select_error db f = None) \<and> (\<forall>t. decode_error db t = None)"

definition db_deletes :: "sql_db \<Rightarrow> bool" where
  "db_deletes db \<longleftrightarrow> (\<forall>rows f. delete_error db rows f = None)"

text \<open>Deleting a range removes rows of the range only.\<close>

lemma RangeDeleteFromTransferTasks_keeps:
  assumes "RangeDeleteFromTransferTasks db f = Inr (db', n)"
    and "t \<in> shard_tasks (transfer_tasks db) shard"
    and "shard \<noteq> tf_ShardID f \<or> task_TaskID t < tf_InclusiveMinTaskID f \<or>
      tf_ExclusiveMaxTaskID f \<le> task_TaskID t"
  shows "t \<in> shard_tasks (transfer_tasks db') shard"
proof -
  have "t \<notin> set (select_rows (transfer_tasks db) f) \<or> shard \<noteq> tf_ShardID f"
    using assms(3) by (auto simp: set_select_rows)
  then have "\<not> (shard = tf_ShardID f \<and> t \<in> set (take m (select_rows (transfer_tasks db) f)))" for m
    by (auto dest: in_set_takeD)
  then show ?thesis
    using assms(1,2) \<open>t \<notin> set (select_rows (transfer_tasks db) f) \<or> shard \<noteq> tf_ShardID f\<close>
    by (auto simp: RangeDeleteFromTransferTasks_def Let_def delete_rows_def shard_tasks_def
        split: if_splits)
qed

end
