(* ===== verification/Queue_Reader.thy ===== *)
theory Queue_Reader
  imports Task_Store
begin

text \<open>
  The queue reader (\<open>service/history/queuev2/queue_reader.go\<close>): reading the tasks of a
  range page by page. The store it reads from is an argument.

  \<open>queue_reader\<close> is the contract of the Go interface \<open>QueueReader\<close> as the virtual slices
  use it: a page holds exactly the tasks of the store that match the predicate between the read
  position and the new one. It is proved of \<open>simpleQueueReader\<close> on the SQL store.
\<close>

record get_task_progress = task_range +
  NextPageToken :: go_bytes
  NextTaskKey :: htask_key

record GetTaskRequest =
  req_Progress :: get_task_progress
  req_Predicate :: predicate
  req_PageSize :: int

record GetTaskResponse =
  resp_Tasks :: "ptask list"
  resp_Progress :: get_task_progress

definition simpleQueueReader_GetTask ::
  "(GetHistoryTasksRequest \<Rightarrow> GetHistoryTasksResponse result) \<Rightarrow> int \<Rightarrow> task_category \<Rightarrow>
   GetTaskRequest \<Rightarrow> GetTaskResponse result" where
  "simpleQueueReader_GetTask getHistoryTasks shard category req =
     rbind (getHistoryTasks
       \<lparr>gh_ShardID = Some shard, gh_TaskCategory = category,
        gh_InclusiveMinTaskKey = InclusiveMinTaskKey (req_Progress req),
        gh_ExclusiveMaxTaskKey = ExclusiveMaxTaskKey (req_Progress req),
        gh_PageSize = req_PageSize req,
        gh_NextPageToken = NextPageToken (req_Progress req)\<rparr>) (\<lambda>resp.
     let tasks = filter (Check (req_Predicate req)) (gr_Tasks resp);
         nextTaskKey =
           (if blen (gr_NextPageToken resp) \<noteq> 0 \<and> length (gr_Tasks resp) > 0
            then Next (GetTaskKey (last (gr_Tasks resp)))
            else ExclusiveMaxTaskKey (req_Progress req))
     in Ok \<lparr>resp_Tasks = tasks,
            resp_Progress =
              \<lparr>InclusiveMinTaskKey = InclusiveMinTaskKey (req_Progress req),
               ExclusiveMaxTaskKey = ExclusiveMaxTaskKey (req_Progress req),
               NextPageToken = gr_NextPageToken resp,
               NextTaskKey = nextTaskKey\<rparr>\<rparr>)"

record LookAHeadResponse =
  la_Task :: "ptask option"
  la_LookAheadMaxTime :: int

text \<open>The jittered poll interval is drawn at random; it is the argument \<open>jit\<close>.\<close>

definition simpleQueueReader_LookAHead ::
  "(GetHistoryTasksRequest \<Rightarrow> GetHistoryTasksResponse result) \<Rightarrow> int \<Rightarrow> task_category \<Rightarrow>
   int \<Rightarrow> htask_key \<Rightarrow> LookAHeadResponse result" where
  "simpleQueueReader_LookAHead getHistoryTasks shard category jit inclusiveMinTaskKey =
     (let maxTime = scheduledTime inclusiveMinTaskKey + jit in
      rbind (getHistoryTasks
        \<lparr>gh_ShardID = Some shard, gh_TaskCategory = category,
         gh_InclusiveMinTaskKey = inclusiveMinTaskKey,
         gh_ExclusiveMaxTaskKey = NewHistoryTaskKey maxTime 0,
         gh_PageSize = 1, gh_NextPageToken = None\<rparr>) (\<lambda>resp.
      Ok \<lparr>la_Task = (if length (gr_Tasks resp) > 0 then Some (hd (gr_Tasks resp)) else None),
          la_LookAheadMaxTime = maxTime\<rparr>))"

section \<open>The contract of a reader\<close>

definition progress_wf :: "get_task_progress \<Rightarrow> bool" where
  "progress_wf pr \<longleftrightarrow>
     InclusiveMinTaskKey pr \<le> NextTaskKey pr \<and> NextTaskKey pr \<le> ExclusiveMaxTaskKey pr"

text \<open>The answer \<open>r\<close> is a page of the tasks \<open>st\<close> for the request \<open>req\<close>.\<close>

definition reads_page :: "ptask set \<Rightarrow> GetTaskRequest \<Rightarrow> GetTaskResponse \<Rightarrow> bool" where
  "reads_page st req r \<longleftrightarrow>
     (let pr = req_Progress req; pr' = resp_Progress r in
      InclusiveMinTaskKey pr \<le> InclusiveMinTaskKey pr' \<and> InclusiveMinTaskKey pr' \<le> NextTaskKey pr' \<and>
      ExclusiveMaxTaskKey pr' = ExclusiveMaxTaskKey pr \<and>
      NextTaskKey pr \<le> NextTaskKey pr' \<and> NextTaskKey pr' \<le> ExclusiveMaxTaskKey pr \<and>
      set (resp_Tasks r) = {t \<in> st. NextTaskKey pr \<le> GetTaskKey t \<and> GetTaskKey t < NextTaskKey pr' \<and>
        Check (req_Predicate req) t} \<and>
      int (length (resp_Tasks r)) \<le> req_PageSize req \<and>
      sorted_wrt (<) (map GetTaskKey (resp_Tasks r)) \<and>
      (NextTaskKey pr' < ExclusiveMaxTaskKey pr \<longrightarrow>
        (\<exists>t \<in> st. NextTaskKey pr \<le> GetTaskKey t \<and> GetTaskKey t < NextTaskKey pr')))"

locale queue_reader =
  fixes get_task :: "'d \<Rightarrow> GetTaskRequest \<Rightarrow> GetTaskResponse result"
    and stored :: "'d \<Rightarrow> ptask set"
    and store_ok :: "'d \<Rightarrow> bool"
    and key_ok :: "htask_key \<Rightarrow> bool"
    and pos_ok :: "get_task_progress \<Rightarrow> bool"
  assumes finite_stored: "finite (stored d)"
    and inj_key: "store_ok d \<Longrightarrow> inj_on GetTaskKey (stored d)"
    and key_ok_stored: "store_ok d \<Longrightarrow> t \<in> stored d \<Longrightarrow> key_ok (GetTaskKey t)"
    and key_ok_max: "key_ok k \<Longrightarrow> k \<le> MaximumHistoryTaskKey"
    and pos_ok_keys: "pos_ok pr \<Longrightarrow>
      key_ok (InclusiveMinTaskKey pr) \<and> key_ok (ExclusiveMaxTaskKey pr) \<and> key_ok (NextTaskKey pr)"
    and pos_ok_fresh: "key_ok (InclusiveMinTaskKey pr) \<Longrightarrow> key_ok (ExclusiveMaxTaskKey pr) \<Longrightarrow>
      NextPageToken pr = None \<Longrightarrow> NextTaskKey pr = InclusiveMinTaskKey pr \<Longrightarrow> pos_ok pr"
    and read_page: "store_ok d \<Longrightarrow> progress_wf (req_Progress req) \<Longrightarrow> pos_ok (req_Progress req) \<Longrightarrow>
      0 < req_PageSize req \<Longrightarrow> get_task d req = Inr r \<Longrightarrow> reads_page (stored d) req r"
    and read_pos: "store_ok d \<Longrightarrow> progress_wf (req_Progress req) \<Longrightarrow> pos_ok (req_Progress req) \<Longrightarrow>
      0 < req_PageSize req \<Longrightarrow> get_task d req = Inr r \<Longrightarrow>
      NextTaskKey (resp_Progress r) < ExclusiveMaxTaskKey (req_Progress req) \<Longrightarrow>
      pos_ok (resp_Progress r)"
begin

lemma progress_wf_read:
  "store_ok d \<Longrightarrow> progress_wf (req_Progress req) \<Longrightarrow> pos_ok (req_Progress req) \<Longrightarrow>
   0 < req_PageSize req \<Longrightarrow> get_task d req = Inr r \<Longrightarrow> progress_wf (resp_Progress r)"
  by (drule (4) read_page) (auto simp: reads_page_def Let_def progress_wf_def)

text \<open>
  Reading on from the position a page ends at never returns a task of that page again, and
  leaves none out between them.
\<close>

lemma consecutive_pages:
  assumes "store_ok d" "progress_wf (req_Progress req)" "pos_ok (req_Progress req)"
    "0 < req_PageSize req" "get_task d req = Inr r"
    "NextTaskKey (resp_Progress r) < ExclusiveMaxTaskKey (req_Progress req)"
    "req' = \<lparr>req_Progress = resp_Progress r, req_Predicate = req_Predicate req, req_PageSize = n\<rparr>"
    "0 < n" "get_task d req' = Inr r'"
  shows "set (resp_Tasks r) \<inter> set (resp_Tasks r') = {}"
    and "set (resp_Tasks r) \<union> set (resp_Tasks r') =
      {t \<in> stored d. NextTaskKey (req_Progress req) \<le> GetTaskKey t \<and>
        GetTaskKey t < NextTaskKey (resp_Progress r') \<and> Check (req_Predicate req) t}"
proof -
  note r = read_page [OF assms(1-5)] and wf = progress_wf_read [OF assms(1-5)]
    and pos = read_pos [OF assms(1-6)]
  have r': "reads_page (stored d) req' r'"
    using assms wf pos by (intro read_page) simp_all
  show "set (resp_Tasks r) \<inter> set (resp_Tasks r') = {}"
    using r r' assms(7) by (auto simp: reads_page_def Let_def)
  show "set (resp_Tasks r) \<union> set (resp_Tasks r') =
      {t \<in> stored d. NextTaskKey (req_Progress req) \<le> GetTaskKey t \<and>
        GetTaskKey t < NextTaskKey (resp_Progress r') \<and> Check (req_Predicate req) t}"
    using r r' assms(7) by (force simp: reads_page_def Let_def)
qed

end

section \<open>The simple reader on the SQL store\<close>

definition immediate_key :: "htask_key \<Rightarrow> bool" where
  "immediate_key k \<longleftrightarrow> scheduledTime k = 0 \<and> 0 \<le> taskID k \<and> taskID k \<le> MaxInt64"

definition sql_pos_ok :: "get_task_progress \<Rightarrow> bool" where
  "sql_pos_ok pr \<longleftrightarrow>
     immediate_key (InclusiveMinTaskKey pr) \<and> immediate_key (ExclusiveMaxTaskKey pr) \<and>
     immediate_key (NextTaskKey pr) \<and>
     (if blen (NextPageToken pr) = 0 then NextTaskKey pr = InclusiveMinTaskKey pr
      else deserializePageToken (NextPageToken pr) = Ok (taskID (NextTaskKey pr)))"

text \<open>The rows of a shard are transfer tasks with distinct, non-negative task IDs.\<close>

definition sql_store_ok :: "sql_db \<times> int \<Rightarrow> bool" where
  "sql_store_ok d \<longleftrightarrow> table_wf (transfer_tasks (fst d)) \<and>
     (\<forall>t \<in> shard_tasks (transfer_tasks (fst d)) (snd d).
        GetTaskCategory t = HistoryTaskCategoryTransfer \<and> 0 \<le> task_TaskID t \<and>
        task_TaskID t \<le> MaxInt64)"

definition sql_get_task ::
  "(GetHistoryTasksRequest \<Rightarrow> int \<Rightarrow> GetHistoryTasksResponse result) \<Rightarrow>
   sql_db \<times> int \<Rightarrow> GetTaskRequest \<Rightarrow> GetTaskResponse result" where
  "sql_get_task gs d req =
     simpleQueueReader_GetTask (GetHistoryTasks gs (fst d)) (snd d) HistoryTaskCategoryTransfer req"

lemma immediate_key_less:
  "immediate_key a \<Longrightarrow> immediate_key b \<Longrightarrow> a < b \<longleftrightarrow> taskID a < taskID b"
  "immediate_key a \<Longrightarrow> immediate_key b \<Longrightarrow> a \<le> b \<longleftrightarrow> taskID a \<le> taskID b"
  by (auto simp: immediate_key_def less_htask_key_def less_eq_htask_key_def)

lemma immediate_GetTaskKey:
  "GetTaskCategory t = HistoryTaskCategoryTransfer \<Longrightarrow> 0 \<le> task_TaskID t \<Longrightarrow>
   task_TaskID t \<le> MaxInt64 \<Longrightarrow> immediate_key (GetTaskKey t)"
  by (simp add: immediate_key_def scheduledTime_GetTaskKey)

lemma sql_stored_key: "sql_store_ok d \<Longrightarrow> t \<in> shard_tasks (transfer_tasks (fst d)) (snd d) \<Longrightarrow>
   immediate_key (GetTaskKey t)"
  by (auto simp: sql_store_ok_def intro: immediate_GetTaskKey)

text \<open>The rows behind a request at the read position \<open>NextTaskKey\<close>.\<close>

definition sql_rows :: "sql_db \<times> int \<Rightarrow> get_task_progress \<Rightarrow> ptask list" where
  "sql_rows d pr = select_rows (transfer_tasks (fst d))
     \<lparr>tf_ShardID = snd d, tf_InclusiveMinTaskID = taskID (NextTaskKey pr),
      tf_ExclusiveMaxTaskID = taskID (ExclusiveMaxTaskKey pr), tf_PageSize = 0\<rparr>"

text \<open>The page of a request and the read position after it.\<close>

definition sql_page :: "sql_db \<times> int \<Rightarrow> get_task_progress \<Rightarrow> int \<Rightarrow> ptask list" where
  "sql_page d pr n = take (nat n) (sql_rows d pr)"

definition sql_more :: "sql_db \<times> int \<Rightarrow> get_task_progress \<Rightarrow> int \<Rightarrow> bool" where
  "sql_more d pr n \<longleftrightarrow> sql_page d pr n \<noteq> [] \<and>
     wrap64 (task_TaskID (last (sql_page d pr n)) + 1) < taskID (ExclusiveMaxTaskKey pr)"

definition sql_next :: "sql_db \<times> int \<Rightarrow> get_task_progress \<Rightarrow> int \<Rightarrow> htask_key" where
  "sql_next d pr n = (if sql_more d pr n then Next (GetTaskKey (last (sql_page d pr n)))
     else ExclusiveMaxTaskKey pr)"

lemma set_sql_rows:
  assumes "sql_store_ok d" "sql_pos_ok pr"
  shows "set (sql_rows d pr) = {t \<in> shard_tasks (transfer_tasks (fst d)) (snd d).
    NextTaskKey pr \<le> GetTaskKey t \<and> GetTaskKey t < ExclusiveMaxTaskKey pr}"
  using assms sql_stored_key [OF assms(1)]
  by (auto simp: sql_rows_def set_select_rows sql_pos_ok_def immediate_key_less)

text \<open>The answer to a request when the database answers.\<close>

definition sql_answer :: "sql_db \<times> int \<Rightarrow> GetTaskRequest \<Rightarrow> GetTaskResponse" where
  "sql_answer d req =
     (let pr = req_Progress req; n = req_PageSize req in
      \<lparr>resp_Tasks = filter (Check (req_Predicate req)) (sql_page d pr n),
       resp_Progress = pr\<lparr>
         NextPageToken := (if sql_more d pr n
           then serializePageToken (wrap64 (task_TaskID (last (sql_page d pr n)) + 1)) else None),
         NextTaskKey := sql_next d pr n\<rparr>\<rparr>)"

lemma sql_get_task_cases:
  assumes "sql_pos_ok (req_Progress req)" "0 < req_PageSize req"
  shows "sql_get_task gs d req = Inr r \<Longrightarrow> r = sql_answer d req"
    and "db_reads (fst d) \<Longrightarrow> sql_get_task gs d req = Inr (sql_answer d req)"
proof -
  let ?pr = "req_Progress req"
  let ?gh = "\<lparr>gh_ShardID = Some (snd d), gh_TaskCategory = HistoryTaskCategoryTransfer,
        gh_InclusiveMinTaskKey = InclusiveMinTaskKey ?pr,
        gh_ExclusiveMaxTaskKey = ExclusiveMaxTaskKey ?pr,
        gh_PageSize = req_PageSize req, gh_NextPageToken = NextPageToken ?pr\<rparr>"
  let ?f = "\<lparr>tf_ShardID = snd d, tf_InclusiveMinTaskID = taskID (NextTaskKey ?pr),
      tf_ExclusiveMaxTaskID = taskID (ExclusiveMaxTaskKey ?pr), tf_PageSize = req_PageSize req\<rparr>"
  have "token_offset ?gh = Ok (taskID (NextTaskKey ?pr))"
    using assms(1) by (auto simp: token_offset_def sql_pos_ok_def split: if_splits)
  then have get: "GetHistoryTasks gs (fst d) ?gh =
      rbind (db_result (select_error (fst d) ?f) (Ok (sql_page d ?pr (req_PageSize req)))) (\<lambda>rows.
      rbind (deserialize_rows (fst d) rows) (\<lambda>tasks. Ok (immediate_response ?gh tasks)))"
    using assms(2)
    by (simp add: GetHistoryTasks_def effectiveShardID_def resolveShardID_def
        getImmediateHistoryTasks_def SelectFromTransferTasks_def sql_limit_def sql_rows_def
        select_rows_def sql_page_def)
  have ans: "simpleQueueReader_GetTask (\<lambda>_. Ok (immediate_response ?gh (sql_page d ?pr (req_PageSize req))))
      (snd d) HistoryTaskCategoryTransfer req = Ok (sql_answer d req)"
    by (simp add: simpleQueueReader_GetTask_def immediate_response_def Let_def sql_more_def sql_next_def
        sql_answer_def)
  show "r = sql_answer d req" if "sql_get_task gs d req = Inr r"
  proof -
    have "GetHistoryTasks gs (fst d) ?gh = Ok (immediate_response ?gh (sql_page d ?pr (req_PageSize req)))"
      using that unfolding sql_get_task_def simpleQueueReader_GetTask_def get
      by (auto simp: rbind_def dest: deserialize_rows_Inr split: sum.splits)
    then show ?thesis
      using that ans by (simp add: sql_get_task_def simpleQueueReader_GetTask_def)
  qed
  show "sql_get_task gs d req = Inr (sql_answer d req)" if "db_reads (fst d)"
    using that ans unfolding sql_get_task_def simpleQueueReader_GetTask_def get
    by (simp add: db_reads_def deserialize_rows_None)
qed

lemma sql_page_rows: "t \<in> set (sql_page d pr n) \<Longrightarrow> t \<in> set (sql_rows d pr)"
  by (auto simp: sql_page_def dest: in_set_takeD)

lemma sql_key_eq:
  assumes "sql_store_ok d" "sql_pos_ok pr" "t \<in> set (sql_rows d pr)"
  shows "GetTaskKey t = HistoryTaskKey 0 (task_TaskID t)" "immediate_key (GetTaskKey t)"
    "task_TaskID t < taskID (ExclusiveMaxTaskKey pr)" "NextTaskKey pr \<le> GetTaskKey t"
proof -
  show ik: "immediate_key (GetTaskKey t)" and "NextTaskKey pr \<le> GetTaskKey t"
    using assms set_sql_rows [OF assms(1,2)] sql_stored_key [OF assms(1)] by auto
  then show "GetTaskKey t = HistoryTaskKey 0 (task_TaskID t)"
    by (metis htask_key.collapse immediate_key_def taskID_GetTaskKey)
  show "task_TaskID t < taskID (ExclusiveMaxTaskKey pr)"
    using assms by (simp add: sql_rows_def set_select_rows)
qed

lemma sql_last:
  assumes "sql_store_ok d" "sql_pos_ok pr" "sql_page d pr n \<noteq> []"
  defines "l \<equiv> last (sql_page d pr n)"
  shows "l \<in> set (sql_rows d pr)" "wrap64 (task_TaskID l + 1) = task_TaskID l + 1"
    "Next (GetTaskKey l) = HistoryTaskKey 0 (task_TaskID l + 1)"
    "int64 (task_TaskID l + 1)"
proof -
  show l: "l \<in> set (sql_rows d pr)"
    unfolding l_def by (rule sql_page_rows [OF last_in_set [OF assms(3)]])
  have "taskID (ExclusiveMaxTaskKey pr) \<le> MaxInt64"
    using assms(2) by (simp add: sql_pos_ok_def immediate_key_def)
  then show i: "int64 (task_TaskID l + 1)"
    using sql_key_eq [OF assms(1,2) l] by (auto simp: int64_def immediate_key_def MinInt64_def)
  then show "wrap64 (task_TaskID l + 1) = task_TaskID l + 1"
    by (rule wrap64_id)
  then show "Next (GetTaskKey l) = HistoryTaskKey 0 (task_TaskID l + 1)"
    using sql_key_eq(1) [OF assms(1,2) l] i by (auto simp: Next_def int64_def)
qed

lemma sql_page_below:
  assumes "sql_store_ok d" "sql_pos_ok pr" "0 < n" "t \<in> set (sql_rows d pr)"
  shows "t \<in> set (sql_page d pr n) \<longleftrightarrow> GetTaskKey t < sql_next d pr n"
proof -
  have ne: "sql_page d pr n \<noteq> []"
    using assms(3,4) take_empty_page [of "nat n" "sql_rows d pr"] by (auto simp: sql_page_def)
  have srt: "sorted (map task_TaskID (sql_rows d pr))" "distinct (map task_TaskID (sql_rows d pr))"
    using assms(1)
    by (simp_all add: sql_rows_def sorted_select_rows distinct_select_rows sql_store_ok_def)
  have "t \<in> set (sql_page d pr n) \<longleftrightarrow> task_TaskID t \<le> task_TaskID (last (sql_page d pr n))"
    using take_sorted_page [OF srt _ assms(4)] ne by (simp add: sql_page_def)
  moreover have "immediate_key (ExclusiveMaxTaskKey pr)"
    using assms(2) by (simp add: sql_pos_ok_def)
  ultimately show ?thesis
    using sql_key_eq [OF assms(1,2,4)] sql_last [OF assms(1,2) ne] ne
    by (auto simp: sql_next_def sql_more_def less_htask_key_def immediate_key_def)
qed

lemma sql_next_bounds:
  assumes "sql_store_ok d" "sql_pos_ok pr" "progress_wf pr"
  shows "NextTaskKey pr \<le> sql_next d pr n" "sql_next d pr n \<le> ExclusiveMaxTaskKey pr"
    "sql_more d pr n \<Longrightarrow> immediate_key (sql_next d pr n)"
proof -
  have hi: "immediate_key (ExclusiveMaxTaskKey pr)"
    using assms(2) by (simp add: sql_pos_ok_def)
  have *: "NextTaskKey pr \<le> sql_next d pr n \<and> sql_next d pr n \<le> ExclusiveMaxTaskKey pr \<and>
      immediate_key (sql_next d pr n)" if m: "sql_more d pr n"
  proof -
    have ne: "sql_page d pr n \<noteq> []" using m by (simp add: sql_more_def)
    note l = sql_last [OF assms(1,2) ne] and k = sql_key_eq [OF assms(1,2) sql_last(1) [OF assms(1,2) ne]]
    have "sql_next d pr n = HistoryTaskKey 0 (task_TaskID (last (sql_page d pr n)) + 1)"
      using m l by (simp add: sql_next_def)
    then show ?thesis
      using m l k hi by (auto simp: sql_more_def immediate_key_def less_eq_htask_key_def)
  qed
  show "NextTaskKey pr \<le> sql_next d pr n" "sql_next d pr n \<le> ExclusiveMaxTaskKey pr"
    using * assms(3) by (cases "sql_more d pr n"; simp add: sql_next_def progress_wf_def)+
  show "immediate_key (sql_next d pr n)" if "sql_more d pr n"
    using * that by simp
qed

lemma sql_page_sorted:
  assumes "sql_store_ok d" "sql_pos_ok pr"
  shows "sorted_wrt (<) (map GetTaskKey (sql_page d pr n))"
proof -
  have "sorted_wrt (<) (map task_TaskID (sql_rows d pr))"
    using assms(1)
    by (simp add: sql_rows_def sorted_select_rows distinct_select_rows sql_store_ok_def strict_sorted_iff)
  then have "sorted_wrt (\<lambda>a b. task_TaskID a < task_TaskID b) (sql_page d pr n)"
    by (simp add: sql_page_def sorted_wrt_take sorted_wrt_map)
  then show ?thesis
    unfolding sorted_wrt_map
    by (rule sorted_wrt_mono_rel [rotated])
      (use sql_page_rows sql_key_eq(1) [OF assms] in \<open>simp add: less_htask_key_def\<close>)
qed

lemma sql_read_page:
  assumes ok: "sql_store_ok d" and wf: "progress_wf (req_Progress req)"
    and pos: "sql_pos_ok (req_Progress req)" and n: "0 < req_PageSize req"
    and r: "sql_get_task gs d req = Inr r"
  shows "reads_page (shard_tasks (transfer_tasks (fst d)) (snd d)) req r"
proof -
  let ?pr = "req_Progress req" and ?n = "req_PageSize req"
  let ?st = "shard_tasks (transfer_tasks (fst d)) (snd d)"
  note nb = sql_next_bounds [OF ok pos wf, of ?n] and rows = set_sql_rows [OF ok pos]
  have pg: "set (sql_page d ?pr ?n) =
      {t \<in> ?st. NextTaskKey ?pr \<le> GetTaskKey t \<and> GetTaskKey t < sql_next d ?pr ?n}"
  proof (intro set_eqI iffI)
    fix t assume t: "t \<in> set (sql_page d ?pr ?n)"
    then have "t \<in> set (sql_rows d ?pr)" by (rule sql_page_rows)
    then show "t \<in> {t \<in> ?st. NextTaskKey ?pr \<le> GetTaskKey t \<and> GetTaskKey t < sql_next d ?pr ?n}"
      using t sql_page_below [OF ok pos n] unfolding rows by simp
  next
    fix t assume t: "t \<in> {t \<in> ?st. NextTaskKey ?pr \<le> GetTaskKey t \<and> GetTaskKey t < sql_next d ?pr ?n}"
    then have "t \<in> set (sql_rows d ?pr)" unfolding rows using nb(2) by auto
    then show "t \<in> set (sql_page d ?pr ?n)"
      using t sql_page_below [OF ok pos n] by simp
  qed
  have more: "\<exists>t \<in> ?st. NextTaskKey ?pr \<le> GetTaskKey t \<and> GetTaskKey t < sql_next d ?pr ?n"
    if "sql_next d ?pr ?n < ExclusiveMaxTaskKey ?pr"
  proof -
    have "sql_page d ?pr ?n \<noteq> []" using that by (auto simp: sql_next_def sql_more_def split: if_splits)
    then show ?thesis using pg last_in_set by blast
  qed
  have len: "int (length (filter P (sql_page d ?pr ?n))) \<le> ?n" for P
  proof -
    have "length (filter P (sql_page d ?pr ?n)) \<le> nat ?n"
      by (rule order_trans [OF length_filter_le]) (simp add: sql_page_def)
    then show ?thesis using n by linarith
  qed
  have srt: "sorted_wrt (<) (map GetTaskKey (filter P (sql_page d ?pr ?n)))" for P
    using sql_page_sorted [OF ok pos] by (simp add: sorted_wrt_map sorted_wrt_filter)
  have flt: "set (filter P (sql_page d ?pr ?n)) =
      {t \<in> ?st. NextTaskKey ?pr \<le> GetTaskKey t \<and> GetTaskKey t < sql_next d ?pr ?n \<and> P t}" for P
    unfolding set_filter pg by blast
  have rt: "resp_Tasks r = filter (Check (req_Predicate req)) (sql_page d ?pr ?n)"
    "InclusiveMinTaskKey (resp_Progress r) = InclusiveMinTaskKey ?pr"
    "ExclusiveMaxTaskKey (resp_Progress r) = ExclusiveMaxTaskKey ?pr"
    "NextTaskKey (resp_Progress r) = sql_next d ?pr ?n"
    by (simp_all add: sql_get_task_cases(1) [OF pos n r] sql_answer_def Let_def)
  show ?thesis
    unfolding reads_page_def Let_def rt flt
    using nb(1,2) len srt more wf order_trans [OF _ nb(1)] by (simp add: progress_wf_def)
qed

lemma sql_read_pos:
  assumes ok: "sql_store_ok d" and wf: "progress_wf (req_Progress req)"
    and pos: "sql_pos_ok (req_Progress req)" and n: "0 < req_PageSize req"
    and r: "sql_get_task gs d req = Inr r"
    and lt: "NextTaskKey (resp_Progress r) < ExclusiveMaxTaskKey (req_Progress req)"
  shows "sql_pos_ok (resp_Progress r)"
proof -
  let ?pr = "req_Progress req" and ?n = "req_PageSize req"
  have m: "sql_more d ?pr ?n"
    using lt unfolding sql_get_task_cases(1) [OF pos n r]
    by (auto simp: sql_answer_def Let_def sql_next_def split: if_splits)
  then have ne: "sql_page d ?pr ?n \<noteq> []" by (simp add: sql_more_def)
  show ?thesis
    using pos m sql_next_bounds(3) [OF ok pos wf m] sql_last [OF ok pos ne]
    unfolding sql_get_task_cases(1) [OF pos n r]
    by (auto simp: sql_answer_def Let_def sql_pos_ok_def token_roundtrip) (simp add: sql_next_def)
qed

interpretation sql_reader: queue_reader "sql_get_task gs"
  "\<lambda>d. shard_tasks (transfer_tasks (fst d)) (snd d)" sql_store_ok immediate_key sql_pos_ok
proof unfold_locales
  fix d :: "sql_db \<times> int"
  show "finite (shard_tasks (transfer_tasks (fst d)) (snd d))"
    by (simp add: shard_tasks_def)
  assume ok: "sql_store_ok d"
  show "inj_on GetTaskKey (shard_tasks (transfer_tasks (fst d)) (snd d))"
  proof (rule inj_onI)
    fix s t
    assume "s \<in> shard_tasks (transfer_tasks (fst d)) (snd d)"
      "t \<in> shard_tasks (transfer_tasks (fst d)) (snd d)" "GetTaskKey s = GetTaskKey t"
    then show "s = t"
      using ok taskID_GetTaskKey [of s] taskID_GetTaskKey [of t]
      by (auto simp: sql_store_ok_def table_wf_def shard_tasks_def distinct_map inj_on_def)
  qed
next
  show "k \<le> MaximumHistoryTaskKey" if "immediate_key k" for k
    using that by (simp add: immediate_key_def MaximumHistoryTaskKey_def less_eq_htask_key_def MaxInt64_def)
qed ((erule (1) sql_stored_key | erule (4) sql_read_page | erule (5) sql_read_pos |
      simp add: sql_pos_ok_def)+)

end
