(* ===== verification/Mem_Queue.thy ===== *)
theory Mem_Queue
  imports Queue_Reader
begin

text \<open>
  The sorted in-memory store of tasks (\<open>service/history/queuev2/queue_mem.go\<close>), with the binary
  search of the Go library it uses. Each operation is shown to compute what a filter of the sorted
  list does.
\<close>

section \<open>Binary search\<close>

text \<open>\<open>sort.Search\<close> finds the least index in \<open>[0, n)\<close> at which a monotone predicate holds.\<close>

function sort_Search_loop :: "(nat \<Rightarrow> bool) \<Rightarrow> nat \<Rightarrow> nat \<Rightarrow> nat" where
  "sort_Search_loop f i j =
     (if i < j then
        let h = (i + j) div 2 in
        if \<not> f h then sort_Search_loop f (h + 1) j else sort_Search_loop f i h
      else i)"
  by pat_completeness auto
termination
  by (relation "measure (\<lambda>(f, i, j). j - i)") auto

declare sort_Search_loop.simps [simp del]

definition sort_Search :: "nat \<Rightarrow> (nat \<Rightarrow> bool) \<Rightarrow> nat" where
  "sort_Search n f = sort_Search_loop f 0 n"

lemma sort_Search_loop_unique:
  assumes "i \<le> r" "r \<le> j" "\<forall>k < j. f k \<longleftrightarrow> r \<le> k"
  shows "sort_Search_loop f i j = r"
  using assms
proof (induction f i j rule: sort_Search_loop.induct)
  case (1 f i j)
  show ?case
  proof (cases "i < j")
    case True
    define h where "h = (i + j) div 2"
    have h: "i \<le> h" "h < j" using True by (auto simp: h_def)
    then show ?thesis
      using 1 True by (subst sort_Search_loop.simps) (cases "r \<le> h"; simp add: Let_def h_def [symmetric])
  next
    case False
    then show ?thesis using "1.prems" by (subst sort_Search_loop.simps) simp
  qed
qed

section \<open>The queue\<close>

type_synonym mem_queue = "ptask list"

definition newInMemQueue :: mem_queue where
  "newInMemQueue = []"

definition findTaskPosition :: "htask_key \<Rightarrow> mem_queue \<Rightarrow> nat" where
  "findTaskPosition taskKey q =
     sort_Search (length q) (\<lambda>i. Compare (GetTaskKey (q ! i)) taskKey \<ge> 0)"

definition putTask :: "ptask \<Rightarrow> mem_queue \<Rightarrow> mem_queue" where
  "putTask task q =
     (let key = GetTaskKey task; n = length q in
      if n = 0 \<or> Compare (GetTaskKey (q ! (n - 1))) key < 0 then q @ [task]
      else
        let pos = findTaskPosition key q in
        if pos < n \<and> Compare (GetTaskKey (q ! pos)) key = 0 then q
        else take pos q @ task # drop pos q)"

definition PutTasks :: "ptask list \<Rightarrow> mem_queue \<Rightarrow> mem_queue" where
  "PutTasks tasks q = fold putTask tasks q"

definition mq_LookAHead :: "htask_key \<Rightarrow> mem_queue \<Rightarrow> ptask option" where
  "mq_LookAHead minTaskKey q =
     (let pos = findTaskPosition minTaskKey q in if pos \<ge> length q then None else Some (q ! pos))"

fun get_tasks_loop ::
  "htask_key \<Rightarrow> predicate \<Rightarrow> nat \<Rightarrow> ptask list \<Rightarrow> ptask list \<Rightarrow> ptask list \<times> htask_key" where
  "get_tasks_loop hi p pageSize tasks [] = (tasks, hi)"
| "get_tasks_loop hi p pageSize tasks (t # ts) =
     (if Compare (GetTaskKey t) hi \<ge> 0 then (tasks, hi)
      else if \<not> Check p t then get_tasks_loop hi p pageSize tasks ts
      else
        let tasks' = tasks @ [t] in
        if length tasks' > pageSize
        then (take pageSize tasks', Next (GetTaskKey (tasks' ! (pageSize - 1))))
        else get_tasks_loop hi p pageSize tasks' ts)"

definition mq_GetTasks ::
  "htask_key \<Rightarrow> htask_key \<Rightarrow> predicate \<Rightarrow> int \<Rightarrow> mem_queue \<Rightarrow> ptask list \<times> htask_key" where
  "mq_GetTasks inclusiveMinTaskKey exclusiveMaxTaskKey p pageSize q =
     (if pageSize \<le> 0 then ([], inclusiveMinTaskKey)
      else get_tasks_loop exclusiveMaxTaskKey p (nat pageSize) []
             (drop (findTaskPosition inclusiveMinTaskKey q) q))"

definition LTrim :: "htask_key \<Rightarrow> mem_queue \<Rightarrow> mem_queue" where
  "LTrim newInclusiveMinTaskKey q =
     (let pos = findTaskPosition newInclusiveMinTaskKey q in if pos \<le> 0 then q else drop pos q)"

definition RTrimBySize :: "int \<Rightarrow> mem_queue \<Rightarrow> htask_key \<times> bool \<times> mem_queue" where
  "RTrimBySize maxSize q =
     (if length q = 0 then (MinimumHistoryTaskKey, False, q)
      else if maxSize \<le> 0 then (MinimumHistoryTaskKey, True, [])
      else
        let trimmed = int (length q) > maxSize; q' = (if trimmed then take (nat maxSize) q else q)
        in (Next (GetTaskKey (q' ! (length q' - 1))), trimmed, q'))"

definition LTrimBySize :: "int \<Rightarrow> mem_queue \<Rightarrow> htask_key \<times> bool \<times> mem_queue" where
  "LTrimBySize maxSize q =
     (if length q = 0 then (MinimumHistoryTaskKey, False, q)
      else if maxSize \<le> 0 then (MinimumHistoryTaskKey, True, [])
      else if int (length q) \<le> maxSize then (MinimumHistoryTaskKey, False, q)
      else
        let drop_n = length q - nat maxSize; q' = drop drop_n q
        in (GetTaskKey (q' ! 0), True, q'))"

definition mq_Clear :: "mem_queue \<Rightarrow> mem_queue" where
  "mq_Clear q = []"

definition mq_Len :: "mem_queue \<Rightarrow> int" where
  "mq_Len q = int (length q)"

section \<open>Positions\<close>

definition mq_wf :: "mem_queue \<Rightarrow> bool" where
  "mq_wf q \<longleftrightarrow> sorted_wrt (\<lambda>s t. GetTaskKey s < GetTaskKey t) q"

lemma mq_wf_simps [simp]:
  "mq_wf []"
  "mq_wf (t # q) \<longleftrightarrow> (\<forall>u \<in> set q. GetTaskKey t < GetTaskKey u) \<and> mq_wf q"
  "mq_wf (q @ q') \<longleftrightarrow> mq_wf q \<and> mq_wf q' \<and> (\<forall>s \<in> set q. \<forall>t \<in> set q'. GetTaskKey s < GetTaskKey t)"
  by (auto simp: mq_wf_def sorted_wrt_append)

lemma mq_wf_filter [simp]: "mq_wf q \<Longrightarrow> mq_wf (filter P q)"
  unfolding mq_wf_def by (rule sorted_wrt_filter)

lemma mq_wf_inj: "mq_wf q \<Longrightarrow> s \<in> set q \<Longrightarrow> t \<in> set q \<Longrightarrow> GetTaskKey s = GetTaskKey t \<Longrightarrow> s = t"
  by (induction q) force+

lemma mq_wf_split:
  "mq_wf q \<Longrightarrow> q = filter (\<lambda>t. GetTaskKey t < k) q @ filter (\<lambda>t. k \<le> GetTaskKey t) q"
proof (induction q)
  case (Cons t q)
  show ?case
  proof (cases "GetTaskKey t < k")
    case False
    then have "filter (\<lambda>t. GetTaskKey t < k) q = []" "filter (\<lambda>t. k \<le> GetTaskKey t) q = q"
      using Cons.prems by (force simp: filter_empty_conv filter_id_conv)+
    then show ?thesis using False by simp
  qed (use Cons in simp)
qed simp

lemma findTaskPosition_eq:
  assumes "mq_wf q"
  shows "findTaskPosition k q = length (filter (\<lambda>t. GetTaskKey t < k) q)"
proof -
  let ?a = "filter (\<lambda>t. GetTaskKey t < k) q" and ?b = "filter (\<lambda>t. k \<le> GetTaskKey t) q"
  have q: "q = ?a @ ?b" using assms by (rule mq_wf_split)
  have "k \<le> GetTaskKey (q ! i) \<longleftrightarrow> length ?a \<le> i" if "i < length q" for i
  proof (cases "i < length ?a")
    case True
    then have "q ! i \<in> set ?a" using q by (metis nth_append nth_mem)
    then show ?thesis using True by auto
  next
    case False
    then have "q ! i \<in> set ?b" using q that
      by (metis add_diff_inverse_nat length_append nat_add_left_cancel_less nth_append nth_mem)
    then show ?thesis using False by auto
  qed
  then show ?thesis
    unfolding findTaskPosition_def sort_Search_def Compare_iff
    by (intro sort_Search_loop_unique) auto
qed

lemma take_findTaskPosition: "mq_wf q \<Longrightarrow> take (findTaskPosition k q) q = filter (\<lambda>t. GetTaskKey t < k) q"
  using mq_wf_split [of q k] by (metis append_eq_conv_conj findTaskPosition_eq)

lemma drop_findTaskPosition: "mq_wf q \<Longrightarrow> drop (findTaskPosition k q) q = filter (\<lambda>t. k \<le> GetTaskKey t) q"
  using mq_wf_split [of q k] by (metis append_eq_conv_conj findTaskPosition_eq)

section \<open>Insertion\<close>

lemma putTask_eq:
  assumes "mq_wf q"
  shows "putTask t q =
    (if \<exists>u \<in> set q. GetTaskKey u = GetTaskKey t then q
     else filter (\<lambda>u. GetTaskKey u < GetTaskKey t) q @ t # filter (\<lambda>u. GetTaskKey t \<le> GetTaskKey u) q)"
proof -
  let ?k = "GetTaskKey t" and ?pos = "findTaskPosition (GetTaskKey t) q"
  let ?b = "filter (\<lambda>u. GetTaskKey t \<le> GetTaskKey u) q"
  have b: "drop ?pos q = ?b" by (rule drop_findTaskPosition [OF assms])
  show ?thesis
  proof (cases "length q = 0 \<or> GetTaskKey (q ! (length q - 1)) < ?k")
    case True
    have "\<forall>u \<in> set q. GetTaskKey u < ?k"
    proof (cases q rule: rev_cases)
      case (snoc r l)
      then show ?thesis using True assms by (auto simp: nth_append)
    qed simp
    then have "filter (\<lambda>u. GetTaskKey u < ?k) q = q" "?b = []" "\<not> (\<exists>u \<in> set q. GetTaskKey u = ?k)"
      by (auto simp: filter_id_conv filter_empty_conv)
    then show ?thesis using True by (simp add: putTask_def Let_def)
  next
    case False
    have "?pos < length q \<and> GetTaskKey (q ! ?pos) = ?k \<longleftrightarrow> (\<exists>u \<in> set q. GetTaskKey u = ?k)"
    proof
      assume "\<exists>u \<in> set q. GetTaskKey u = ?k"
      then obtain u where u: "u \<in> set q" "GetTaskKey u = ?k" by auto
      then have "u \<in> set ?b" by simp
      then obtain x xs where x: "?b = x # xs" by (cases ?b) auto
      have "mq_wf (x # xs)" using mq_wf_filter [OF assms] x by metis
      then have "GetTaskKey x \<le> ?k" using \<open>u \<in> set ?b\<close> u(2) x by auto
      moreover have "x \<in> set ?b" using x by simp
      ultimately have "GetTaskKey x = ?k" by auto
      moreover have "?pos < length q" "q ! ?pos = x"
        using b x by (metis drop_all linorder_not_le list.distinct(1), metis Cons_nth_drop_Suc drop_all
            linorder_not_le list.distinct(1) list.inject)
      ultimately show "?pos < length q \<and> GetTaskKey (q ! ?pos) = ?k" by simp
    qed auto
    then show ?thesis
      using False take_findTaskPosition [OF assms] b by (simp add: putTask_def Let_def)
  qed
qed

lemma mq_wf_putTask [simp]: "mq_wf q \<Longrightarrow> mq_wf (putTask t q)"
  by (auto simp: putTask_eq order_le_neq_trans)

lemma set_putTask:
  "mq_wf q \<Longrightarrow> set (putTask t q) = (if \<exists>u \<in> set q. GetTaskKey u = GetTaskKey t then set q else insert t (set q))"
  by (auto simp: putTask_eq)

lemma mq_wf_PutTasks [simp]: "mq_wf q \<Longrightarrow> mq_wf (PutTasks ts q)"
  unfolding PutTasks_def by (induction ts arbitrary: q) auto

text \<open>Among tasks with different keys every task is inserted.\<close>

lemma set_PutTasks:
  assumes "mq_wf q" "inj_on GetTaskKey (set ts \<union> set q)"
  shows "set (PutTasks ts q) = set ts \<union> set q"
  using assms unfolding PutTasks_def
proof (induction ts arbitrary: q)
  case (Cons t ts)
  have "set (putTask t q) = insert t (set q)"
    using Cons.prems by (auto simp: set_putTask inj_on_def)
  then show ?case using Cons.IH [of "putTask t q"] Cons.prems by simp
qed simp

section \<open>Reading\<close>

lemma mq_LookAHead_eq:
  assumes "mq_wf q"
  shows "mq_LookAHead k q =
    (case filter (\<lambda>t. k \<le> GetTaskKey t) q of [] \<Rightarrow> None | t # _ \<Rightarrow> Some t)"
proof -
  have d: "drop (findTaskPosition k q) q = filter (\<lambda>t. k \<le> GetTaskKey t) q"
    by (rule drop_findTaskPosition [OF assms])
  show ?thesis
  proof (cases "findTaskPosition k q < length q")
    case True
    then show ?thesis
      using d Cons_nth_drop_Suc [OF True] by (auto simp: mq_LookAHead_def split: list.splits)
  next
    case False
    then show ?thesis using d by (simp add: mq_LookAHead_def)
  qed
qed

text \<open>What a page is, on the matching tasks.\<close>

definition page_of :: "htask_key \<Rightarrow> nat \<Rightarrow> ptask list \<Rightarrow> ptask list \<times> htask_key" where
  "page_of hi n ts = (if length ts \<le> n then (ts, hi) else (take n ts, Next (GetTaskKey (ts ! (n - 1)))))"

lemma get_tasks_loop_eq:
  assumes "mq_wf ts" "length acc \<le> n" "0 < n"
  shows "get_tasks_loop hi p n acc ts =
    page_of hi n (acc @ filter (\<lambda>t. GetTaskKey t < hi \<and> Check p t) ts)"
  using assms(1,2)
proof (induction ts arbitrary: acc)
  case Nil
  then show ?case by (simp add: page_of_def)
next
  case (Cons t ts)
  let ?f = "\<lambda>acc ts. acc @ filter (\<lambda>t. GetTaskKey t < hi \<and> Check p t) ts"
  show ?case
  proof (cases "GetTaskKey t < hi")
    case False
    then have "filter (\<lambda>t. GetTaskKey t < hi \<and> Check p t) ts = []"
      using Cons.prems(1) by (force simp: filter_empty_conv)
    then show ?thesis using False Cons.prems(2) by (auto simp: page_of_def)
  next
    case True
    show ?thesis
    proof (cases "Check p t \<and> length acc = n")
      case full: True
      have "\<not> length (?f acc (t # ts)) \<le> n" "take n (?f acc (t # ts)) = acc"
        "?f acc (t # ts) ! (n - 1) = acc ! (n - 1)"
        using full True assms(3) by (simp_all add: nth_append)
      moreover have "(acc @ [t]) ! (n - 1) = acc ! (n - 1)" using full assms(3) by (simp add: nth_append)
      ultimately show ?thesis using full True by (auto simp: page_of_def Let_def)
    next
      case False
      then show ?thesis
        using Cons.IH [of acc] Cons.IH [of "acc @ [t]"] Cons.prems True by (auto simp: Let_def)
    qed
  qed
qed

lemma mq_GetTasks_eq:
  assumes "mq_wf q" "0 < n"
  shows "mq_GetTasks lo hi p n q =
    page_of hi (nat n) (filter (\<lambda>t. lo \<le> GetTaskKey t \<and> GetTaskKey t < hi \<and> Check p t) q)"
  using assms mq_wf_filter [OF assms(1), of "\<lambda>t. lo \<le> GetTaskKey t"]
  by (simp add: mq_GetTasks_def drop_findTaskPosition get_tasks_loop_eq conj_commute)

text \<open>A full page ends right behind its last task.\<close>

lemma mq_wf_nth: "mq_wf q \<Longrightarrow> i \<le> j \<Longrightarrow> j < length q \<Longrightarrow> GetTaskKey (q ! i) \<le> GetTaskKey (q ! j)"
  using sorted_wrt_nth_less [of "\<lambda>s t. GetTaskKey s < GetTaskKey t" q i j]
  by (cases "i = j") (auto simp: mq_wf_def)

lemma page_of_full:
  assumes wf: "mq_wf q" "\<forall>t \<in> set q. valid_key (GetTaskKey t)" and n: "0 < n" "n < length q"
    and pg: "page_of hi n q = (ts, k)"
  shows "ts = take n q" "k = Next (GetTaskKey (q ! (n - 1)))"
    "GetTaskKey (q ! (n - 1)) < GetTaskKey (q ! n)" "GetTaskKey (q ! (n - 1)) < k" "k \<le> GetTaskKey (q ! n)"
    "set ts = {t \<in> set q. GetTaskKey t < k}"
proof -
  show ts: "ts = take n q" and k: "k = Next (GetTaskKey (q ! (n - 1)))"
    using pg n by (simp_all add: page_of_def split: if_splits)
  have v: "valid_key (GetTaskKey (q ! (n - 1)))" "valid_key (GetTaskKey (q ! n))" using wf(2) n by auto
  show lt: "GetTaskKey (q ! (n - 1)) < GetTaskKey (q ! n)"
    using wf(1) n by (auto simp: mq_wf_def intro: sorted_wrt_nth_less)
  show at: "GetTaskKey (q ! (n - 1)) < k" using k v by simp
  show below: "k \<le> GetTaskKey (q ! n)" using k v lt by (simp add: Next_le_iff)
  have "i < n \<longleftrightarrow> GetTaskKey (q ! i) < k" if i: "i < length q" for i
    using mq_wf_nth [OF wf(1), of i "n - 1"] mq_wf_nth [OF wf(1), of n i] i n at below by fastforce
  note iff = this
  show "set ts = {t \<in> set q. GetTaskKey t < k}"
  proof (intro set_eqI iffI)
    fix t assume "t \<in> set ts"
    then obtain i where "i < n" "t = q ! i" using n by (auto simp: ts in_set_conv_nth)
    then show "t \<in> {t \<in> set q. GetTaskKey t < k}" using iff [of i] n by simp
  next
    fix t assume "t \<in> {t \<in> set q. GetTaskKey t < k}"
    then obtain i where "i < length q" "t = q ! i" "GetTaskKey t < k" by (auto simp: in_set_conv_nth)
    then show "t \<in> set ts" using iff [of i] n by (auto simp: ts in_set_conv_nth)
  qed
qed

section \<open>Trimming\<close>

lemma LTrim_eq: "mq_wf q \<Longrightarrow> LTrim k q = filter (\<lambda>t. k \<le> GetTaskKey t) q"
  using drop_findTaskPosition [of q k] by (auto simp: LTrim_def Let_def)

lemma mq_wf_take [simp]: "mq_wf q \<Longrightarrow> mq_wf (take n q)"
  by (simp add: mq_wf_def sorted_wrt_take)

lemma mq_wf_drop [simp]: "mq_wf q \<Longrightarrow> mq_wf (drop n q)"
  by (simp add: mq_wf_def sorted_wrt_drop)

text \<open>After a trim the kept tasks are those on one side of the key that is returned.\<close>

lemma LTrimBySize_trimmed:
  assumes "mq_wf q" "LTrimBySize n q = (k, True, q')" "0 < n"
  shows "q' = filter (\<lambda>t. k \<le> GetTaskKey t) q" "\<exists>t \<in> set q. k = GetTaskKey t" "int (length q') = n"
proof -
  let ?d = "length q - nat n"
  have e: "q' = drop ?d q" "k = GetTaskKey (drop ?d q ! 0)" "n < int (length q)"
    using assms(2,3) by (auto simp: LTrimBySize_def Let_def split: if_splits)
  show "int (length q') = n" using e assms(3) by simp
  then obtain x xs where x: "q' = x # xs" using assms(3) by (cases q') auto
  have q: "q = take ?d q @ x # xs" using e(1) x by (metis append_take_drop_id)
  have k: "k = GetTaskKey x" unfolding e(2) e(1) [symmetric] x by simp
  have "mq_wf (take ?d q @ x # xs)" using assms(1) q by simp
  then have "filter (\<lambda>t. k \<le> GetTaskKey t) (take ?d q) = []" "filter (\<lambda>t. k \<le> GetTaskKey t) (x # xs) = x # xs"
    using k by (fastforce simp: filter_empty_conv filter_id_conv)+
  then show "q' = filter (\<lambda>t. k \<le> GetTaskKey t) q" using q x by (metis append_Nil filter_append)
  show "\<exists>t \<in> set q. k = GetTaskKey t" using q k by (metis in_set_conv_decomp)
qed

lemma RTrimBySize_trimmed:
  assumes "mq_wf q" "RTrimBySize n q = (k, True, q')" "0 < n" "\<forall>t \<in> set q. valid_key (GetTaskKey t)"
  shows "q' = filter (\<lambda>t. GetTaskKey t < k) q" "\<exists>t \<in> set q'. k = Next (GetTaskKey t)" "int (length q') = n"
    "\<exists>t \<in> set q. k \<le> GetTaskKey t"
proof -
  have e: "q' = take (nat n) q" "k = Next (GetTaskKey (q' ! (length q' - 1)))" "n < int (length q)"
    using assms(2,3) by (auto simp: RTrimBySize_def Let_def split: if_splits)
  show "int (length q') = n" using e assms(3) by simp
  then obtain ys y where y: "q' = ys @ [y]" using assms(3) by (cases q' rule: rev_cases) auto
  let ?r = "drop (nat n) q"
  have q: "q = (ys @ [y]) @ ?r" using e(1) y by (metis append_take_drop_id)
  have k: "k = Next (GetTaskKey y)" unfolding e(2) y by (simp add: nth_append)
  have wf: "mq_wf ((ys @ [y]) @ ?r)" using assms(1) q by simp
  have in_q: "set ys \<union> {y} \<union> set ?r \<subseteq> set q" using q by (metis Un_subset_iff set_append set_simps(1,2)
      subset_refl list.set(2) insert_is_Un Un_empty_right)
  then have v: "valid_key (GetTaskKey y)" "\<forall>t \<in> set ys \<union> set ?r. valid_key (GetTaskKey t)"
    using assms(4) by blast+
  have "filter (\<lambda>t. GetTaskKey t < k) (ys @ [y]) = ys @ [y]" "filter (\<lambda>t. GetTaskKey t < k) ?r = []"
    using wf v by (fastforce simp: filter_id_conv filter_empty_conv k less_Next_iff)+
  then show "q' = filter (\<lambda>t. GetTaskKey t < k) q" using q y by (metis append_Nil2 filter_append)
  show "\<exists>t \<in> set q'. k = Next (GetTaskKey t)" using y k by auto
  have "?r \<noteq> []" using e(3) assms(3) by simp
  then obtain z where z: "z \<in> set ?r" by (cases ?r) auto
  then have "k \<le> GetTaskKey z" using wf v by (auto simp: k Next_le_iff)
  then show "\<exists>t \<in> set q. k \<le> GetTaskKey t" using z in_q by blast
qed

end
