(* ===== verification/Task_Tracker.thy ===== *)
theory Task_Tracker
  imports Predicates
begin

text \<open>
  The tracker of the pending tasks of a virtual slice
  (\<open>service/history/queuev2/pending_task_tracker.go\<close>). The tracked tasks are shared with
  the processors, which acknowledge them from outside: \<open>tracker_Ack\<close> is that event.

  \<open>pending_task_tracker\<close> is the contract of the Go interface of the same name over the
  abstract state \<open>key \<rightharpoonup> task\<close>; the slices use the facts proved there.
\<close>

record tracker =
  taskMap :: "(htask_key, htask) gomap"
  taskCountPerDomain :: "(string, int) gomap"
  minTaskKey :: htask_key

definition NewPendingTaskTracker :: tracker where
  "NewPendingTaskTracker =
     \<lparr>taskMap = [], taskCountPerDomain = [], minTaskKey = MaximumHistoryTaskKey\<rparr>"

definition AddTask :: "tracker \<Rightarrow> htask \<Rightarrow> tracker" where
  "AddTask tr t =
     (let m = (if length (taskMap tr) = 0 then ht_key t
               else if Compare (minTaskKey tr) (ht_key t) > 0 then ht_key t
               else minTaskKey tr)
      in \<lparr>taskMap = AList.update (ht_key t) t (taskMap tr),
          taskCountPerDomain =
            AList.update (ht_domain t) (gm_int (taskCountPerDomain tr) (ht_domain t) + 1)
              (taskCountPerDomain tr),
          minTaskKey = m\<rparr>)"

definition GetMinimumTaskKey :: "tracker \<Rightarrow> htask_key \<times> bool" where
  "GetMinimumTaskKey tr =
     (if length (taskMap tr) = 0 then (MaximumHistoryTaskKey, False) else (minTaskKey tr, True))"

text \<open>The loop of \<open>PruneAckedTasks\<close> over the entries the iteration visits.\<close>

fun prune_loop ::
  "(htask_key \<times> htask) list \<Rightarrow> tracker \<Rightarrow> htask_key \<Rightarrow> int \<Rightarrow> tracker \<times> htask_key \<times> int" where
  "prune_loop [] tr m n = (tr, m, n)"
| "prune_loop ((key, t) # es) tr m n =
     (if ht_state t = TaskStateAcked then
        prune_loop es
          (tr\<lparr>taskMap := AList.delete key (taskMap tr),
              taskCountPerDomain :=
                AList.update (ht_domain t) (gm_int (taskCountPerDomain tr) (ht_domain t) - 1)
                  (taskCountPerDomain tr)\<rparr>) m (n + 1)
      else prune_loop es tr (if Compare key m < 0 then key else m) n)"

definition PruneAckedTasks :: "tracker \<Rightarrow> tracker \<times> int" where
  "PruneAckedTasks tr =
     (case prune_loop (taskMap tr) tr MaximumHistoryTaskKey 0 of
        (tr', m, n) \<Rightarrow> (tr'\<lparr>minTaskKey := m\<rparr>, n))"

definition GetPendingTaskCount :: "tracker \<Rightarrow> int" where
  "GetPendingTaskCount tr = int (length (taskMap tr))"

definition GetPerDomainPendingTaskCount :: "tracker \<Rightarrow> (string, int) gomap" where
  "GetPerDomainPendingTaskCount tr = taskCountPerDomain tr"

text \<open>The tasks that were tracked are cancelled; they are the second component.\<close>

definition tracker_Clear :: "tracker \<Rightarrow> tracker \<times> htask list" where
  "tracker_Clear tr =
     (\<lparr>taskMap = [], taskCountPerDomain = [], minTaskKey = MaximumHistoryTaskKey\<rparr>,
      map (task_Cancel \<circ> snd) (taskMap tr))"

text \<open>A processor acknowledges the task with this key.\<close>

definition tracker_Ack :: "htask_key \<Rightarrow> tracker \<Rightarrow> tracker" where
  "tracker_Ack k tr =
     tr\<lparr>taskMap := map (\<lambda>(k', t). (k', if k' = k then task_Ack t else t)) (taskMap tr)\<rparr>"

section \<open>Invariant and abstraction\<close>

definition tracked :: "tracker \<Rightarrow> htask_key \<rightharpoonup> htask" where
  "tracked tr = map_of (taskMap tr)"

definition tracker_wf :: "tracker \<Rightarrow> bool" where
  "tracker_wf tr \<longleftrightarrow> gm_wf (taskMap tr) \<and>
     (\<forall>(k, t) \<in> set (taskMap tr). k = ht_key t \<and> k \<le> MaximumHistoryTaskKey) \<and>
     (taskMap tr \<noteq> [] \<longrightarrow> minTaskKey tr = Min (fst ` set (taskMap tr)))"

definition domain_tasks :: "tracker \<Rightarrow> string \<Rightarrow> int" where
  "domain_tasks tr d = int (length (filter (\<lambda>(k, t). ht_domain t = d) (taskMap tr)))"

lemma dom_tracked: "dom (tracked tr) = fst ` set (taskMap tr)"
  by (simp add: tracked_def dom_map_of_conv_image_fst)

lemma dom_tracked_AddTask: "dom (tracked (AddTask tr t)) = insert (ht_key t) (dom (tracked tr))"
  by (simp add: dom_tracked AddTask_def Let_def)

lemma tracked_AddTask: "tracked (AddTask tr t) = (tracked tr)(ht_key t \<mapsto> t)"
  by (simp add: tracked_def AddTask_def Let_def update_conv')

lemma tracker_wf_AddTask:
  assumes "tracker_wf tr" "ht_key t \<le> MaximumHistoryTaskKey"
  shows "tracker_wf (AddTask tr t)"
proof -
  have "minTaskKey (AddTask tr t) = Min (insert (ht_key t) (fst ` set (taskMap tr)))"
  proof (cases "taskMap tr = []")
    case False
    then have "Min (insert (ht_key t) (fst ` set (taskMap tr))) = min (ht_key t) (minTaskKey tr)"
      using assms by (simp add: tracker_wf_def)
    moreover have "minTaskKey (AddTask tr t) = min (ht_key t) (minTaskKey tr)"
      using False by (auto simp: AddTask_def Let_def min_def)
    ultimately show ?thesis by metis
  qed (simp add: AddTask_def)
  moreover have "fst ` set (taskMap (AddTask tr t)) = insert (ht_key t) (fst ` set (taskMap tr))"
    by (simp add: AddTask_def Let_def)
  moreover have "gm_wf (taskMap (AddTask tr t))"
    using assms by (simp add: tracker_wf_def AddTask_def Let_def)
  moreover have "\<forall>(k, u) \<in> set (taskMap (AddTask tr t)). k = ht_key u \<and> k \<le> MaximumHistoryTaskKey"
    using assms by (auto simp: tracker_wf_def AddTask_def Let_def set_update_wf)
  ultimately show ?thesis
    by (simp add: tracker_wf_def)
qed

lemma prune_loop_eq:
  assumes "gm_wf es" "prune_loop es tr m n = (tr', m', n')"
  shows "taskMap tr' = filter (\<lambda>x. \<forall>e \<in> set es. ht_state (snd e) = TaskStateAcked \<longrightarrow> fst e \<noteq> fst x) (taskMap tr)"
    and "m' = fold min (map fst (filter (\<lambda>e. ht_state (snd e) \<noteq> TaskStateAcked) es)) m"
    and "n' = n + int (length (filter (\<lambda>e. ht_state (snd e) = TaskStateAcked) es))"
    and "minTaskKey tr' = minTaskKey tr"
    and "gm_int (taskCountPerDomain tr') d = gm_int (taskCountPerDomain tr) d -
      int (length (filter (\<lambda>e. ht_state (snd e) = TaskStateAcked \<and> ht_domain (snd e) = d) es))"
  using assms
proof (induction es arbitrary: tr m n)
  case (Cons e es)
  obtain key t where e: "e = (key, t)" by force
  {
    case 1
    then show ?case using Cons.IH(1) e
      by (auto simp: AList.delete_eq split: if_splits intro!: filter_cong)
  next
    case 2
    then show ?case using Cons.IH(2) e by (auto simp: min_def split: if_splits)
  next
    case 3
    then show ?case using Cons.IH(3) e by (fastforce split: if_splits)
  next
    case 4
    then show ?case using Cons.IH(4) e by (fastforce split: if_splits)
  next
    case 5
    then show ?case using Cons.IH(5) e by (fastforce split: if_splits)
  }
qed auto

lemma taskMap_PruneAckedTasks:
  assumes "gm_wf (taskMap tr)"
  shows "taskMap (fst (PruneAckedTasks tr)) = filter (\<lambda>e. ht_state (snd e) \<noteq> TaskStateAcked) (taskMap tr)"
proof -
  obtain tr' m n where r: "prune_loop (taskMap tr) tr MaximumHistoryTaskKey 0 = (tr', m, n)"
    by (metis prod_cases3)
  have "\<forall>x \<in> set (taskMap tr). \<forall>e \<in> set (taskMap tr). fst e = fst x \<longrightarrow> e = x"
    using assms by (auto simp: distinct_map inj_on_def)
  then show ?thesis
    unfolding PruneAckedTasks_def r using prune_loop_eq(1) [OF assms r]
    by (auto intro!: filter_cong)
qed

lemma minTaskKey_PruneAckedTasks:
  assumes "gm_wf (taskMap tr)"
  shows "minTaskKey (fst (PruneAckedTasks tr)) =
    Min (insert MaximumHistoryTaskKey (fst ` set (taskMap (fst (PruneAckedTasks tr)))))"
proof -
  obtain tr' m n where r: "prune_loop (taskMap tr) tr MaximumHistoryTaskKey 0 = (tr', m, n)"
    by (metis prod_cases3)
  have "m = Min (set (MaximumHistoryTaskKey #
      map fst (filter (\<lambda>e. ht_state (snd e) \<noteq> TaskStateAcked) (taskMap tr))))"
    unfolding Min.set_eq_fold by (rule prune_loop_eq(2) [OF assms r])
  then show ?thesis
    by (simp add: taskMap_PruneAckedTasks [OF assms]) (simp add: PruneAckedTasks_def r)
qed

lemma tracked_PruneAckedTasks:
  assumes "gm_wf (taskMap tr)"
  shows "tracked (fst (PruneAckedTasks tr)) k =
    (case tracked tr k of None \<Rightarrow> None
     | Some t \<Rightarrow> if ht_state t \<noteq> TaskStateAcked then Some t else None)"
  unfolding tracked_def taskMap_PruneAckedTasks [OF assms] by (rule map_of_filter_snd [OF assms])

lemma tracker_wf_PruneAckedTasks:
  assumes "tracker_wf tr"
  shows "tracker_wf (fst (PruneAckedTasks tr))"
proof -
  let ?tr = "fst (PruneAckedTasks tr)"
  have wf: "gm_wf (taskMap tr)" using assms by (simp add: tracker_wf_def)
  have sub: "set (taskMap ?tr) \<subseteq> set (taskMap tr)"
    by (simp add: taskMap_PruneAckedTasks [OF wf])
  have "Min (insert MaximumHistoryTaskKey (fst ` set (taskMap ?tr))) = Min (fst ` set (taskMap ?tr))"
    if "taskMap ?tr \<noteq> []"
    using that sub assms by (intro Min_insert_top) (fastforce simp: tracker_wf_def)+
  then show ?thesis
    using assms sub minTaskKey_PruneAckedTasks [OF wf]
    by (auto simp: tracker_wf_def taskMap_PruneAckedTasks [OF wf])
qed

lemma tracker_wf_New [simp]: "tracker_wf NewPendingTaskTracker"
  by (simp add: tracker_wf_def NewPendingTaskTracker_def)

lemma tracked_New [simp]: "tracked NewPendingTaskTracker = Map.empty"
  by (simp add: tracked_def NewPendingTaskTracker_def)

lemma tracker_Clear_New: "fst (tracker_Clear tr) = NewPendingTaskTracker"
  by (simp add: tracker_Clear_def NewPendingTaskTracker_def)

lemma tracked_tracker_Ack:
  "tracked (tracker_Ack k tr) k' =
     (if k' = k then map_option task_Ack (tracked tr k') else tracked tr k')"
proof -
  have "map_of (map (\<lambda>(k', t). (k', if k' = k then task_Ack t else t)) m) k' =
      (if k' = k then map_option task_Ack (map_of m k') else map_of m k')" for m
    by (induction m) auto
  then show ?thesis by (simp add: tracked_def tracker_Ack_def)
qed

lemma fst_set_tracker_Ack [simp]: "fst ` set (taskMap (tracker_Ack k tr)) = fst ` set (taskMap tr)"
  by (simp add: tracker_Ack_def image_image case_prod_unfold)

lemma tracker_wf_tracker_Ack: "tracker_wf tr \<Longrightarrow> tracker_wf (tracker_Ack k tr)"
  unfolding tracker_wf_def fst_set_tracker_Ack
  by (auto simp: tracker_Ack_def comp_def case_prod_unfold split: if_splits)

lemma tracker_wf_key:
  "tracker_wf tr \<Longrightarrow> tracked tr k = Some t \<Longrightarrow> ht_key t = k \<and> k \<le> MaximumHistoryTaskKey"
  by (auto simp: tracker_wf_def tracked_def dest!: map_of_SomeD)

lemma tracker_wf_gm_wf: "tracker_wf tr \<Longrightarrow> gm_wf (taskMap tr)"
  by (simp add: tracker_wf_def)

lemma GetMinimumTaskKey_iff:
  "tracker_wf tr \<Longrightarrow> GetMinimumTaskKey tr =
     (if tracked tr = Map.empty then (MaximumHistoryTaskKey, False)
      else (Min (dom (tracked tr)), True))"
  unfolding dom_tracked
  by (cases "taskMap tr") (simp_all add: GetMinimumTaskKey_def tracker_wf_def tracked_def)

section \<open>The contract of the tracker\<close>

locale pending_task_tracker =
  fixes inv :: "'s \<Rightarrow> bool"
    and tasks :: "'s \<Rightarrow> 'k :: linorder \<rightharpoonup> 't"
    and new :: 's
    and add :: "'s \<Rightarrow> 't \<Rightarrow> 's"
    and prune :: "'s \<Rightarrow> 's"
    and minimum :: "'s \<Rightarrow> 'k \<times> bool"
    and key :: "'t \<Rightarrow> 'k"
    and acked :: "'t \<Rightarrow> bool"
    and top_key :: 'k
  assumes inv_new: "inv new"
    and tasks_new: "tasks new = Map.empty"
    and inv_add: "inv s \<Longrightarrow> key t \<le> top_key \<Longrightarrow> inv (add s t)"
    and tasks_add: "tasks (add s t) = (tasks s)(key t \<mapsto> t)"
    and inv_prune: "inv s \<Longrightarrow> inv (prune s)"
    and tasks_prune: "inv s \<Longrightarrow> tasks (prune s) k =
      (case tasks s k of None \<Rightarrow> None | Some t \<Rightarrow> if \<not> acked t then Some t else None)"
    and tasks_key: "inv s \<Longrightarrow> tasks s k = Some t \<Longrightarrow> key t = k \<and> k \<le> top_key"
    and minimum: "inv s \<Longrightarrow> minimum s =
      (if tasks s = Map.empty then (top_key, False) else (Min (dom (tasks s)), True))"
    and finite_tasks: "finite (dom (tasks s))"
begin

definition add_all :: "'s \<Rightarrow> 't list \<Rightarrow> 's" where
  "add_all s ts = fold (\<lambda>t s. add s t) ts s"

lemma inv_add_all:
  "inv s \<Longrightarrow> \<forall>t \<in> set ts. key t \<le> top_key \<Longrightarrow> inv (add_all s ts)"
  unfolding add_all_def by (induction ts arbitrary: s) (auto intro: inv_add)

lemma tasks_add_all: "tasks (add_all s ts) = tasks s ++ map_of (rev (map (\<lambda>t. (key t, t)) ts))"
  unfolding add_all_def by (induction ts arbitrary: s) (auto simp: tasks_add)

lemma dom_tasks_add_all: "dom (tasks (add_all s ts)) = dom (tasks s) \<union> key ` set ts"
  by (auto simp: tasks_add_all dom_map_of_conv_image_fst image_image)

lemma tasks_add_all_cases:
  assumes "tasks (add_all s ts) k = Some t"
  shows "t \<in> set ts \<and> key t = k \<or> tasks s k = Some t \<and> k \<notin> key ` set ts"
  using assms by (auto simp: tasks_add_all map_add_Some_iff map_of_eq_None_iff image_image
      dest!: map_of_SomeD)

text \<open>The minimum is a lower bound of every tracked key, and is reached.\<close>

lemma minimum_le: "inv s \<Longrightarrow> minimum s = (m, True) \<Longrightarrow> tasks s k = Some t \<Longrightarrow> m \<le> k"
  by (auto simp: minimum finite_tasks split: if_splits intro!: Min_le)

lemma minimum_in: "inv s \<Longrightarrow> minimum s = (m, True) \<Longrightarrow> m \<in> dom (tasks s)"
  using Min_in [OF finite_tasks] by (auto simp: minimum split: if_splits)

lemma minimum_none: "inv s \<Longrightarrow> minimum s = (m, False) \<Longrightarrow> tasks s = Map.empty"
  by (auto simp: minimum split: if_splits)

text \<open>Pruning removes acknowledged tasks only, and all of them.\<close>

lemma prune_iff: "inv s \<Longrightarrow> tasks (prune s) k = Some t \<longleftrightarrow> tasks s k = Some t \<and> \<not> acked t"
  by (auto simp: tasks_prune split: option.splits)

end

interpretation tk: pending_task_tracker tracker_wf tracked NewPendingTaskTracker AddTask
  "\<lambda>tr. fst (PruneAckedTasks tr)" GetMinimumTaskKey ht_key
  "\<lambda>t. ht_state t = TaskStateAcked" MaximumHistoryTaskKey
proof unfold_locales
  show "finite (dom (tracked tr))" for tr
    by (simp add: dom_tracked)
qed (simp_all add: tracker_wf_AddTask tracked_AddTask tracker_wf_PruneAckedTasks
    tracked_PruneAckedTasks tracker_wf_gm_wf GetMinimumTaskKey_iff tracker_wf_key)

section \<open>Task counts\<close>

lemma GetPendingTaskCount_card:
  assumes "tracker_wf tr"
  shows "GetPendingTaskCount tr = int (card (dom (tracked tr)))"
  using distinct_card [OF tracker_wf_gm_wf [OF assms]]
  by (simp add: GetPendingTaskCount_def dom_tracked)

text \<open>
  The count kept for a domain is never below the number of its tracked tasks, and is that number
  as long as no task is added under a key that is already tracked.
\<close>

definition counts_ge :: "tracker \<Rightarrow> bool" where
  "counts_ge tr \<longleftrightarrow> (\<forall>d. gm_int (taskCountPerDomain tr) d \<ge> domain_tasks tr d)"

definition counts_exact :: "tracker \<Rightarrow> bool" where
  "counts_exact tr \<longleftrightarrow> (\<forall>d. gm_int (taskCountPerDomain tr) d = domain_tasks tr d)"

lemma length_filter_update_le:
  "length (filter P (AList.update k v m)) \<le> length (filter P m) + (if P (k, v) then 1 else 0)"
  by (induction m) auto

lemma domain_tasks_AddTask_le:
  "domain_tasks (AddTask tr t) d \<le> domain_tasks tr d + (if d = ht_domain t then 1 else 0)"
  using length_filter_update_le [of "\<lambda>(k, t). ht_domain t = d" "ht_key t" t "taskMap tr"]
  by (auto simp: domain_tasks_def AddTask_def Let_def)

lemma domain_tasks_AddTask_fresh:
  "tracked tr (ht_key t) = None \<Longrightarrow>
   domain_tasks (AddTask tr t) d = domain_tasks tr d + (if d = ht_domain t then 1 else 0)"
  by (auto simp: domain_tasks_def AddTask_def Let_def tracked_def map_of_eq_None_iff update_fresh)

lemma gm_int_AddTask:
  "gm_int (taskCountPerDomain (AddTask tr t)) d =
     gm_int (taskCountPerDomain tr) d + (if d = ht_domain t then 1 else 0)"
  by (simp add: AddTask_def Let_def)

lemma counts_ge_AddTask: "counts_ge tr \<Longrightarrow> counts_ge (AddTask tr t)"
  unfolding counts_ge_def gm_int_AddTask
  by (metis (no_types, lifting) add_mono_thms_linordered_semiring(1) domain_tasks_AddTask_le
      order_trans order_refl)

lemma counts_exact_AddTask:
  "counts_exact tr \<Longrightarrow> tracked tr (ht_key t) = None \<Longrightarrow> counts_exact (AddTask tr t)"
  by (simp add: counts_exact_def gm_int_AddTask domain_tasks_AddTask_fresh)

lemma counts_New [simp]: "counts_ge NewPendingTaskTracker" "counts_exact NewPendingTaskTracker"
  by (simp_all add: counts_ge_def counts_exact_def NewPendingTaskTracker_def domain_tasks_def)

lemma length_filter_split:
  "length (filter Q xs) = length (filter (\<lambda>x. P x \<and> Q x) xs) + length (filter (\<lambda>x. \<not> P x \<and> Q x) xs)"
  by (induction xs) auto

text \<open>Pruning lowers the count of a domain by the number of its tasks that are removed.\<close>

lemma gm_int_PruneAckedTasks:
  assumes "gm_wf (taskMap tr)"
  shows "gm_int (taskCountPerDomain (fst (PruneAckedTasks tr))) d - domain_tasks (fst (PruneAckedTasks tr)) d =
     gm_int (taskCountPerDomain tr) d - domain_tasks tr d"
proof -
  obtain tr' m n where r: "prune_loop (taskMap tr) tr MaximumHistoryTaskKey 0 = (tr', m, n)"
    by (metis prod_cases3)
  have "gm_int (taskCountPerDomain (fst (PruneAckedTasks tr))) d = gm_int (taskCountPerDomain tr) d -
      int (length (filter (\<lambda>e. ht_state (snd e) = TaskStateAcked \<and> ht_domain (snd e) = d) (taskMap tr)))"
    using prune_loop_eq(5) [OF assms r] by (simp add: PruneAckedTasks_def r)
  then show ?thesis
    using length_filter_split [of "\<lambda>e. ht_domain (snd e) = d" "taskMap tr"
        "\<lambda>e. ht_state (snd e) = TaskStateAcked"]
    by (simp add: domain_tasks_def taskMap_PruneAckedTasks [OF assms] case_prod_unfold)
qed

lemma counts_ge_PruneAckedTasks:
  "gm_wf (taskMap tr) \<Longrightarrow> counts_ge tr \<Longrightarrow> counts_ge (fst (PruneAckedTasks tr))"
  unfolding counts_ge_def by (metis diff_ge_0_iff_ge gm_int_PruneAckedTasks)

lemma counts_exact_PruneAckedTasks:
  "gm_wf (taskMap tr) \<Longrightarrow> counts_exact tr \<Longrightarrow> counts_exact (fst (PruneAckedTasks tr))"
  unfolding counts_exact_def by (metis eq_iff_diff_eq_0 gm_int_PruneAckedTasks)

lemma snd_PruneAckedTasks:
  assumes "gm_wf (taskMap tr)"
  shows "snd (PruneAckedTasks tr) =
    GetPendingTaskCount tr - GetPendingTaskCount (fst (PruneAckedTasks tr))"
proof -
  obtain tr' m n where r: "prune_loop (taskMap tr) tr MaximumHistoryTaskKey 0 = (tr', m, n)"
    by (metis prod_cases3)
  have "snd (PruneAckedTasks tr) =
      int (length (filter (\<lambda>e. ht_state (snd e) = TaskStateAcked) (taskMap tr)))"
    using prune_loop_eq(3) [OF assms r] by (simp add: PruneAckedTasks_def r)
  then show ?thesis
    using length_filter_split [of "\<lambda>_. True" "taskMap tr" "\<lambda>e. ht_state (snd e) = TaskStateAcked"]
    by (simp add: GetPendingTaskCount_def taskMap_PruneAckedTasks [OF assms])
qed

end
