(* ===== verification/Virtual_Slice.thy ===== *)
theory Virtual_Slice
  imports Task_Tracker Queue_Reader
begin

text \<open>
  Virtual slices (\<open>service/history/queuev2/virtual_slice.go\<close>, the operations of one slice):
  a range of task keys and a predicate, the tasks that were read from it and are pending, and the
  part of it that is still to be read.

  A slice is a Go object, compared by its address: the field \<open>sid\<close> is that address, and an
  operation that allocates slices takes the next free one as its first argument.

  \<open>slice_inv\<close> is the invariant of a slice with respect to the tasks \<open>todo\<close> that are not
  processed yet: each of them that belongs to the slice is tracked or still to be read. The
  operations keep it, so no task is lost.
\<close>

record vslice =
  sid :: nat
  vs_state :: slice_state
  pendingTaskTracker :: tracker
  progress :: "get_task_progress list"

definition mk_progress :: "htask_key \<Rightarrow> htask_key \<Rightarrow> get_task_progress" where
  "mk_progress lo hi =
     \<lparr>InclusiveMinTaskKey = lo, ExclusiveMaxTaskKey = hi, NextPageToken = None, NextTaskKey = lo\<rparr>"

definition NewVirtualSlice :: "nat \<Rightarrow> slice_state \<Rightarrow> tracker \<Rightarrow> vslice" where
  "NewVirtualSlice n state tr =
     \<lparr>sid = n, vs_state = state, pendingTaskTracker = tr,
      progress = [mk_progress (InclusiveMinTaskKey (ss_Range state)) (ExclusiveMaxTaskKey (ss_Range state))]\<rparr>"

abbreviation vs_range :: "vslice \<Rightarrow> task_range" where
  "vs_range s \<equiv> ss_Range (vs_state s)"

abbreviation vs_pred :: "vslice \<Rightarrow> predicate" where
  "vs_pred s \<equiv> ss_Predicate (vs_state s)"

abbreviation vs_lo :: "vslice \<Rightarrow> htask_key" where
  "vs_lo s \<equiv> InclusiveMinTaskKey (vs_range s)"

abbreviation vs_hi :: "vslice \<Rightarrow> htask_key" where
  "vs_hi s \<equiv> ExclusiveMaxTaskKey (vs_range s)"

abbreviation vs_tracked :: "vslice \<Rightarrow> htask_key \<rightharpoonup> htask" where
  "vs_tracked s \<equiv> tracked (pendingTaskTracker s)"

definition vs_GetPendingTaskCount :: "vslice \<Rightarrow> int" where
  "vs_GetPendingTaskCount s = GetPendingTaskCount (pendingTaskTracker s)"

definition GetReadLevel :: "vslice \<Rightarrow> htask_key" where
  "GetReadLevel s =
     (if length (progress s) > 0 then NextTaskKey (hd (progress s)) else vs_hi s)"

definition HasMoreTasks :: "vslice \<Rightarrow> bool" where
  "HasMoreTasks s \<longleftrightarrow> length (progress s) > 0"

definition vs_IsEmpty :: "vslice \<Rightarrow> bool" where
  "vs_IsEmpty s \<longleftrightarrow> state_IsEmpty (vs_state s) \<and> \<not> HasMoreTasks s"

definition PendingTaskStats :: "vslice \<Rightarrow> (string, int) gomap" where
  "PendingTaskStats s = GetPerDomainPendingTaskCount (pendingTaskTracker s)"

definition set_InclusiveMin :: "htask_key \<Rightarrow> vslice \<Rightarrow> vslice" where
  "set_InclusiveMin k s =
     s\<lparr>vs_state := vs_state s\<lparr>ss_Range := vs_range s\<lparr>InclusiveMinTaskKey := k\<rparr>\<rparr>\<rparr>"

definition UpdateAndGetState :: "vslice \<Rightarrow> vslice \<times> slice_state" where
  "UpdateAndGetState s =
     (let s1 = s\<lparr>pendingTaskTracker := fst (PruneAckedTasks (pendingTaskTracker s))\<rparr>;
          s2 = (case GetMinimumTaskKey (pendingTaskTracker s1) of
                  (minPendingTaskKey, ok) \<Rightarrow>
                    if \<not> ok then
                      (if length (progress s1) > 0
                       then set_InclusiveMin (NextTaskKey (hd (progress s1))) s1
                       else set_InclusiveMin (vs_hi s1) s1)
                    else
                      (if length (progress s1) > 0
                       then set_InclusiveMin
                              (MinHistoryTaskKey minPendingTaskKey (NextTaskKey (hd (progress s1)))) s1
                       else set_InclusiveMin minPendingTaskKey s1))
      in (s2, vs_state s2))"

text \<open>The second component lists the tasks that are cancelled.\<close>

definition Clear :: "vslice \<Rightarrow> vslice \<times> htask list" where
  "Clear s =
     (let s1 = fst (UpdateAndGetState s);
          (tr, cancelled) = tracker_Clear (pendingTaskTracker s1)
      in (s1\<lparr>pendingTaskTracker := tr, progress := [mk_progress (vs_lo s1) (vs_hi s1)]\<rparr>, cancelled))"

definition AddTasks :: "tracker \<Rightarrow> htask list \<Rightarrow> tracker" where
  "AddTasks tr ts = fold (\<lambda>t tr. AddTask tr t) ts tr"

text \<open>
  The loop of \<open>GetTasks\<close>: it returns the tasks or the error together with the slice, and
  \<open>None\<close> if the reader never reaches the end of the slice.
\<close>

partial_function (option) GetTasks_loop ::
  "(GetTaskRequest \<Rightarrow> GetTaskResponse result) \<Rightarrow> (ptask \<Rightarrow> htask) \<Rightarrow> int \<Rightarrow> htask list \<Rightarrow> vslice \<Rightarrow>
   (htask list result \<times> vslice) option" where
  "GetTasks_loop rd taskInitializer pageSize tasks s =
     (if int (length tasks) < pageSize \<and> progress s \<noteq> [] then
        (case rd \<lparr>req_Progress = hd (progress s), req_Predicate = vs_pred s,
                  req_PageSize = pageSize - int (length tasks)\<rparr> of
           Inl err \<Rightarrow> Some (if length tasks > 0 then Ok tasks else Err err, s)
         | Inr resp \<Rightarrow>
             GetTasks_loop rd taskInitializer pageSize
               (tasks @ map taskInitializer (resp_Tasks resp))
               (s\<lparr>pendingTaskTracker :=
                    AddTasks (pendingTaskTracker s) (map taskInitializer (resp_Tasks resp)),
                  progress :=
                    (if Compare (NextTaskKey (resp_Progress resp))
                          (ExclusiveMaxTaskKey (hd (progress s))) < 0
                     then resp_Progress resp # tl (progress s) else tl (progress s))\<rparr>))
      else Some (Ok tasks, s))"

definition GetTasks ::
  "(GetTaskRequest \<Rightarrow> GetTaskResponse result) \<Rightarrow> (ptask \<Rightarrow> htask) \<Rightarrow> int \<Rightarrow> vslice \<Rightarrow>
   (htask list result \<times> vslice) option" where
  "GetTasks rd taskInitializer pageSize s =
     (if length (progress s) = 0 then Some (Ok [], s)
      else GetTasks_loop rd taskInitializer pageSize [] s)"

text \<open>How a split by key divides the tracked tasks and one element of the progress.\<close>

definition split_tracker :: "(htask_key \<Rightarrow> htask \<Rightarrow> bool) \<Rightarrow> tracker \<Rightarrow> tracker \<times> tracker" where
  "split_tracker P tr =
     fold (\<lambda>(k, t) (l, r). if P k t then (AddTask l t, r) else (l, AddTask r t))
       (taskMap tr) (NewPendingTaskTracker, NewPendingTaskTracker)"

fun split_progress ::
  "task_range \<Rightarrow> task_range \<Rightarrow> get_task_progress list \<Rightarrow>
   get_task_progress list \<times> get_task_progress list" where
  "split_progress l r [] = ([], [])"
| "split_progress l r (p # ps) =
     (let (lp, rp) = split_progress l r ps in
      if ContainsRange l p then (p # lp, rp)
      else if ContainsRange r p then (lp, p # rp)
      else if range_Contains l (NextTaskKey p) then
        (mk_progress (NextTaskKey p) (ExclusiveMaxTaskKey l) # lp,
         mk_progress (InclusiveMinTaskKey r) (ExclusiveMaxTaskKey p) # rp)
      else (lp, mk_progress (NextTaskKey p) (ExclusiveMaxTaskKey p) # rp))"

definition TrySplitByTaskKey :: "nat \<Rightarrow> htask_key \<Rightarrow> vslice \<Rightarrow> (vslice \<times> vslice) option" where
  "TrySplitByTaskKey n k s =
     (case state_TrySplitByTaskKey (vs_state s) k of None \<Rightarrow> None
      | Some (leftState, rightState) \<Rightarrow>
          let (leftTracker, rightTracker) =
                split_tracker (\<lambda>taskKey _. range_Contains (ss_Range leftState) taskKey)
                  (pendingTaskTracker s);
              (leftProgress, rightProgress) =
                split_progress (ss_Range leftState) (ss_Range rightState) (progress s)
          in Some
            (\<lparr>sid = n, vs_state = leftState, pendingTaskTracker = leftTracker,
              progress = leftProgress\<rparr>,
             \<lparr>sid = Suc n, vs_state = rightState, pendingTaskTracker = rightTracker,
              progress = rightProgress\<rparr>))"

definition TrySplitByPredicate :: "nat \<Rightarrow> predicate \<Rightarrow> vslice \<Rightarrow> (vslice \<times> vslice) option" where
  "TrySplitByPredicate n p s =
     (case state_TrySplitByPredicate (vs_state s) p of None \<Rightarrow> None
      | Some (passState, failState) \<Rightarrow>
          let (passTracker, failTracker) =
                split_tracker (\<lambda>_ t. Check (ss_Predicate passState) (ht_Task t)) (pendingTaskTracker s)
          in Some
            (\<lparr>sid = n, vs_state = passState, pendingTaskTracker = passTracker,
              progress = progress s\<rparr>,
             \<lparr>sid = Suc n, vs_state = failState, pendingTaskTracker = failTracker,
              progress = progress s\<rparr>))"

section \<open>Splitting the tracked tasks\<close>

lemma AddTasks_add_all: "AddTasks tr ts = tk.add_all tr ts"
  by (simp add: AddTasks_def tk.add_all_def)

lemma dom_tracked_AddTasks: "dom (tracked (AddTasks tr ts)) = dom (tracked tr) \<union> ht_key ` set ts"
  unfolding AddTasks_add_all by (rule tk.dom_tasks_add_all)

lemma tracker_wf_AddTasks:
  "tracker_wf tr \<Longrightarrow> \<forall>t \<in> set ts. ht_key t \<le> MaximumHistoryTaskKey \<Longrightarrow> tracker_wf (AddTasks tr ts)"
  unfolding AddTasks_add_all by (rule tk.inv_add_all)

lemma split_tracker_eq:
  "split_tracker P tr =
     (AddTasks NewPendingTaskTracker (map snd (filter (\<lambda>(k, t). P k t) (taskMap tr))),
      AddTasks NewPendingTaskTracker (map snd (filter (\<lambda>(k, t). \<not> P k t) (taskMap tr))))"
proof -
  have "fold (\<lambda>(k, t) (l, r). if P k t then (AddTask l t, r) else (l, AddTask r t)) m (l0, r0) =
     (AddTasks l0 (map snd (filter (\<lambda>(k, t). P k t) m)),
      AddTasks r0 (map snd (filter (\<lambda>(k, t). \<not> P k t) m)))" for m l0 r0
    by (induction m arbitrary: l0 r0) (auto simp: AddTasks_def)
  then show ?thesis by (simp add: split_tracker_def)
qed

lemma map_of_filter_distinct:
  "gm_wf m \<Longrightarrow> map_of (filter (\<lambda>(k, t). P k t) m) k =
     (case map_of m k of None \<Rightarrow> None | Some t \<Rightarrow> if P k t then Some t else None)"
  by (induction m) (auto simp: map_of_eq_None_iff split: option.splits)

lemma tracked_rebuild:
  assumes "tracker_wf tr"
  shows "tracked (AddTasks NewPendingTaskTracker (map snd (filter (\<lambda>(k, t). P k t) (taskMap tr)))) k =
    (case tracked tr k of None \<Rightarrow> None | Some t \<Rightarrow> if P k t then Some t else None)"
proof -
  let ?m = "filter (\<lambda>(k, t). P k t) (taskMap tr)"
  have wf: "gm_wf (taskMap tr)" using assms by (rule tracker_wf_gm_wf)
  then have wf': "gm_wf ?m" by simp
  have "map (\<lambda>t. (ht_key t, t)) (map snd ?m) = map (\<lambda>x. x) ?m"
    unfolding map_map using assms by (intro map_cong refl) (auto simp: tracker_wf_def)
  then have "map_of (rev (map (\<lambda>t. (ht_key t, t)) (map snd ?m))) = map_of ?m"
    using map_of_inject_set [of "rev ?m" ?m] wf' by (simp add: rev_map [symmetric])
  then show ?thesis
    unfolding AddTasks_add_all tk.tasks_add_all
    by (simp add: tracked_def NewPendingTaskTracker_def map_of_filter_distinct [OF wf])
qed

lemma tracker_wf_rebuild:
  assumes "tracker_wf tr"
  shows "tracker_wf (AddTasks NewPendingTaskTracker (map snd (filter P (taskMap tr))))"
  by (rule tracker_wf_AddTasks [OF tracker_wf_New]) (use assms in \<open>auto simp: tracker_wf_def\<close>)

lemma split_tracker_tracked:
  assumes "tracker_wf tr" "split_tracker P tr = (l, r)"
  shows "tracked l k = (case tracked tr k of None \<Rightarrow> None | Some t \<Rightarrow> if P k t then Some t else None)"
    and "tracked r k = (case tracked tr k of None \<Rightarrow> None | Some t \<Rightarrow> if P k t then None else Some t)"
    and "tracker_wf l" and "tracker_wf r"
  using assms tracked_rebuild [OF assms(1), of P k] tracked_rebuild [OF assms(1), of "\<lambda>k t. \<not> P k t" k]
    tracker_wf_rebuild [OF assms(1)]
  by (auto simp: split_tracker_eq split: option.splits)

section \<open>The read progress\<close>

definition unread :: "get_task_progress list \<Rightarrow> htask_key set" where
  "unread ps = (\<Union>p \<in> set ps. {NextTaskKey p ..< ExclusiveMaxTaskKey p})"

definition already_read :: "get_task_progress list \<Rightarrow> htask_key set" where
  "already_read ps = (\<Union>p \<in> set ps. {InclusiveMinTaskKey p ..< NextTaskKey p})"

text \<open>Sorted, and the ranges do not overlap.\<close>

definition progress_ok :: "get_task_progress list \<Rightarrow> bool" where
  "progress_ok ps \<longleftrightarrow> (\<forall>p \<in> set ps. progress_wf p) \<and>
     sorted_wrt (\<lambda>p q. ExclusiveMaxTaskKey p \<le> InclusiveMinTaskKey q) ps"

lemma unread_simps [simp]:
  "unread [] = {}"
  "unread (p # ps) = {NextTaskKey p ..< ExclusiveMaxTaskKey p} \<union> unread ps"
  "unread (ps @ qs) = unread ps \<union> unread qs"
  by (auto simp: unread_def)

lemma already_read_simps [simp]:
  "already_read [] = {}"
  "already_read (p # ps) = {InclusiveMinTaskKey p ..< NextTaskKey p} \<union> already_read ps"
  "already_read (ps @ qs) = already_read ps \<union> already_read qs"
  by (auto simp: already_read_def)

lemma progress_ok_Nil [simp]: "progress_ok []"
  by (simp add: progress_ok_def)

lemma progress_ok_Cons:
  "progress_ok (p # ps) \<longleftrightarrow> progress_wf p \<and> progress_ok ps \<and>
     (\<forall>q \<in> set ps. ExclusiveMaxTaskKey p \<le> InclusiveMinTaskKey q)"
  by (auto simp: progress_ok_def)

lemma progress_ok_append:
  "progress_ok (ps @ qs) \<longleftrightarrow> progress_ok ps \<and> progress_ok qs \<and>
     (\<forall>p \<in> set ps. \<forall>q \<in> set qs. ExclusiveMaxTaskKey p \<le> InclusiveMinTaskKey q)"
  by (auto simp: progress_ok_def sorted_wrt_append)

lemma mk_progress_simps [simp]:
  "InclusiveMinTaskKey (mk_progress a b) = a" "ExclusiveMaxTaskKey (mk_progress a b) = b"
  "NextTaskKey (mk_progress a b) = a" "NextPageToken (mk_progress a b) = None"
  by (simp_all add: mk_progress_def)

lemma progress_wf_mk [simp]: "progress_wf (mk_progress a b) \<longleftrightarrow> a \<le> b"
  by (simp add: progress_wf_def)

text \<open>The first element holds the least key that is still to be read.\<close>

lemma progress_ok_hd_least:
  assumes "progress_ok ps" "p \<in> set ps"
  shows "NextTaskKey (hd ps) \<le> NextTaskKey p"
proof (cases ps)
  case (Cons q qs)
  then have "p = q \<or> NextTaskKey q \<le> ExclusiveMaxTaskKey q \<and>
      ExclusiveMaxTaskKey q \<le> InclusiveMinTaskKey p \<and> InclusiveMinTaskKey p \<le> NextTaskKey p"
    using assms by (auto simp: progress_ok_Cons progress_ok_def progress_wf_def)
  then show ?thesis using Cons by auto
qed (use assms in simp)

lemma already_read_disjoint:
  assumes "progress_ok ps"
  shows "already_read ps \<inter> unread ps = {}"
  using assms
proof (induction ps)
  case (Cons p ps)
  have "q \<in> set ps \<Longrightarrow> ExclusiveMaxTaskKey p \<le> InclusiveMinTaskKey q \<and>
      InclusiveMinTaskKey q \<le> NextTaskKey q" for q
    using Cons.prems by (auto simp: progress_ok_Cons progress_ok_def progress_wf_def)
  then have "k < ExclusiveMaxTaskKey p \<Longrightarrow> k \<notin> already_read ps \<and> k \<notin> unread ps" for k
    by (force simp: already_read_def unread_def)
  then show ?case
    using Cons by (auto simp: progress_ok_Cons progress_wf_def)
qed simp

end
