(* ===== verification/Slice_Invariant.thy ===== *)
theory Slice_Invariant
  imports Virtual_Slice
begin

text \<open>
  The invariant of a virtual slice and its preservation by the operations of one slice:
  \<open>NewVirtualSlice\<close>, \<open>GetTasks\<close>, \<open>UpdateAndGetState\<close> and \<open>Clear\<close>.

  \<open>key_ok\<close> and \<open>pos_ok\<close> are those of the reader (locale \<open>queue_reader\<close>); \<open>todo\<close> is the set
  of the tasks that are not processed yet.
\<close>

definition slice_shape :: "(htask_key \<Rightarrow> bool) \<Rightarrow> (get_task_progress \<Rightarrow> bool) \<Rightarrow> vslice \<Rightarrow> bool" where
  "slice_shape key_ok pos_ok s \<longleftrightarrow>
     vs_lo s \<le> vs_hi s \<and> key_ok (vs_lo s) \<and> key_ok (vs_hi s) \<and> pred_normal (vs_pred s) \<and>
     tracker_wf (pendingTaskTracker s) \<and> progress_ok (progress s) \<and>
     (\<forall>p \<in> set (progress s). pos_ok p \<and> vs_lo s \<le> NextTaskKey p \<and> ExclusiveMaxTaskKey p \<le> vs_hi s)"

text \<open>What the slices need of the keys a reader can handle.\<close>

definition reader_keys :: "(htask_key \<Rightarrow> bool) \<Rightarrow> (get_task_progress \<Rightarrow> bool) \<Rightarrow> bool" where
  "reader_keys key_ok pos_ok \<longleftrightarrow>
     (\<forall>p. pos_ok p \<longrightarrow> key_ok (InclusiveMinTaskKey p) \<and> key_ok (ExclusiveMaxTaskKey p) \<and>
        key_ok (NextTaskKey p)) \<and>
     (\<forall>a b. key_ok a \<longrightarrow> key_ok b \<longrightarrow> pos_ok (mk_progress a b))"

definition slice_tasks :: "(htask_key \<Rightarrow> bool) \<Rightarrow> ptask set \<Rightarrow> vslice \<Rightarrow> bool" where
  "slice_tasks key_ok todo s \<longleftrightarrow>
     (\<forall>k h. vs_tracked s k = Some h \<longrightarrow>
        k \<in> range_keys (vs_range s) \<and> key_ok k \<and> Check (vs_pred s) (ht_Task h) \<and>
        (\<forall>t \<in> todo. GetTaskKey t = k \<longrightarrow> ht_Task h = t \<and> ht_state h \<noteq> TaskStateAcked))"

definition slice_covers :: "ptask set \<Rightarrow> vslice \<Rightarrow> bool" where
  "slice_covers todo s \<longleftrightarrow>
     (\<forall>t \<in> todo. state_Contains (vs_state s) t \<longrightarrow>
        GetTaskKey t \<in> dom (vs_tracked s) \<or> GetTaskKey t \<in> unread (progress s)) \<and>
     (\<forall>t \<in> todo. Check (vs_pred s) t \<and> GetTaskKey t \<in> already_read (progress s) \<longrightarrow>
        GetTaskKey t \<in> dom (vs_tracked s))"

definition slice_inv ::
  "(htask_key \<Rightarrow> bool) \<Rightarrow> (get_task_progress \<Rightarrow> bool) \<Rightarrow> ptask set \<Rightarrow> vslice \<Rightarrow> bool" where
  "slice_inv key_ok pos_ok todo s \<longleftrightarrow>
     slice_shape key_ok pos_ok s \<and> slice_tasks key_ok todo s \<and> slice_covers todo s"

lemmas slice_inv_defs = slice_inv_def slice_shape_def slice_tasks_def slice_covers_def

lemma slice_inv_shape: "slice_inv key_ok pos_ok todo s \<Longrightarrow> slice_shape key_ok pos_ok s"
  by (simp add: slice_inv_def)

text \<open>The unread part of a slice lies in its range.\<close>

lemma unread_in_range:
  "slice_shape key_ok pos_ok s \<Longrightarrow> unread (progress s) \<subseteq> range_keys (vs_range s)"
  by (fastforce simp: slice_shape_def unread_def)

section \<open>Reading\<close>

context queue_reader
begin

lemma reader_keys: "reader_keys key_ok pos_ok"
  using pos_ok_keys pos_ok_fresh by (simp add: reader_keys_def)

text \<open>The state of a slice after one page was read.\<close>

definition after_page :: "(ptask \<Rightarrow> htask) \<Rightarrow> GetTaskResponse \<Rightarrow> vslice \<Rightarrow> vslice" where
  "after_page init resp s =
     s\<lparr>pendingTaskTracker := AddTasks (pendingTaskTracker s) (map init (resp_Tasks resp)),
       progress := (if NextTaskKey (resp_Progress resp) < ExclusiveMaxTaskKey (hd (progress s))
         then resp_Progress resp # tl (progress s) else tl (progress s))\<rparr>"

lemma page_facts:
  assumes "store_ok d" "slice_shape key_ok pos_ok s" "progress s = p # ps" "0 < n"
    "get_task d \<lparr>req_Progress = p, req_Predicate = vs_pred s, req_PageSize = n\<rparr> = Inr resp"
  shows "InclusiveMinTaskKey p \<le> InclusiveMinTaskKey (resp_Progress resp) \<and>
       InclusiveMinTaskKey (resp_Progress resp) \<le> NextTaskKey (resp_Progress resp)"
    "ExclusiveMaxTaskKey (resp_Progress resp) = ExclusiveMaxTaskKey p"
    "InclusiveMinTaskKey p \<le> NextTaskKey p"
    "NextTaskKey p \<le> NextTaskKey (resp_Progress resp)"
    "NextTaskKey (resp_Progress resp) \<le> ExclusiveMaxTaskKey p"
    "set (resp_Tasks resp) = {t \<in> stored d. NextTaskKey p \<le> GetTaskKey t \<and>
       GetTaskKey t < NextTaskKey (resp_Progress resp) \<and> Check (vs_pred s) t}"
    "int (length (resp_Tasks resp)) \<le> n"
    "NextTaskKey (resp_Progress resp) < ExclusiveMaxTaskKey p \<Longrightarrow> pos_ok (resp_Progress resp)"
    "NextTaskKey (resp_Progress resp) < ExclusiveMaxTaskKey p \<Longrightarrow>
       \<exists>t \<in> stored d. NextTaskKey p \<le> GetTaskKey t \<and> GetTaskKey t < NextTaskKey (resp_Progress resp)"
proof -
  have wf: "progress_wf p" "pos_ok p"
    using assms(2,3) by (auto simp: slice_shape_def progress_ok_Cons)
  then show "InclusiveMinTaskKey p \<le> NextTaskKey p" by (simp add: progress_wf_def)
  have "reads_page (stored d) \<lparr>req_Progress = p, req_Predicate = vs_pred s, req_PageSize = n\<rparr> resp"
    using assms wf by (intro read_page) simp_all
  then show "InclusiveMinTaskKey p \<le> InclusiveMinTaskKey (resp_Progress resp) \<and>
       InclusiveMinTaskKey (resp_Progress resp) \<le> NextTaskKey (resp_Progress resp)"
    "ExclusiveMaxTaskKey (resp_Progress resp) = ExclusiveMaxTaskKey p"
    "NextTaskKey p \<le> NextTaskKey (resp_Progress resp)"
    "NextTaskKey (resp_Progress resp) \<le> ExclusiveMaxTaskKey p"
    "set (resp_Tasks resp) = {t \<in> stored d. NextTaskKey p \<le> GetTaskKey t \<and>
       GetTaskKey t < NextTaskKey (resp_Progress resp) \<and> Check (vs_pred s) t}"
    "int (length (resp_Tasks resp)) \<le> n"
    "NextTaskKey (resp_Progress resp) < ExclusiveMaxTaskKey p \<Longrightarrow>
       \<exists>t \<in> stored d. NextTaskKey p \<le> GetTaskKey t \<and> GetTaskKey t < NextTaskKey (resp_Progress resp)"
    by (simp_all add: reads_page_def Let_def)
  show "pos_ok (resp_Progress resp)" if "NextTaskKey (resp_Progress resp) < ExclusiveMaxTaskKey p"
    using assms wf that
    by (intro read_pos [where req = "\<lparr>req_Progress = p, req_Predicate = vs_pred s, req_PageSize = n\<rparr>"])
      simp_all
qed

lemma after_page_simps [simp]:
  "sid (after_page init resp s) = sid s" "vs_state (after_page init resp s) = vs_state s"
  by (simp_all add: after_page_def)

lemma unread_after_page:
  assumes "store_ok d" "slice_shape key_ok pos_ok s" "progress s = p # ps" "0 < n"
    "get_task d \<lparr>req_Progress = p, req_Predicate = vs_pred s, req_PageSize = n\<rparr> = Inr resp"
  shows "unread (progress (after_page init resp s)) =
    unread (progress s) - {NextTaskKey p ..< NextTaskKey (resp_Progress resp)}"
proof -
  note f = page_facts [OF assms]
  have "ExclusiveMaxTaskKey p \<le> NextTaskKey q" if "q \<in> set ps" for q
    using assms(2,3) that
    by (fastforce simp: slice_shape_def progress_ok_Cons progress_ok_def progress_wf_def)
  then have "unread ps \<inter> {NextTaskKey p ..< NextTaskKey (resp_Progress resp)} = {}"
    using f(5) by (fastforce simp: unread_def)
  then show ?thesis
    using assms(3) f(1-5) by (auto simp: after_page_def)
qed

lemma shape_after_page:
  assumes "store_ok d" "slice_shape key_ok pos_ok s" "progress s = p # ps" "0 < n"
    "get_task d \<lparr>req_Progress = p, req_Predicate = vs_pred s, req_PageSize = n\<rparr> = Inr resp"
    and init: "\<And>t. ht_Task (init t) = t"
  shows "slice_shape key_ok pos_ok (after_page init resp s)"
proof -
  note f = page_facts [OF assms(1-5)]
  have "tracker_wf (AddTasks (pendingTaskTracker s) (map init (resp_Tasks resp)))"
    using assms(2) key_ok_stored [OF assms(1)] key_ok_max f(6) init
    by (intro tracker_wf_AddTasks) (auto simp: slice_shape_def)
  moreover have "progress_wf (resp_Progress resp)"
    using f by (simp add: progress_wf_def)
  moreover have "vs_lo s \<le> NextTaskKey (resp_Progress resp)"
    using assms(2,3) f(4) by (auto simp: slice_shape_def)
  ultimately show ?thesis
    using assms(2,3) f(1,2,5,8) by (auto simp: slice_shape_def after_page_def progress_ok_Cons)
qed

lemma inv_after_page:
  assumes "store_ok d" "slice_inv key_ok pos_ok todo s" "progress s = p # ps" "0 < n"
    "get_task d \<lparr>req_Progress = p, req_Predicate = vs_pred s, req_PageSize = n\<rparr> = Inr resp"
    and init: "\<And>t. ht_Task (init t) = t" "\<And>t. ht_state (init t) = TaskStatePending"
    and todo: "todo \<subseteq> stored d"
  shows "slice_inv key_ok pos_ok todo (after_page init resp s)"
proof -
  let ?s = "after_page init resp s" and ?ts = "map init (resp_Tasks resp)"
  have sh: "slice_shape key_ok pos_ok s" using assms(2) by (rule slice_inv_shape)
  note f = page_facts [OF assms(1) sh assms(3-5)]
  have tr: "vs_tracked ?s = tracked (tk.add_all (pendingTaskTracker s) ?ts)"
    by (simp add: after_page_def AddTasks_add_all)
  have dm: "dom (vs_tracked ?s) = dom (vs_tracked s) \<union> GetTaskKey ` set (resp_Tasks resp)"
    unfolding tr by (auto simp: tk.dom_tasks_add_all init image_image)
  have rng: "GetTaskKey t \<in> range_keys (vs_range s)" if "t \<in> set (resp_Tasks resp)" for t
    using that f(4-6) unread_in_range [OF sh] assms(3) by (auto simp: subset_iff)
  have "slice_tasks key_ok todo ?s"
    unfolding slice_tasks_def
  proof (intro allI impI)
    fix k h assume "vs_tracked ?s k = Some h"
    then have "h \<in> set ?ts \<and> ht_key h = k \<or> vs_tracked s k = Some h"
      unfolding tr by (auto dest: tk.tasks_add_all_cases)
    then show "k \<in> range_keys (vs_range ?s) \<and> key_ok k \<and> Check (vs_pred ?s) (ht_Task h) \<and>
        (\<forall>t \<in> todo. GetTaskKey t = k \<longrightarrow> ht_Task h = t \<and> ht_state h \<noteq> TaskStateAcked)"
    proof
      assume "h \<in> set ?ts \<and> ht_key h = k"
      then obtain t where t: "t \<in> set (resp_Tasks resp)" "h = init t" "k = GetTaskKey t"
        using init by auto
      then have "t \<in> stored d" "Check (vs_pred s) t" using f(6) by auto
      then show ?thesis
        using t rng key_ok_stored [OF assms(1)] init inj_onD [OF inj_key [OF assms(1)]] todo
        by auto
    next
      assume "vs_tracked s k = Some h"
      then show ?thesis
        using assms(2) by (simp add: slice_inv_def slice_tasks_def)
    qed
  qed
  moreover have "slice_covers todo ?s"
  proof -
    have mem: "GetTaskKey t \<in> dom (vs_tracked ?s)"
      if "t \<in> todo" "Check (vs_pred s) t" "NextTaskKey p \<le> GetTaskKey t"
        "GetTaskKey t < NextTaskKey (resp_Progress resp)" for t
      using that f(6) todo dm by blast
    have "already_read (progress ?s) \<subseteq>
        already_read (progress s) \<union> {NextTaskKey p ..< NextTaskKey (resp_Progress resp)}"
      using assms(3) f(1) by (auto simp: after_page_def)
    then show ?thesis
      using assms(2) mem dm unread_after_page [OF assms(1) sh assms(3-5), of init]
      by (fastforce simp: slice_inv_def slice_covers_def state_Contains_iff)
  qed
  ultimately show ?thesis
    using shape_after_page [OF assms(1) sh assms(3-5) init(1)] by (simp add: slice_inv_def)
qed

text \<open>
  The number of elements of the progress and of stored tasks in the unread part: it decreases
  with every page.
\<close>

definition to_read :: "'d \<Rightarrow> vslice \<Rightarrow> nat" where
  "to_read d s = length (progress s) + card {t \<in> stored d. GetTaskKey t \<in> unread (progress s)}"

lemma to_read_after_page:
  assumes "store_ok d" "slice_shape key_ok pos_ok s" "progress s = p # ps" "0 < n"
    "get_task d \<lparr>req_Progress = p, req_Predicate = vs_pred s, req_PageSize = n\<rparr> = Inr resp"
  shows "to_read d (after_page init resp s) < to_read d s"
proof -
  note f = page_facts [OF assms] and u = unread_after_page [OF assms, of init]
  let ?new = "{t \<in> stored d. GetTaskKey t \<in> unread (progress (after_page init resp s))}"
  let ?old = "{t \<in> stored d. GetTaskKey t \<in> unread (progress s)}"
  have fin: "finite ?old" using finite_stored by simp
  have sub: "?new \<subseteq> ?old" using u by auto
  show ?thesis
  proof (cases "NextTaskKey (resp_Progress resp) < ExclusiveMaxTaskKey p")
    case True
    then obtain t where "t \<in> stored d" "NextTaskKey p \<le> GetTaskKey t"
        "GetTaskKey t < NextTaskKey (resp_Progress resp)"
      using f(9) by blast
    then have "t \<in> ?old" "t \<notin> ?new" using True u assms(3) by auto
    then have "card ?new < card ?old" using sub fin by (intro psubset_card_mono) auto
    then show ?thesis
      using True assms(3) by (simp add: to_read_def after_page_def)
  next
    case False
    have "card ?new \<le> card ?old" using sub fin by (rule card_mono [rotated])
    then show ?thesis
      using False assms(3) by (simp add: to_read_def after_page_def)
  qed
qed

text \<open>What a call of the loop returns, from the slice \<open>s\<close> with \<open>tasks\<close> read so far.\<close>

definition loop_result ::
  "'d \<Rightarrow> ptask set \<Rightarrow> int \<Rightarrow> htask list \<Rightarrow> vslice \<Rightarrow> htask list result \<Rightarrow> vslice \<Rightarrow> bool" where
  "loop_result d todo n tasks s res s' \<longleftrightarrow>
     slice_inv key_ok pos_ok todo s' \<and> vs_state s' = vs_state s \<and> sid s' = sid s \<and>
     unread (progress s') \<subseteq> unread (progress s) \<and>
     (case res of
        Inl e \<Rightarrow> tasks = [] \<and> {t \<in> stored d. Check (vs_pred s) t \<and>
          GetTaskKey t \<in> unread (progress s) - unread (progress s')} = {}
      | Inr ts \<Rightarrow> \<exists>new. ts = tasks @ new \<and>
          int (length ts) \<le> max n (int (length tasks)) \<and>
          ht_Task ` set new = {t \<in> stored d. Check (vs_pred s) t \<and>
            GetTaskKey t \<in> unread (progress s) - unread (progress s')})"

lemma loop_result_page:
  assumes "store_ok d" "slice_inv key_ok pos_ok todo s" "progress s = p # ps"
    "int (length tasks) < n"
    "get_task d \<lparr>req_Progress = p, req_Predicate = vs_pred s,
       req_PageSize = n - int (length tasks)\<rparr> = Inr resp"
    and init: "\<And>t. ht_Task (init t) = t"
    and rest: "loop_result d todo n (tasks @ map init (resp_Tasks resp)) (after_page init resp s) res s'"
  shows "loop_result d todo n tasks s res s'"
proof -
  have sh: "slice_shape key_ok pos_ok s" using assms(2) by (rule slice_inv_shape)
  have n: "0 < n - int (length tasks)" using assms(4) by simp
  note f = page_facts [OF assms(1) sh assms(3) n assms(5)]
    and u = unread_after_page [OF assms(1) sh assms(3) n assms(5), of init]
  let ?u1 = "unread (progress (after_page init resp s))"
  have pg: "{NextTaskKey p ..< NextTaskKey (resp_Progress resp)} \<subseteq> unread (progress s)"
    using assms(3) f(5) by auto
  have set1: "ht_Task ` set (map init (resp_Tasks resp)) =
      {t \<in> stored d. Check (vs_pred s) t \<and> GetTaskKey t \<in> unread (progress s) - ?u1}"
    using f(6) pg by (auto simp: init image_image u)
  have sub: "unread (progress s') \<subseteq> ?u1" "?u1 \<subseteq> unread (progress s)"
    using rest u by (auto simp: loop_result_def)
  show ?thesis
  proof (cases res)
    case (Inl e)
    then show ?thesis
      using rest set1 sub by (auto simp: loop_result_def)
  next
    case (Inr ts)
    then obtain new where new: "ts = (tasks @ map init (resp_Tasks resp)) @ new"
        "int (length ts) \<le> max n (int (length (tasks @ map init (resp_Tasks resp))))"
        "ht_Task ` set new = {t \<in> stored d. Check (vs_pred s) t \<and>
            GetTaskKey t \<in> ?u1 - unread (progress s')}"
      using rest by (auto simp: loop_result_def)
    have "ht_Task ` set (map init (resp_Tasks resp) @ new) = {t \<in> stored d. Check (vs_pred s) t \<and>
            GetTaskKey t \<in> unread (progress s) - unread (progress s')}"
      unfolding set_append image_Un set1 new(3) using sub by blast
    moreover have "int (length ts) \<le> max n (int (length tasks))"
      using new(2) f(7) by simp
    ultimately show ?thesis
      using rest sub new(1) Inr by (auto simp: loop_result_def)
  qed
qed

lemma GetTasks_loop_total:
  assumes "store_ok d" "slice_inv key_ok pos_ok todo s" "todo \<subseteq> stored d"
    and init: "\<And>t. ht_Task (init t) = t" "\<And>t. ht_state (init t) = TaskStatePending"
  shows "\<exists>res s'. GetTasks_loop (get_task d) init n tasks s = Some (res, s') \<and>
    loop_result d todo n tasks s res s'"
  using assms(2)
proof (induction "to_read d s" arbitrary: s tasks rule: less_induct)
  case less
  have sh: "slice_shape key_ok pos_ok s" using less.prems by (rule slice_inv_shape)
  show ?case
  proof (cases "int (length tasks) < n \<and> progress s \<noteq> []")
    case False
    then show ?thesis
      using less.prems by (subst GetTasks_loop.simps) (auto simp: loop_result_def)
  next
    case True
    then obtain p ps where p: "progress s = p # ps" by (cases "progress s") auto
    let ?req = "\<lparr>req_Progress = p, req_Predicate = vs_pred s, req_PageSize = n - int (length tasks)\<rparr>"
    show ?thesis
    proof (cases "get_task d ?req")
      case (Inl e)
      then show ?thesis
        using True p less.prems by (subst GetTasks_loop.simps) (auto simp: loop_result_def)
    next
      case (Inr resp)
      have n: "0 < n - int (length tasks)" using True by simp
      have step: "GetTasks_loop (get_task d) init n tasks s =
          GetTasks_loop (get_task d) init n (tasks @ map init (resp_Tasks resp)) (after_page init resp s)"
        using True p Inr by (subst GetTasks_loop.simps) (simp add: after_page_def)
      show ?thesis
        using less.hyps [OF to_read_after_page [OF assms(1) sh p n Inr]
            inv_after_page [OF assms(1) less.prems p n Inr init assms(3)]]
          loop_result_page [OF assms(1) less.prems p _ Inr init(1)] True
        unfolding step by blast
    qed
  qed
qed

text \<open>
  \<open>GetTasks\<close> returns: it keeps the invariant, and the tasks it returns are exactly the stored
  tasks of the part of the slice that is no longer unread.
\<close>

lemma GetTasks_total:
  assumes "store_ok d" "slice_inv key_ok pos_ok todo s" "todo \<subseteq> stored d"
    and "\<And>t. ht_Task (init t) = t" "\<And>t. ht_state (init t) = TaskStatePending"
  shows "\<exists>res s'. GetTasks (get_task d) init n s = Some (res, s') \<and> loop_result d todo n [] s res s'"
proof (cases "progress s = []")
  case True
  then show ?thesis using assms by (auto simp: GetTasks_def loop_result_def)
next
  case False
  then show ?thesis
    using GetTasks_loop_total [OF assms, of n "[]"] by (simp add: GetTasks_def)
qed

end

section \<open>Updating the state\<close>

definition pruned :: "vslice \<Rightarrow> vslice" where
  "pruned s = s\<lparr>pendingTaskTracker := fst (PruneAckedTasks (pendingTaskTracker s))\<rparr>"

text \<open>The new lower bound: the least key that is pending or still to be read.\<close>

definition new_lo :: "vslice \<Rightarrow> htask_key" where
  "new_lo s = (let rest = (if progress s = [] then vs_hi s else NextTaskKey (hd (progress s))) in
     if vs_tracked (pruned s) = Map.empty then rest else min (Min (dom (vs_tracked (pruned s)))) rest)"

lemma set_InclusiveMin_simps [simp]:
  "vs_lo (set_InclusiveMin k s) = k" "vs_hi (set_InclusiveMin k s) = vs_hi s"
  "vs_pred (set_InclusiveMin k s) = vs_pred s" "progress (set_InclusiveMin k s) = progress s"
  "pendingTaskTracker (set_InclusiveMin k s) = pendingTaskTracker s" "sid (set_InclusiveMin k s) = sid s"
  by (simp_all add: set_InclusiveMin_def)

lemma pruned_simps [simp]:
  "vs_state (pruned s) = vs_state s" "progress (pruned s) = progress s" "sid (pruned s) = sid s"
  by (simp_all add: pruned_def)

lemma tracked_pruned:
  "tracker_wf (pendingTaskTracker s) \<Longrightarrow>
   vs_tracked (pruned s) k = Some h \<longleftrightarrow> vs_tracked s k = Some h \<and> ht_state h \<noteq> TaskStateAcked"
  by (simp add: pruned_def tk.prune_iff)

lemma pending_below_hi:
  assumes "slice_shape key_ok pos_ok s" "slice_tasks key_ok todo s" "k \<in> dom (vs_tracked s)"
  shows "vs_lo s \<le> k" "k < vs_hi s" "key_ok k"
  using assms by (auto simp: slice_tasks_def)

lemma UpdateAndGetState_eq:
  assumes "slice_shape key_ok pos_ok s" "slice_tasks key_ok todo s"
  shows "UpdateAndGetState s =
    (set_InclusiveMin (new_lo s) (pruned s), vs_state (set_InclusiveMin (new_lo s) (pruned s)))"
proof -
  have wf: "tracker_wf (pendingTaskTracker s)" using assms by (simp add: slice_shape_def)
  then have wf': "tracker_wf (fst (PruneAckedTasks (pendingTaskTracker s)))"
    by (rule tk.inv_prune)
  have "Min (dom (vs_tracked (pruned s))) < vs_hi s" if "vs_tracked (pruned s) \<noteq> Map.empty"
  proof -
    have "Min (dom (vs_tracked (pruned s))) \<in> dom (vs_tracked (pruned s))"
      using that tk.finite_tasks by (intro Min_in) auto
    then show ?thesis
      using pending_below_hi(2) [OF assms] tracked_pruned [OF wf] by blast
  qed
  then show ?thesis
    using tk.minimum [OF wf']
    by (auto simp: UpdateAndGetState_def new_lo_def pruned_def Let_def min_absorb1)
qed

lemma new_lo_bounds:
  assumes "slice_shape key_ok pos_ok s" "slice_tasks key_ok todo s"
    and rk: "reader_keys key_ok pos_ok"
  shows "vs_lo s \<le> new_lo s" "new_lo s \<le> vs_hi s" "key_ok (new_lo s)"
    "k \<in> dom (vs_tracked (pruned s)) \<Longrightarrow> new_lo s \<le> k"
    "p \<in> set (progress s) \<Longrightarrow> new_lo s \<le> NextTaskKey p"
proof -
  define rest where "rest = (if progress s = [] then vs_hi s else NextTaskKey (hd (progress s)))"
  have wf: "tracker_wf (pendingTaskTracker s)" using assms by (simp add: slice_shape_def)
  have fin: "finite (dom (vs_tracked (pruned s)))" by (rule tk.finite_tasks)
  have rest: "vs_lo s \<le> rest \<and> rest \<le> vs_hi s \<and> key_ok rest"
  proof (cases "progress s")
    case (Cons q qs)
    then have "vs_lo s \<le> NextTaskKey q" "NextTaskKey q \<le> ExclusiveMaxTaskKey q"
        "ExclusiveMaxTaskKey q \<le> vs_hi s" "pos_ok q"
      using assms(1) by (auto simp: slice_shape_def progress_ok_Cons progress_wf_def)
    then show ?thesis using Cons rk by (auto simp: rest_def reader_keys_def)
  qed (use assms(1) in \<open>simp add: rest_def slice_shape_def\<close>)
  have pend: "vs_lo s \<le> k \<and> k < vs_hi s \<and> key_ok k" if "k \<in> dom (vs_tracked (pruned s))" for k
    using that pending_below_hi [OF assms(1,2)] tracked_pruned [OF wf] by blast
  have eq: "new_lo s = (if vs_tracked (pruned s) = Map.empty then rest
      else min (Min (dom (vs_tracked (pruned s)))) rest)"
    by (simp add: new_lo_def rest_def)
  have mn: "Min (dom (vs_tracked (pruned s))) \<in> dom (vs_tracked (pruned s))"
    if "vs_tracked (pruned s) \<noteq> Map.empty"
    using that fin by (intro Min_in) auto
  show "vs_lo s \<le> new_lo s" "new_lo s \<le> vs_hi s" "key_ok (new_lo s)"
    using rest pend mn unfolding eq by (auto simp: min_le_iff_disj min_def)
  show "new_lo s \<le> k" if "k \<in> dom (vs_tracked (pruned s))"
    using that fin unfolding eq by (auto simp: min_le_iff_disj)
  show "new_lo s \<le> NextTaskKey p" if "p \<in> set (progress s)"
  proof -
    have "rest \<le> NextTaskKey p"
      using that assms(1) progress_ok_hd_least by (auto simp: rest_def slice_shape_def)
    then show ?thesis unfolding eq by (simp add: min_le_iff_disj)
  qed
qed

lemma slice_inv_UpdateAndGetState:
  assumes inv: "slice_inv key_ok pos_ok todo s"
    and rk: "reader_keys key_ok pos_ok"
  shows "slice_inv key_ok pos_ok todo (fst (UpdateAndGetState s))"
proof -
  have sh: "slice_shape key_ok pos_ok s" and ts: "slice_tasks key_ok todo s"
    and cv: "slice_covers todo s"
    using inv by (simp_all add: slice_inv_def)
  have wf: "tracker_wf (pendingTaskTracker s)" using sh by (simp add: slice_shape_def)
  let ?s = "set_InclusiveMin (new_lo s) (pruned s)"
  note b = new_lo_bounds [OF sh ts rk] and tp = tracked_pruned [OF wf]
  have keep: "GetTaskKey t \<in> dom (vs_tracked (pruned s))"
    if "t \<in> todo" "GetTaskKey t \<in> dom (vs_tracked s)" for t
    using that ts tp by (fastforce simp: slice_tasks_def)
  have "slice_shape key_ok pos_ok ?s"
    using sh b tk.inv_prune [OF wf] by (auto simp: slice_shape_def pruned_def)
  moreover have "slice_tasks key_ok todo ?s"
    using ts tp b(4) unfolding slice_tasks_def by (fastforce intro: domI)
  moreover have "slice_covers todo ?s"
  proof -
    have "state_Contains (vs_state s) t" if "state_Contains (vs_state ?s) t" for t
      using that b(1) by (auto simp: state_Contains_iff)
    then show ?thesis
      using cv keep unfolding slice_covers_def by simp blast
  qed
  ultimately show ?thesis
    by (simp add: UpdateAndGetState_eq [OF sh ts] slice_inv_def)
qed

text \<open>The range a slice gives up holds no task that is still to be processed.\<close>

lemma UpdateAndGetState_scope:
  assumes inv: "slice_inv key_ok pos_ok todo s"
    and rk: "reader_keys key_ok pos_ok"
    and t: "t \<in> todo" "state_Contains (vs_state s) t"
  shows "state_Contains (snd (UpdateAndGetState s)) t"
proof -
  have sh: "slice_shape key_ok pos_ok s" and ts: "slice_tasks key_ok todo s"
    and cv: "slice_covers todo s"
    using inv by (simp_all add: slice_inv_def)
  have wf: "tracker_wf (pendingTaskTracker s)" using sh by (simp add: slice_shape_def)
  note b = new_lo_bounds [OF sh ts rk] and tp = tracked_pruned [OF wf]
  have "new_lo s \<le> GetTaskKey t"
  proof (cases "GetTaskKey t \<in> dom (vs_tracked s)")
    case True
    then have "GetTaskKey t \<in> dom (vs_tracked (pruned s))"
      using t(1) ts tp by (fastforce simp: slice_tasks_def)
    then show ?thesis by (rule b(4))
  next
    case False
    then have "GetTaskKey t \<in> unread (progress s)"
      using cv t by (auto simp: slice_covers_def)
    then show ?thesis using b(5) by (fastforce simp: unread_def)
  qed
  then show ?thesis
    using t(2) by (simp add: UpdateAndGetState_eq [OF sh ts] state_Contains_iff)
qed

lemma UpdateAndGetState_simps:
  assumes "slice_inv key_ok pos_ok todo s"
  shows "vs_hi (fst (UpdateAndGetState s)) = vs_hi s" "vs_pred (fst (UpdateAndGetState s)) = vs_pred s"
    "progress (fst (UpdateAndGetState s)) = progress s" "sid (fst (UpdateAndGetState s)) = sid s"
    "snd (UpdateAndGetState s) = vs_state (fst (UpdateAndGetState s))"
    "vs_lo (fst (UpdateAndGetState s)) = new_lo s"
  using assms UpdateAndGetState_eq [of key_ok pos_ok s todo] by (simp_all add: slice_inv_def)

section \<open>New and cleared slices\<close>

lemma slice_inv_fresh:
  assumes "vs_lo s \<le> vs_hi s" "key_ok (vs_lo s)" "key_ok (vs_hi s)" "pred_normal (vs_pred s)"
    "pendingTaskTracker s = NewPendingTaskTracker" "progress s = [mk_progress (vs_lo s) (vs_hi s)]"
    and rk: "reader_keys key_ok pos_ok"
  shows "slice_inv key_ok pos_ok todo s"
  using assms
  by (auto simp: slice_inv_defs progress_ok_Cons state_Contains_iff reader_keys_def)

lemma slice_inv_NewVirtualSlice:
  assumes "InclusiveMinTaskKey (ss_Range st) \<le> ExclusiveMaxTaskKey (ss_Range st)"
    "key_ok (InclusiveMinTaskKey (ss_Range st))" "key_ok (ExclusiveMaxTaskKey (ss_Range st))"
    "pred_normal (ss_Predicate st)"
    and "reader_keys key_ok pos_ok"
  shows "slice_inv key_ok pos_ok todo (NewVirtualSlice n st NewPendingTaskTracker)"
  using assms by (intro slice_inv_fresh) (auto simp: NewVirtualSlice_def)

lemma slice_inv_Clear:
  assumes inv: "slice_inv key_ok pos_ok todo s"
    and rk: "reader_keys key_ok pos_ok"
  shows "slice_inv key_ok pos_ok todo (fst (Clear s))"
proof -
  have "slice_inv key_ok pos_ok todo (fst (UpdateAndGetState s))"
    using inv rk by (rule slice_inv_UpdateAndGetState)
  then show ?thesis
    using rk
    by (intro slice_inv_fresh)
      (auto simp: Clear_def Let_def case_prod_unfold tracker_Clear_New slice_inv_def slice_shape_def)
qed

text \<open>After \<open>Clear\<close> everything that was pending is to be read again.\<close>

lemma vs_state_Clear: "vs_state (fst (Clear s)) = vs_state (fst (UpdateAndGetState s))"
  by (simp add: Clear_def Let_def case_prod_unfold)

lemma Clear_rereads:
  assumes inv: "slice_inv key_ok pos_ok todo s"
    and rk: "reader_keys key_ok pos_ok"
    and t: "t \<in> todo" "state_Contains (vs_state s) t"
  shows "GetTaskKey t \<in> unread (progress (fst (Clear s)))"
  using UpdateAndGetState_scope [OF inv rk t]
  by (simp add: Clear_def Let_def case_prod_unfold UpdateAndGetState_simps [OF inv] state_Contains_iff)

end
