(* ===== verification/Slice_Split.thy ===== *)
theory Slice_Split
  imports Slice_Invariant
begin

text \<open>
  Splitting a virtual slice by a key and by a predicate (\<open>TrySplitByTaskKey\<close> and
  \<open>TrySplitByPredicate\<close> of \<open>virtual_slice.go\<close>): the two parts satisfy the invariant, and
  every task of the slice belongs to exactly one of them.
\<close>

section \<open>The progress of the parts\<close>

text \<open>
  An element of the progress may begin below the range of the slice, because the range moves up
  while the element keeps the bounds it was read with. A split by key is sound when only elements
  that reach the end of the slice do so.
\<close>

definition splittable :: "vslice \<Rightarrow> bool" where
  "splittable s \<longleftrightarrow>
     (\<forall>p \<in> set (progress s). vs_lo s \<le> InclusiveMinTaskKey p \<or> ExclusiveMaxTaskKey p = vs_hi s)"

definition aligned :: "vslice \<Rightarrow> bool" where
  "aligned s \<longleftrightarrow> (\<forall>p \<in> set (progress s). vs_lo s \<le> InclusiveMinTaskKey p)"

lemma aligned_splittable: "aligned s \<Longrightarrow> splittable s"
  by (auto simp: aligned_def splittable_def)

text \<open>The parts of one element.\<close>

definition left_part :: "task_range \<Rightarrow> task_range \<Rightarrow> get_task_progress \<Rightarrow> get_task_progress list" where
  "left_part l r p =
     (if ContainsRange l p then [p] else if ContainsRange r p then []
      else if range_Contains l (NextTaskKey p)
      then [mk_progress (NextTaskKey p) (ExclusiveMaxTaskKey l)] else [])"

definition right_part :: "task_range \<Rightarrow> task_range \<Rightarrow> get_task_progress \<Rightarrow> get_task_progress list" where
  "right_part l r p =
     (if ContainsRange l p then [] else if ContainsRange r p then [p]
      else if range_Contains l (NextTaskKey p)
      then [mk_progress (InclusiveMinTaskKey r) (ExclusiveMaxTaskKey p)]
      else [mk_progress (NextTaskKey p) (ExclusiveMaxTaskKey p)])"

lemma split_progress_eq:
  "split_progress l r ps = (concat (map (left_part l r) ps), concat (map (right_part l r) ps))"
  by (induction ps) (auto simp: left_part_def right_part_def Let_def)

text \<open>The ranges \<open>l\<close> and \<open>r\<close> meet at \<open>k\<close>, and \<open>p\<close> is an element that can be split there.\<close>

definition cut_ok :: "task_range \<Rightarrow> task_range \<Rightarrow> htask_key \<Rightarrow> get_task_progress \<Rightarrow> bool" where
  "cut_ok l r k p \<longleftrightarrow>
     ExclusiveMaxTaskKey l = k \<and> InclusiveMinTaskKey r = k \<and>
     InclusiveMinTaskKey l < k \<and> k < ExclusiveMaxTaskKey r \<and> progress_wf p \<and>
     InclusiveMinTaskKey l \<le> NextTaskKey p \<and> ExclusiveMaxTaskKey p \<le> ExclusiveMaxTaskKey r \<and>
     (InclusiveMinTaskKey l \<le> InclusiveMinTaskKey p \<or> ExclusiveMaxTaskKey p = ExclusiveMaxTaskKey r)"

lemma left_part_elem:
  assumes "cut_ok l r k p" "q \<in> set (left_part l r p)"
  shows "progress_wf q" "InclusiveMinTaskKey p \<le> InclusiveMinTaskKey q"
    "ExclusiveMaxTaskKey q \<le> ExclusiveMaxTaskKey p" "ExclusiveMaxTaskKey q \<le> k"
    "InclusiveMinTaskKey l \<le> InclusiveMinTaskKey q" "InclusiveMinTaskKey l \<le> NextTaskKey q"
    "q = p \<or> q = mk_progress (NextTaskKey p) k"
  using assms
  by (auto simp: cut_ok_def left_part_def ContainsRange_def progress_wf_def split: if_splits)

lemma right_part_elem:
  assumes "cut_ok l r k p" "q \<in> set (right_part l r p)"
  shows "progress_wf q" "InclusiveMinTaskKey p \<le> InclusiveMinTaskKey q"
    "ExclusiveMaxTaskKey q = ExclusiveMaxTaskKey p" "k \<le> InclusiveMinTaskKey q"
    "q = p \<or> q = mk_progress (NextTaskKey p) (ExclusiveMaxTaskKey p) \<or>
     q = mk_progress k (ExclusiveMaxTaskKey p)"
  using assms
  by (auto simp: cut_ok_def right_part_def ContainsRange_def progress_wf_def split: if_splits)

lemma part_cases:
  assumes "cut_ok l r k p"
  obtains
    (left) "ExclusiveMaxTaskKey p \<le> k" "left_part l r p = [p]" "right_part l r p = []"
  | (right) "k \<le> InclusiveMinTaskKey p" "left_part l r p = []" "right_part l r p = [p]"
  | (cut) "NextTaskKey p < k" "k \<le> ExclusiveMaxTaskKey p"
      "left_part l r p = [mk_progress (NextTaskKey p) k]"
      "right_part l r p = [mk_progress k (ExclusiveMaxTaskKey p)]"
  | (rest) "k \<le> NextTaskKey p" "left_part l r p = []"
      "right_part l r p = [mk_progress (NextTaskKey p) (ExclusiveMaxTaskKey p)]"
proof -
  consider "ContainsRange l p" | "\<not> ContainsRange l p" "ContainsRange r p"
    | "\<not> ContainsRange l p" "\<not> ContainsRange r p" "NextTaskKey p < k"
    | "\<not> ContainsRange l p" "\<not> ContainsRange r p" "k \<le> NextTaskKey p"
    by force
  then show ?thesis
  proof cases
    case 1
    then show ?thesis using assms
      by (intro left) (auto simp: cut_ok_def ContainsRange_def left_part_def right_part_def)
  next
    case 2
    then show ?thesis using assms
      by (intro right) (auto simp: cut_ok_def ContainsRange_def left_part_def right_part_def)
  next
    case 3
    then have "k \<le> ExclusiveMaxTaskKey p"
      using assms by (auto simp: cut_ok_def ContainsRange_def)
    then show ?thesis using 3 assms
      by (intro cut) (auto simp: cut_ok_def left_part_def right_part_def)
  next
    case 4
    then show ?thesis using assms
      by (intro rest) (auto simp: cut_ok_def left_part_def right_part_def)
  qed
qed

lemma part_unread:
  assumes "cut_ok l r k p"
  shows "unread (left_part l r p) = {x \<in> unread [p]. x < k}"
    "unread (right_part l r p) = {x \<in> unread [p]. k \<le> x}"
    "already_read (left_part l r p) \<subseteq> already_read [p]"
    "already_read (right_part l r p) \<subseteq> already_read [p]"
  using assms
  by (cases rule: part_cases [OF assms]; auto simp: cut_ok_def progress_wf_def)+

lemma concat_parts:
  assumes "progress_ok ps" "\<forall>p \<in> set ps. \<forall>q \<in> set (f p). progress_wf q \<and>
      InclusiveMinTaskKey p \<le> InclusiveMinTaskKey q \<and> ExclusiveMaxTaskKey q \<le> ExclusiveMaxTaskKey p"
    "\<forall>p \<in> set ps. length (f p) \<le> 1"
  shows "progress_ok (concat (map f ps))"
  using assms
proof (induction ps)
  case (Cons p ps)
  have "progress_ok (f p)"
    using Cons.prems by (cases "f p") (auto simp: progress_ok_def)
  moreover have "ExclusiveMaxTaskKey a \<le> InclusiveMinTaskKey b"
    if "a \<in> set (f p)" "q \<in> set ps" "b \<in> set (f q)" for a b q
    using Cons.prems that by (fastforce simp: progress_ok_Cons dest: order_trans)
  ultimately show ?case
    using Cons by (auto simp: progress_ok_append progress_ok_Cons)
qed simp

lemma unread_concat: "unread (concat (map f ps)) = (\<Union>p \<in> set ps. unread (f p))"
  by (induction ps) auto

lemma already_read_concat: "already_read (concat (map f ps)) = (\<Union>p \<in> set ps. already_read (f p))"
  by (induction ps) auto

lemma unread_UN: "unread ps = (\<Union>p \<in> set ps. unread [p])"
  "already_read ps = (\<Union>p \<in> set ps. already_read [p])"
  by (induction ps) auto

lemma split_progress_ok:
  assumes "progress_ok ps" "\<forall>p \<in> set ps. cut_ok l r k p" "split_progress l r ps = (lp, rp)"
  shows "progress_ok lp" "progress_ok rp"
    "unread lp = {x \<in> unread ps. x < k}" "unread rp = {x \<in> unread ps. k \<le> x}"
    "already_read lp \<subseteq> already_read ps" "already_read rp \<subseteq> already_read ps"
proof -
  have eq: "lp = concat (map (left_part l r) ps)" "rp = concat (map (right_part l r) ps)"
    using assms(3) by (simp_all add: split_progress_eq)
  have "\<forall>p \<in> set ps. \<forall>q \<in> set (left_part l r p). progress_wf q \<and>
      InclusiveMinTaskKey p \<le> InclusiveMinTaskKey q \<and> ExclusiveMaxTaskKey q \<le> ExclusiveMaxTaskKey p"
    using assms(2) left_part_elem(1,2,3) by blast
  then show "progress_ok lp" unfolding eq
    by (rule concat_parts [OF assms(1)]) (simp add: left_part_def)
  have "\<forall>p \<in> set ps. \<forall>q \<in> set (right_part l r p). progress_wf q \<and>
      InclusiveMinTaskKey p \<le> InclusiveMinTaskKey q \<and> ExclusiveMaxTaskKey q \<le> ExclusiveMaxTaskKey p"
    using assms(2) right_part_elem(1,2,3) by (metis order_refl)
  then show "progress_ok rp" unfolding eq
    by (rule concat_parts [OF assms(1)]) (simp add: right_part_def)
  have "(\<Union>p \<in> set ps. unread (left_part l r p)) = (\<Union>p \<in> set ps. {x \<in> unread [p]. x < k})"
    using assms(2) by (intro SUP_cong refl part_unread(1)) blast
  then show "unread lp = {x \<in> unread ps. x < k}"
    unfolding eq unread_concat unread_UN(1) [of ps] by blast
  have "(\<Union>p \<in> set ps. unread (right_part l r p)) = (\<Union>p \<in> set ps. {x \<in> unread [p]. k \<le> x})"
    using assms(2) by (intro SUP_cong refl part_unread(2)) blast
  then show "unread rp = {x \<in> unread ps. k \<le> x}"
    unfolding eq unread_concat unread_UN(1) [of ps] by blast
  show "already_read lp \<subseteq> already_read ps"
    unfolding eq already_read_concat unread_UN(2) [of ps]
    using assms(2) part_unread(3) by (intro SUP_mono) blast
  show "already_read rp \<subseteq> already_read ps"
    unfolding eq already_read_concat unread_UN(2) [of ps]
    using assms(2) part_unread(4) by (intro SUP_mono) blast
qed


section \<open>Splitting by key\<close>

lemma TrySplitByTaskKey_Some:
  assumes "TrySplitByTaskKey n k s = Some (a, b)"
  shows "vs_lo s < k" "k < vs_hi s" "vs_lo a = vs_lo s" "vs_hi a = k" "vs_lo b = k"
    "vs_hi b = vs_hi s" "vs_pred a = vs_pred s" "vs_pred b = vs_pred s"
    "split_progress (vs_range a) (vs_range b) (progress s) = (progress a, progress b)"
    "split_tracker (\<lambda>j _. range_Contains (vs_range a) j) (pendingTaskTracker s) =
       (pendingTaskTracker a, pendingTaskTracker b)"
    "sid a = n" "sid b = Suc n"
proof -
  obtain ls rs where st: "state_TrySplitByTaskKey (vs_state s) k = Some (ls, rs)"
    using assms by (auto simp: TrySplitByTaskKey_def split: option.splits)
  have ab: "vs_state a = ls" "vs_state b = rs" "sid a = n" "sid b = Suc n"
    "split_progress (ss_Range ls) (ss_Range rs) (progress s) = (progress a, progress b)"
    "split_tracker (\<lambda>j _. range_Contains (ss_Range ls) j) (pendingTaskTracker s) =
       (pendingTaskTracker a, pendingTaskTracker b)"
    using assms st by (auto simp: TrySplitByTaskKey_def Let_def split: prod.splits)
  show "vs_lo s < k" "k < vs_hi s" "vs_lo a = vs_lo s" "vs_hi a = k" "vs_lo b = k"
    "vs_hi b = vs_hi s" "vs_pred a = vs_pred s" "vs_pred b = vs_pred s"
    unfolding ab using state_TrySplitByTaskKey_Some [OF st] by simp_all
qed (use assms in \<open>auto simp: TrySplitByTaskKey_def Let_def split: prod.splits option.splits\<close>)

lemma split_shape:
  assumes sh: "slice_shape key_ok pos_ok s" and spl: "splittable s" and rk: "reader_keys key_ok pos_ok"
    and k: "key_ok k" and r: "TrySplitByTaskKey n k s = Some (a, b)"
  shows "slice_shape key_ok pos_ok a" "slice_shape key_ok pos_ok b" "aligned a" "aligned b"
    "unread (progress a) = {x \<in> unread (progress s). x < k}"
    "unread (progress b) = {x \<in> unread (progress s). k \<le> x}"
    "already_read (progress a) \<subseteq> already_read (progress s)"
    "already_read (progress b) \<subseteq> already_read (progress s)"
proof -
  note b = TrySplitByTaskKey_Some(1-8) [OF r] and sp = TrySplitByTaskKey_Some(9) [OF r]
    and st = TrySplitByTaskKey_Some(10) [OF r]
  have wf: "tracker_wf (pendingTaskTracker s)" and pok: "progress_ok (progress s)"
    using sh by (simp_all add: slice_shape_def)
  have cut: "cut_ok (vs_range a) (vs_range b) k p" if "p \<in> set (progress s)" for p
    using that sh spl b by (auto simp: cut_ok_def slice_shape_def splittable_def progress_ok_def)
  note sok = split_progress_ok [OF pok _ sp, of k]
  show "unread (progress a) = {x \<in> unread (progress s). x < k}"
    "unread (progress b) = {x \<in> unread (progress s). k \<le> x}"
    "already_read (progress a) \<subseteq> already_read (progress s)"
    "already_read (progress b) \<subseteq> already_read (progress s)"
    using sok(3-6) cut by blast+
  have pa: "progress a = concat (map (left_part (vs_range a) (vs_range b)) (progress s))"
    and pb: "progress b = concat (map (right_part (vs_range a) (vs_range b)) (progress s))"
    using sp by (simp_all add: split_progress_eq)
  have el: "\<exists>p \<in> set (progress s). q \<in> set (left_part (vs_range a) (vs_range b) p)"
    if "q \<in> set (progress a)" for q
    using that unfolding pa by simp
  have er: "\<exists>p \<in> set (progress s). q \<in> set (right_part (vs_range a) (vs_range b) p)"
    if "q \<in> set (progress b)" for q
    using that unfolding pb by simp
  have pk: "pos_ok p \<and> key_ok (NextTaskKey p) \<and> key_ok (ExclusiveMaxTaskKey p) \<and>
      ExclusiveMaxTaskKey p \<le> vs_hi s" if "p \<in> set (progress s)" for p
    using that sh rk by (auto simp: slice_shape_def reader_keys_def)
  have mk: "key_ok x \<Longrightarrow> key_ok y \<Longrightarrow> pos_ok (mk_progress x y)" for x y
    using rk by (simp add: reader_keys_def)
  have ql: "pos_ok q \<and> vs_lo a \<le> InclusiveMinTaskKey q \<and> vs_lo a \<le> NextTaskKey q \<and>
      ExclusiveMaxTaskKey q \<le> vs_hi a" if "q \<in> set (progress a)" for q
    using el [OF that] left_part_elem [OF cut] pk mk k b(4) by metis
  have qr: "pos_ok q \<and> vs_lo b \<le> InclusiveMinTaskKey q \<and> progress_wf q \<and>
      ExclusiveMaxTaskKey q \<le> vs_hi b" if "q \<in> set (progress b)" for q
    using er [OF that] right_part_elem [OF cut] pk mk k b(5,6) by metis
  show "aligned a" "aligned b"
    using ql qr by (auto simp: aligned_def)
  show "slice_shape key_ok pos_ok a"
    using sh b k ql sok(1) cut split_tracker_tracked(3) [OF wf st] by (auto simp: slice_shape_def)
  have "vs_lo b \<le> NextTaskKey q" if "q \<in> set (progress b)" for q
    using qr [OF that] by (auto simp: progress_wf_def)
  then show "slice_shape key_ok pos_ok b"
    using sh b k qr sok(2) cut split_tracker_tracked(4) [OF wf st] by (auto simp: slice_shape_def)
qed

lemma TrySplitByTaskKey_tracked:
  assumes sh: "slice_shape key_ok pos_ok s" and ts: "slice_tasks key_ok todo s"
    and r: "TrySplitByTaskKey n k s = Some (a, b)"
  shows "vs_tracked a j = Some h \<longleftrightarrow> vs_tracked s j = Some h \<and> j < k"
    "vs_tracked b j = Some h \<longleftrightarrow> vs_tracked s j = Some h \<and> k \<le> j"
proof -
  have wf: "tracker_wf (pendingTaskTracker s)" using sh by (simp add: slice_shape_def)
  note b = TrySplitByTaskKey_Some(3,4) [OF r] and st = TrySplitByTaskKey_Some(10) [OF r]
  have "vs_lo s \<le> j" if "vs_tracked s j = Some h" for h
    using ts that by (auto simp: slice_tasks_def)
  then show "vs_tracked a j = Some h \<longleftrightarrow> vs_tracked s j = Some h \<and> j < k"
    "vs_tracked b j = Some h \<longleftrightarrow> vs_tracked s j = Some h \<and> k \<le> j"
    using split_tracker_tracked(1,2) [OF wf st, of j] b
    by (auto split: option.splits if_splits)
qed

text \<open>Both parts of a split by key satisfy the invariant.\<close>

lemma slice_inv_TrySplitByTaskKey:
  assumes inv: "slice_inv key_ok pos_ok todo s" and spl: "splittable s"
    and rk: "reader_keys key_ok pos_ok" and k: "key_ok k"
    and r: "TrySplitByTaskKey n k s = Some (a, b)"
  shows "slice_inv key_ok pos_ok todo a" "slice_inv key_ok pos_ok todo b"
proof -
  have sh: "slice_shape key_ok pos_ok s" and ts: "slice_tasks key_ok todo s"
    and cv: "slice_covers todo s"
    using inv by (simp_all add: slice_inv_def)
  note b = TrySplitByTaskKey_Some(1-8) [OF r]
  note shp = split_shape [OF sh spl rk k r] and tr = TrySplitByTaskKey_tracked [OF sh ts r]
  have "slice_tasks key_ok todo a" "slice_tasks key_ok todo b"
    using ts b unfolding slice_tasks_def tr by auto
  moreover have dm: "j \<in> dom (vs_tracked a) \<longleftrightarrow> j \<in> dom (vs_tracked s) \<and> j < k"
    "j \<in> dom (vs_tracked b) \<longleftrightarrow> j \<in> dom (vs_tracked s) \<and> k \<le> j" for j
    unfolding dom_def mem_Collect_eq using tr by blast+
  have al: "j < k" if "j \<in> already_read (progress a)" for j
    using that shp(1) b(4)
    by (force simp: already_read_def slice_shape_def progress_ok_def progress_wf_def)
  have ar: "k \<le> j" if "j \<in> already_read (progress b)" for j
    using that shp(4) b(5) by (force simp: already_read_def aligned_def)
  have "slice_covers todo a" "slice_covers todo b"
    using cv shp(5-8) b al ar unfolding slice_covers_def dm state_Contains_iff mem_range_keys
    by (auto simp: subset_iff)
  ultimately show "slice_inv key_ok pos_ok todo a" "slice_inv key_ok pos_ok todo b"
    using shp(1,2) by (simp_all add: slice_inv_def)
qed

text \<open>Every task of the slice belongs to exactly one part.\<close>

lemma TrySplitByTaskKey_scope:
  assumes "TrySplitByTaskKey n k s = Some (a, b)"
  shows "state_Contains (vs_state s) t \<longleftrightarrow>
      state_Contains (vs_state a) t \<or> state_Contains (vs_state b) t"
    and "\<not> (state_Contains (vs_state a) t \<and> state_Contains (vs_state b) t)"
  using TrySplitByTaskKey_Some(1-8) [OF assms] by (auto simp: state_Contains_iff)

section \<open>Splitting by predicate\<close>

lemma TrySplitByPredicate_Some:
  assumes "TrySplitByPredicate n p s = Some (a, b)"
  shows "vs_range a = vs_range s" "vs_range b = vs_range s"
    "vs_pred a = And_pred (vs_pred s) p" "vs_pred b = And_pred (vs_pred s) (Not_pred p)"
    "progress a = progress s" "progress b = progress s"
    "split_tracker (\<lambda>_ h. Check (vs_pred a) (ht_Task h)) (pendingTaskTracker s) =
       (pendingTaskTracker a, pendingTaskTracker b)"
    "sid a = n" "sid b = Suc n"
proof -
  obtain ps fs where st: "state_TrySplitByPredicate (vs_state s) p = Some (ps, fs)"
    using assms by (auto simp: TrySplitByPredicate_def split: option.splits)
  have ab: "vs_state a = ps" "vs_state b = fs"
    using assms st by (auto simp: TrySplitByPredicate_def Let_def split: prod.splits)
  show "vs_range a = vs_range s" "vs_range b = vs_range s"
    "vs_pred a = And_pred (vs_pred s) p" "vs_pred b = And_pred (vs_pred s) (Not_pred p)"
    unfolding ab using state_TrySplitByPredicate_Some [OF st] by simp_all
qed (use assms in \<open>auto simp: TrySplitByPredicate_def Let_def split: prod.splits option.splits\<close>)

lemma TrySplitByPredicate_tracked:
  assumes "tracker_wf (pendingTaskTracker s)" "TrySplitByPredicate n p s = Some (a, b)"
  shows "vs_tracked a j = Some h \<longleftrightarrow> vs_tracked s j = Some h \<and> Check (vs_pred a) (ht_Task h)"
    "vs_tracked b j = Some h \<longleftrightarrow> vs_tracked s j = Some h \<and> \<not> Check (vs_pred a) (ht_Task h)"
  using split_tracker_tracked(1,2) [OF assms(1) TrySplitByPredicate_Some(7) [OF assms(2)], of j]
  by (auto split: option.splits if_splits)

text \<open>
  A part of a slice with the same range and progress, whose predicate and tracked tasks are
  those of the slice that satisfy \<open>P\<close>.
\<close>

lemma slice_inv_part:
  assumes inv: "slice_inv key_ok pos_ok todo s"
    and rng: "vs_range a = vs_range s" "progress a = progress s"
    and wf: "tracker_wf (pendingTaskTracker a)" "pred_normal (vs_pred a)"
    and tr: "\<And>j h. vs_tracked a j = Some h \<longleftrightarrow> vs_tracked s j = Some h \<and> P (ht_Task h)"
    and pr: "\<And>t. Check (vs_pred s) t \<Longrightarrow> Check (vs_pred a) t \<longleftrightarrow> P t"
      "\<And>t. Check (vs_pred a) t \<Longrightarrow> Check (vs_pred s) t"
  shows "slice_inv key_ok pos_ok todo a"
proof -
  have sh: "slice_shape key_ok pos_ok s" and ts: "slice_tasks key_ok todo s"
    and cv: "slice_covers todo s"
    using inv by (simp_all add: slice_inv_def)
  have "slice_shape key_ok pos_ok a"
    using sh rng wf by (simp add: slice_shape_def)
  moreover have "slice_tasks key_ok todo a"
    using ts rng pr(1) unfolding slice_tasks_def tr by auto
  moreover have dm: "GetTaskKey t \<in> dom (vs_tracked a)"
    if t: "t \<in> todo" "Check (vs_pred a) t" "GetTaskKey t \<in> dom (vs_tracked s)" for t
  proof -
    obtain h where h: "vs_tracked s (GetTaskKey t) = Some h" using t(3) by blast
    then have "ht_Task h = t" using ts t(1) by (simp add: slice_tasks_def)
    then have "vs_tracked a (GetTaskKey t) = Some h" using h tr t(2) pr by blast
    then show ?thesis by blast
  qed
  have "slice_covers todo a"
    using cv dm pr(2) unfolding slice_covers_def state_Contains_iff rng by blast
  ultimately show ?thesis by (simp add: slice_inv_def)
qed

lemma slice_inv_TrySplitByPredicate:
  assumes inv: "slice_inv key_ok pos_ok todo s" and p: "pred_normal p"
    and r: "TrySplitByPredicate n p s = Some (a, b)"
  shows "slice_inv key_ok pos_ok todo a" "slice_inv key_ok pos_ok todo b"
proof -
  have wf: "tracker_wf (pendingTaskTracker s)" and ps: "pred_normal (vs_pred s)"
    using inv by (simp_all add: slice_inv_def slice_shape_def)
  note f = TrySplitByPredicate_Some [OF r] and tr = TrySplitByPredicate_tracked [OF wf r]
    and w = split_tracker_tracked(3,4) [OF wf f(7)]
  show "slice_inv key_ok pos_ok todo a"
    by (rule slice_inv_part [where P = "Check (vs_pred a)", OF inv f(1) f(5) w(1)])
      (use ps p tr in \<open>auto simp: f(3) Check_And_pred pred_normal_And_pred\<close>)
  show "slice_inv key_ok pos_ok todo b"
    by (rule slice_inv_part [where P = "\<lambda>t. \<not> Check (vs_pred a) t", OF inv f(2) f(6) w(2)])
      (use ps p tr in \<open>auto simp: f(3,4) Check_And_pred pred_normal_And_pred pred_normal_Not_pred
          Check_Not_pred\<close>)
qed

lemma TrySplitByPredicate_scope:
  assumes "pred_normal (vs_pred s)" "pred_normal p" "TrySplitByPredicate n p s = Some (a, b)"
  shows "state_Contains (vs_state s) t \<longleftrightarrow>
      state_Contains (vs_state a) t \<or> state_Contains (vs_state b) t"
    and "\<not> (state_Contains (vs_state a) t \<and> state_Contains (vs_state b) t)"
  using pa.split_partition [OF assms(1,2), of t]
  by (auto simp: state_Contains_iff TrySplitByPredicate_Some [OF assms(3)])

end
