(* ===== verification/Slice_Merge.thy ===== *)
theory Slice_Merge
  imports Slice_Split
begin

text \<open>
  Merging virtual slices (\<open>TryMergeWithVirtualSlice\<close> and the functions below it in
  \<open>virtual_slice.go\<close>).

  Slices with the same predicate become one slice, slices with different predicates become up to
  three slices in which the overlap carries the disjunction of the predicates. The merged
  progress is again sorted without overlaps, and what is unread afterwards is what was unread in
  one slice and not yet read by the other (same predicate), or unread in either of them
  (different predicates).
\<close>

section \<open>The code\<close>

definition mergeProgressWithSamePredicate ::
  "get_task_progress \<Rightarrow> get_task_progress \<Rightarrow> get_task_progress list" where
  "mergeProgressWithSamePredicate left right =
     (let (left, right) =
        (if Compare (InclusiveMinTaskKey left) (InclusiveMinTaskKey right) > 0
         then (right, left) else (left, right)) in
      if Compare (NextTaskKey left) (InclusiveMinTaskKey right) < 0 then
        [\<lparr>InclusiveMinTaskKey = NextTaskKey left,
          ExclusiveMaxTaskKey =
            MinHistoryTaskKey (ExclusiveMaxTaskKey left) (InclusiveMinTaskKey right),
          NextPageToken = None, NextTaskKey = NextTaskKey left\<rparr>,
         \<lparr>InclusiveMinTaskKey = NextTaskKey right,
          ExclusiveMaxTaskKey =
            MaxHistoryTaskKey (ExclusiveMaxTaskKey left) (ExclusiveMaxTaskKey right),
          NextPageToken = None,
          NextTaskKey = MaxHistoryTaskKey (NextTaskKey left) (NextTaskKey right)\<rparr>]
      else
        [\<lparr>InclusiveMinTaskKey = MaxHistoryTaskKey (NextTaskKey left) (NextTaskKey right),
          ExclusiveMaxTaskKey =
            MaxHistoryTaskKey (ExclusiveMaxTaskKey left) (ExclusiveMaxTaskKey right),
          NextPageToken = None,
          NextTaskKey = MaxHistoryTaskKey (NextTaskKey left) (NextTaskKey right)\<rparr>])"

definition appendOrMergeProgressWithSamePredicate ::
  "get_task_progress list \<Rightarrow> get_task_progress \<Rightarrow> get_task_progress list" where
  "appendOrMergeProgressWithSamePredicate mergedProgress p =
     (if length mergedProgress = 0 then mergedProgress @ [p]
      else butlast mergedProgress @ mergeProgressWithSamePredicate (last mergedProgress) p)"

text \<open>
  The loops over the two indexes, for both kinds of merge: \<open>le\<close> decides which list is next,
  \<open>app\<close> adds an element to the result.
\<close>

fun merge_loop ::
  "(get_task_progress \<Rightarrow> get_task_progress \<Rightarrow> bool) \<Rightarrow>
   (get_task_progress list \<Rightarrow> get_task_progress \<Rightarrow> get_task_progress list) \<Rightarrow>
   get_task_progress list \<Rightarrow> get_task_progress list \<Rightarrow> get_task_progress list \<Rightarrow>
   get_task_progress list" where
  "merge_loop le app merged (l # ls) (r # rs) =
     (if le l r then merge_loop le app (app merged l) ls (r # rs)
      else merge_loop le app (app merged r) (l # ls) rs)"
| "merge_loop le app merged (l # ls) [] = merge_loop le app (app merged l) ls []"
| "merge_loop le app merged [] (r # rs) = merge_loop le app (app merged r) [] rs"
| "merge_loop le app merged [] [] = merged"

definition mergeGetTaskProgressWithSamePredicate ::
  "get_task_progress list \<Rightarrow> get_task_progress list \<Rightarrow> get_task_progress list" where
  "mergeGetTaskProgressWithSamePredicate left right =
     merge_loop (\<lambda>l r. Compare (InclusiveMinTaskKey l) (InclusiveMinTaskKey r) \<le> 0)
       appendOrMergeProgressWithSamePredicate [] left right"

definition mergeProgressWithDifferentPredicate ::
  "get_task_progress \<Rightarrow> get_task_progress \<Rightarrow> get_task_progress list" where
  "mergeProgressWithDifferentPredicate left right =
     (let (left, right) =
        (if Compare (NextTaskKey left) (NextTaskKey right) > 0
         then (right, left) else (left, right)) in
      if Compare (ExclusiveMaxTaskKey left) (NextTaskKey right) < 0 then
        [mk_progress (NextTaskKey left) (ExclusiveMaxTaskKey left),
         mk_progress (NextTaskKey right) (ExclusiveMaxTaskKey right)]
      else
        [mk_progress (NextTaskKey left)
           (MaxHistoryTaskKey (ExclusiveMaxTaskKey left) (ExclusiveMaxTaskKey right))])"

definition appendOrMergeProgressWithDifferentPredicate ::
  "get_task_progress list \<Rightarrow> get_task_progress \<Rightarrow> get_task_progress list" where
  "appendOrMergeProgressWithDifferentPredicate mergedProgress p =
     (if length mergedProgress = 0 then mergedProgress @ [p]
      else butlast mergedProgress @ mergeProgressWithDifferentPredicate (last mergedProgress) p)"

definition mergeGetTaskProgressWithDifferentPredicate ::
  "get_task_progress list \<Rightarrow> get_task_progress list \<Rightarrow> get_task_progress list" where
  "mergeGetTaskProgressWithDifferentPredicate left right =
     merge_loop (\<lambda>l r. Compare (NextTaskKey l) (NextTaskKey r) \<le> 0)
       appendOrMergeProgressWithDifferentPredicate [] left right"

definition mergeVirtualSlicesByRange :: "nat \<Rightarrow> vslice \<Rightarrow> vslice \<Rightarrow> vslice" where
  "mergeVirtualSlicesByRange n left right =
     (let (left, right) = (if Compare (vs_lo left) (vs_lo right) > 0 then (right, left) else (left, right))
      in \<lparr>sid = n,
          vs_state =
            \<lparr>ss_Range =
               \<lparr>InclusiveMinTaskKey = vs_lo left,
                ExclusiveMaxTaskKey = MaxHistoryTaskKey (vs_hi left) (vs_hi right)\<rparr>,
             ss_Predicate = vs_pred left\<rparr>,
          pendingTaskTracker =
            AddTasks (pendingTaskTracker left) (map snd (taskMap (pendingTaskTracker right))),
          progress = mergeGetTaskProgressWithSamePredicate (progress left) (progress right)\<rparr>)"

definition mergeVirtualSlicesByPredicate :: "nat \<Rightarrow> vslice \<Rightarrow> vslice \<Rightarrow> vslice" where
  "mergeVirtualSlicesByPredicate n this that =
     \<lparr>sid = n,
      vs_state =
        \<lparr>ss_Range = vs_range this, ss_Predicate = Or_pred (vs_pred this) (vs_pred that)\<rparr>,
      pendingTaskTracker =
        AddTasks (pendingTaskTracker this) (map snd (taskMap (pendingTaskTracker that))),
      progress = mergeGetTaskProgressWithDifferentPredicate (progress this) (progress that)\<rparr>"

text \<open>The result carries the next free address.\<close>

definition mergeVirtualSlicesWithDifferentPredicate ::
  "nat \<Rightarrow> vslice \<Rightarrow> vslice \<Rightarrow> (vslice list \<times> nat) option" where
  "mergeVirtualSlicesWithDifferentPredicate n this that =
     (let compareInclusiveMin = Compare (vs_lo this) (vs_lo that);
          (this, that) =
            (if compareInclusiveMin > 0 then (that, this)
             else if compareInclusiveMin = 0 then
               (if Compare (vs_hi this) (vs_hi that) > 0 then (that, this) else (this, that))
             else (this, that)) in
      if compareInclusiveMin = 0 then
        (case TrySplitByTaskKey n (vs_hi this) that of
           None \<Rightarrow> Some ([mergeVirtualSlicesByPredicate n this that], n + 1)
         | Some (thatLeft, thatRight) \<Rightarrow>
             Some ([mergeVirtualSlicesByPredicate (n + 2) this thatLeft, thatRight], n + 3))
      else
        (case TrySplitByTaskKey n (vs_lo that) this of
           None \<Rightarrow> None
         | Some (thisLeft, thisRight) \<Rightarrow>
             (case TrySplitByTaskKey (n + 2) (vs_hi this) that of
                None \<Rightarrow>
                  (case TrySplitByTaskKey (n + 2) (vs_hi that) thisRight of
                     None \<Rightarrow>
                       Some ([thisLeft, mergeVirtualSlicesByPredicate (n + 2) thisRight that], n + 3)
                   | Some (thisRightLeft, thisRightRight) \<Rightarrow>
                       Some ([thisLeft, mergeVirtualSlicesByPredicate (n + 4) thisRightLeft that,
                              thisRightRight], n + 5))
              | Some (thatLeft, thatRight) \<Rightarrow>
                  Some ([thisLeft, mergeVirtualSlicesByPredicate (n + 4) thisRight thatLeft,
                         thatRight], n + 5))))"

definition TryMergeWithVirtualSlice :: "nat \<Rightarrow> vslice \<Rightarrow> vslice \<Rightarrow> (vslice list \<times> nat) option" where
  "TryMergeWithVirtualSlice n s other =
     (if sid s = sid other \<or> \<not> CanMerge (vs_range s) (vs_range other) then None
      else if Equals (vs_pred s) (vs_pred other)
      then Some ([mergeVirtualSlicesByRange n s other], n + 1)
      else mergeVirtualSlicesWithDifferentPredicate n s other)"

section \<open>Merging two elements of the progress\<close>

definition elem_ok ::
  "(get_task_progress \<Rightarrow> bool) \<Rightarrow> htask_key \<Rightarrow> htask_key \<Rightarrow> htask_key \<Rightarrow> get_task_progress \<Rightarrow> bool" where
  "elem_ok pos_ok lo0 lo hi p \<longleftrightarrow>
     pos_ok p \<and> lo0 \<le> InclusiveMinTaskKey p \<and> lo \<le> NextTaskKey p \<and> ExclusiveMaxTaskKey p \<le> hi"

lemma same_cases:
  assumes "progress_wf x" "progress_wf p"
  obtains
    (before) "InclusiveMinTaskKey x \<le> InclusiveMinTaskKey p" "NextTaskKey x < InclusiveMinTaskKey p"
      "mergeProgressWithSamePredicate x p =
        [mk_progress (NextTaskKey x) (min (ExclusiveMaxTaskKey x) (InclusiveMinTaskKey p)),
         mk_progress (NextTaskKey p) (max (ExclusiveMaxTaskKey x) (ExclusiveMaxTaskKey p))]"
  | (after) "InclusiveMinTaskKey p < InclusiveMinTaskKey x" "NextTaskKey p < InclusiveMinTaskKey x"
      "mergeProgressWithSamePredicate x p =
        [mk_progress (NextTaskKey p) (min (ExclusiveMaxTaskKey p) (InclusiveMinTaskKey x)),
         mk_progress (NextTaskKey x) (max (ExclusiveMaxTaskKey x) (ExclusiveMaxTaskKey p))]"
  | (overlap) "InclusiveMinTaskKey p \<le> NextTaskKey x" "InclusiveMinTaskKey x \<le> NextTaskKey p"
      "mergeProgressWithSamePredicate x p =
        [mk_progress (max (NextTaskKey x) (NextTaskKey p))
           (max (ExclusiveMaxTaskKey x) (ExclusiveMaxTaskKey p))]"
proof -
  consider "InclusiveMinTaskKey x \<le> InclusiveMinTaskKey p" "NextTaskKey x < InclusiveMinTaskKey p"
    | "InclusiveMinTaskKey x \<le> InclusiveMinTaskKey p" "InclusiveMinTaskKey p \<le> NextTaskKey x"
    | "InclusiveMinTaskKey p < InclusiveMinTaskKey x" "NextTaskKey p < InclusiveMinTaskKey x"
    | "InclusiveMinTaskKey p < InclusiveMinTaskKey x" "InclusiveMinTaskKey x \<le> NextTaskKey p"
    by force
  then show ?thesis
  proof cases
    case 1
    then have "max (NextTaskKey x) (NextTaskKey p) = NextTaskKey p"
      using assms(2) by (auto simp: progress_wf_def max_def)
    then show ?thesis using 1
      by (intro before) (auto simp: mergeProgressWithSamePredicate_def mk_progress_def)
  next
    case 2
    then show ?thesis using assms
      by (intro overlap) (auto simp: mergeProgressWithSamePredicate_def mk_progress_def progress_wf_def)
  next
    case 3
    then have "max (NextTaskKey p) (NextTaskKey x) = NextTaskKey x"
      using assms(1) by (auto simp: progress_wf_def max_def)
    then show ?thesis using 3
      by (intro after) (auto simp: mergeProgressWithSamePredicate_def mk_progress_def max.commute)
  next
    case 4
    then show ?thesis using assms
      by (intro overlap)
        (auto simp: mergeProgressWithSamePredicate_def mk_progress_def progress_wf_def max.commute)
  qed
qed

lemma same_pair:
  assumes "progress_wf x" "progress_wf p"
  defines "out \<equiv> mergeProgressWithSamePredicate x p"
  shows "unread [x] \<union> unread [p] \<subseteq> unread out \<union> already_read [x] \<union> already_read [p]"
    "unread out \<subseteq> unread [x] \<union> unread [p]" "already_read out = {}" "progress_ok out" "out \<noteq> []"
  using assms
  by (cases rule: same_cases [OF assms(1,2)];
      auto simp: progress_ok_Cons progress_wf_def min_le_iff_disj less_max_iff_disj le_max_iff_disj)+

lemma same_elem:
  assumes "reader_keys key_ok pos_ok" "progress_wf x" "progress_wf p"
    "elem_ok pos_ok lo0 lo hi x" "elem_ok pos_ok lo0 lo hi p"
    "m \<in> set (mergeProgressWithSamePredicate x p)"
  shows "elem_ok pos_ok lo0 lo hi m"
proof -
  have k: "key_ok (NextTaskKey x)" "key_ok (NextTaskKey p)" "key_ok (ExclusiveMaxTaskKey x)"
    "key_ok (ExclusiveMaxTaskKey p)" "key_ok (InclusiveMinTaskKey x)" "key_ok (InclusiveMinTaskKey p)"
    using assms(1,4,5) by (auto simp: reader_keys_def elem_ok_def)
  have b: "lo0 \<le> NextTaskKey x" "lo0 \<le> NextTaskKey p"
    using assms(2-5) by (auto simp: progress_wf_def elem_ok_def)
  have mm: "key_ok (min a c)" "key_ok (max a c)" if "key_ok a" "key_ok c" for a c
    using that by (simp_all add: min_def max_def)
  have mk: "elem_ok pos_ok lo0 lo hi (mk_progress a c)"
    if "key_ok a" "key_ok c" "lo0 \<le> a" "lo \<le> a" "c \<le> hi" for a c
    using assms(1) that by (simp add: reader_keys_def elem_ok_def)
  have h: "lo \<le> NextTaskKey x" "lo \<le> NextTaskKey p" "ExclusiveMaxTaskKey x \<le> hi" "ExclusiveMaxTaskKey p \<le> hi"
    using assms(4,5) by (simp_all add: elem_ok_def)
  show ?thesis
  proof (cases rule: same_cases [OF assms(2,3)])
    case 1
    then consider "m = mk_progress (NextTaskKey x) (min (ExclusiveMaxTaskKey x) (InclusiveMinTaskKey p))"
      | "m = mk_progress (NextTaskKey p) (max (ExclusiveMaxTaskKey x) (ExclusiveMaxTaskKey p))"
      using assms(6) by auto
    then show ?thesis using k mm b h by cases (simp_all add: mk min.coboundedI1)
  next
    case 2
    then consider "m = mk_progress (NextTaskKey p) (min (ExclusiveMaxTaskKey p) (InclusiveMinTaskKey x))"
      | "m = mk_progress (NextTaskKey x) (max (ExclusiveMaxTaskKey x) (ExclusiveMaxTaskKey p))"
      using assms(6) by auto
    then show ?thesis using k mm b h by cases (simp_all add: mk min.coboundedI1)
  next
    case 3
    then have "m = mk_progress (max (NextTaskKey x) (NextTaskKey p))
        (max (ExclusiveMaxTaskKey x) (ExclusiveMaxTaskKey p))"
      using assms(6) by simp
    then show ?thesis using k mm b h by (simp add: mk max.coboundedI1)
  qed
qed

text \<open>
  The state of the loop: the result \<open>acc\<close> so far and the rests \<open>A\<close> and \<open>B\<close> of the two lists.
  The position of the last element is below everything that is left of one of the lists, and
  the elements before it end below everything that is left of both.
\<close>

definition same_inv ::
  "get_task_progress list \<Rightarrow> get_task_progress list \<Rightarrow> get_task_progress list \<Rightarrow> bool" where
  "same_inv acc A B \<longleftrightarrow> progress_ok acc \<and> progress_ok A \<and> progress_ok B \<and>
     (\<forall>m \<in> set (butlast acc). \<forall>q \<in> set A \<union> set B. ExclusiveMaxTaskKey m \<le> InclusiveMinTaskKey q) \<and>
     (acc \<noteq> [] \<longrightarrow> (\<forall>q \<in> set A. NextTaskKey (last acc) \<le> InclusiveMinTaskKey q) \<or>
        (\<forall>q \<in> set B. NextTaskKey (last acc) \<le> InclusiveMinTaskKey q))"

lemma same_inv_sym: "same_inv acc A B \<longleftrightarrow> same_inv acc B A"
  by (auto simp: same_inv_def)

lemma same_inv_step:
  assumes inv: "same_inv acc (p # A) B"
    and least: "\<forall>q \<in> set A \<union> set B. InclusiveMinTaskKey p \<le> InclusiveMinTaskKey q"
  shows "same_inv (appendOrMergeProgressWithSamePredicate acc p) A B"
proof -
  have pA: "progress_wf p" "progress_ok A" "progress_ok B"
    "\<forall>q \<in> set A. ExclusiveMaxTaskKey p \<le> InclusiveMinTaskKey q"
    using inv by (auto simp: same_inv_def progress_ok_Cons)
  have nA: "\<forall>q \<in> set A. NextTaskKey p \<le> InclusiveMinTaskKey q"
    using pA(1,4) by (force simp: progress_wf_def)
  show ?thesis
  proof (cases "acc = []")
    case True
    then show ?thesis
      using pA nA by (simp add: same_inv_def appendOrMergeProgressWithSamePredicate_def progress_ok_Cons)
  next
    case False
    define x where "x = last acc"
    define ini where "ini = butlast acc"
    have acc: "acc = ini @ [x]" using False by (simp add: x_def ini_def)
    have ini: "progress_ok ini" "\<forall>m \<in> set ini. ExclusiveMaxTaskKey m \<le> InclusiveMinTaskKey x"
      "\<forall>m \<in> set ini. \<forall>q \<in> set (p # A) \<union> set B. ExclusiveMaxTaskKey m \<le> InclusiveMinTaskKey q"
      and x: "progress_wf x"
      using inv by (auto simp: same_inv_def acc progress_ok_append progress_ok_Cons)
    have alt: "(\<forall>q \<in> set (p # A). NextTaskKey x \<le> InclusiveMinTaskKey q) \<or>
        (\<forall>q \<in> set B. NextTaskKey x \<le> InclusiveMinTaskKey q)"
      using inv by (simp add: same_inv_def acc)
    have app: "appendOrMergeProgressWithSamePredicate acc p = ini @ mergeProgressWithSamePredicate x p"
      by (simp add: appendOrMergeProgressWithSamePredicate_def acc)
    have wf: "InclusiveMinTaskKey x \<le> NextTaskKey x" "InclusiveMinTaskKey p \<le> NextTaskKey p"
      using x pA(1) by (simp_all add: progress_wf_def)
    note pair = same_pair(4) [OF x pA(1)]
    show ?thesis
    proof (cases rule: same_cases [OF x pA(1)])
      case 1
      then have "\<forall>m \<in> set ini. ExclusiveMaxTaskKey m \<le> NextTaskKey x \<and> ExclusiveMaxTaskKey m \<le> NextTaskKey p"
        using ini(2,3) wf by force
      then show ?thesis
        unfolding same_inv_def app
        using pA ini nA pair 1 least
        by (auto simp: progress_ok_append butlast_append min_le_iff_disj)
    next
      case 2
      have "\<forall>q \<in> set B. InclusiveMinTaskKey x \<le> InclusiveMinTaskKey q"
        "\<forall>q \<in> set B. NextTaskKey x \<le> InclusiveMinTaskKey q"
        using alt wf 2 by force+
      moreover have "\<forall>m \<in> set ini. ExclusiveMaxTaskKey m \<le> NextTaskKey x \<and> ExclusiveMaxTaskKey m \<le> NextTaskKey p"
        using ini(2,3) wf by force
      ultimately show ?thesis
        unfolding same_inv_def app
        using pA ini pair 2
        by (auto simp: progress_ok_append butlast_append min_le_iff_disj)
    next
      case 3
      have "\<forall>m \<in> set ini. ExclusiveMaxTaskKey m \<le> max (NextTaskKey x) (NextTaskKey p)"
        using ini(3) wf by (force simp: le_max_iff_disj)
      moreover have "(\<forall>q \<in> set A. max (NextTaskKey x) (NextTaskKey p) \<le> InclusiveMinTaskKey q) \<or>
          (\<forall>q \<in> set B. max (NextTaskKey x) (NextTaskKey p) \<le> InclusiveMinTaskKey q)"
        using alt nA by (auto simp: max_def)
      ultimately show ?thesis
        unfolding same_inv_def app
        using pA ini pair 3
        by (auto simp: progress_ok_append butlast_append)
    qed
  qed
qed

text \<open>What a merge of progress lists does with what is unread and what was read.\<close>

definition merge_covers ::
  "get_task_progress list \<Rightarrow> get_task_progress list \<Rightarrow> get_task_progress list \<Rightarrow> bool" where
  "merge_covers ps qs out \<longleftrightarrow>
     unread ps \<union> unread qs \<subseteq> unread out \<union> already_read ps \<union> already_read qs \<and>
     unread out \<subseteq> unread ps \<union> unread qs \<and> already_read out \<subseteq> already_read ps \<union> already_read qs"

lemma app_same:
  assumes "progress_ok acc" "progress_wf p"
  shows "merge_covers acc [p] (appendOrMergeProgressWithSamePredicate acc p)"
proof (cases "acc = []")
  case False
  define x where "x = last acc"
  define ini where "ini = butlast acc"
  have acc: "acc = ini @ [x]" using False by (simp add: x_def ini_def)
  then have x: "progress_wf x" using assms(1) by (simp add: progress_ok_append progress_ok_Cons)
  have app: "appendOrMergeProgressWithSamePredicate (ini @ [x]) p =
      ini @ mergeProgressWithSamePredicate x p"
    by (simp add: appendOrMergeProgressWithSamePredicate_def)
  show ?thesis
    unfolding merge_covers_def acc app unread_simps(3) already_read_simps(3)
    using same_pair [OF x assms(2)] by blast
qed (simp add: appendOrMergeProgressWithSamePredicate_def merge_covers_def)

lemma app_same_elem:
  assumes "reader_keys key_ok pos_ok" "progress_ok acc" "progress_wf p"
    "\<forall>m \<in> set acc. elem_ok pos_ok lo0 lo hi m" "elem_ok pos_ok lo0 lo hi p"
    "m \<in> set (appendOrMergeProgressWithSamePredicate acc p)"
  shows "elem_ok pos_ok lo0 lo hi m"
proof (cases "acc = []")
  case False
  then have "last acc \<in> set acc" by simp
  then have "progress_wf (last acc)" "elem_ok pos_ok lo0 lo hi (last acc)"
    using assms(2,4) by (auto simp: progress_ok_def)
  then show ?thesis
    using assms False same_elem [OF assms(1) _ assms(3) _ assms(5)]
    by (auto simp: appendOrMergeProgressWithSamePredicate_def dest: in_set_butlastD)
qed (use assms in \<open>simp add: appendOrMergeProgressWithSamePredicate_def\<close>)

lemma progress_ok_sorted_lo:
  "progress_ok (p # ps) \<Longrightarrow> q \<in> set ps \<Longrightarrow> InclusiveMinTaskKey p \<le> InclusiveMinTaskKey q"
  by (fastforce simp: progress_ok_Cons progress_wf_def)

lemma merge_covers_step:
  assumes "merge_covers acc [p] acc'" "merge_covers acc' (A @ B) out"
  shows "merge_covers acc (p # A @ B) out"
  using assms unfolding merge_covers_def unread_simps already_read_simps by blast

abbreviation same_le :: "get_task_progress \<Rightarrow> get_task_progress \<Rightarrow> bool" where
  "same_le l r \<equiv> Compare (InclusiveMinTaskKey l) (InclusiveMinTaskKey r) \<le> 0"

lemma merge_loop_same:
  assumes "reader_keys key_ok pos_ok" "same_inv acc A B"
    "\<forall>m \<in> set acc \<union> set A \<union> set B. elem_ok pos_ok lo0 lo hi m"
  defines "out \<equiv> merge_loop same_le appendOrMergeProgressWithSamePredicate acc A B"
  shows "progress_ok out \<and> merge_covers acc (A @ B) out \<and> (\<forall>m \<in> set out. elem_ok pos_ok lo0 lo hi m)"
  using assms(2,3) unfolding out_def
proof (induction same_le appendOrMergeProgressWithSamePredicate acc A B rule: merge_loop.induct)
  case (1 acc l ls r rs)
  have wf: "progress_ok acc" "progress_wf l" "progress_wf r" "progress_ok (l # ls)" "progress_ok (r # rs)"
    using 1(3) by (auto simp: same_inv_def progress_ok_Cons)
  show ?case
  proof (cases "same_le l r")
    case True
    then have "\<forall>q \<in> set ls \<union> set (r # rs). InclusiveMinTaskKey l \<le> InclusiveMinTaskKey q"
      using progress_ok_sorted_lo [OF wf(4)] progress_ok_sorted_lo [OF wf(5)] by force
    note st = same_inv_step [OF 1(3) this]
    have "\<forall>m \<in> set (appendOrMergeProgressWithSamePredicate acc l) \<union> set ls \<union> set (r # rs).
        elem_ok pos_ok lo0 lo hi m"
      using 1(4) app_same_elem [OF assms(1) wf(1,2)] by simp blast
    from 1(1) [OF True st this] show ?thesis
      using True merge_covers_step [OF app_same [OF wf(1,2)], of ls "r # rs"] by simp
  next
    case False
    then have "\<forall>q \<in> set rs \<union> set (l # ls). InclusiveMinTaskKey r \<le> InclusiveMinTaskKey q"
      using progress_ok_sorted_lo [OF wf(4)] progress_ok_sorted_lo [OF wf(5)] by force
    note st = same_inv_step [OF 1(3) [THEN same_inv_sym [THEN iffD1]] this, THEN same_inv_sym [THEN iffD1]]
    have sw: "merge_covers acc ((l # ls) @ r # rs) out" if "merge_covers acc (r # (l # ls) @ rs) out" for out
      using that unfolding merge_covers_def unread_simps already_read_simps by blast
    have el: "\<forall>m \<in> set (appendOrMergeProgressWithSamePredicate acc r) \<union> set (l # ls) \<union> set rs.
        elem_ok pos_ok lo0 lo hi m"
      using 1(4) app_same_elem [OF assms(1) wf(1,3)] by simp blast
    note IH = 1(2) [OF False st el]
    have "merge_covers acc ((l # ls) @ r # rs)
        (merge_loop same_le appendOrMergeProgressWithSamePredicate
          (appendOrMergeProgressWithSamePredicate acc r) (l # ls) rs)"
      by (rule sw, rule merge_covers_step [OF app_same [OF wf(1,3)]]) (use IH in blast)
    then show ?thesis using IH False by simp
  qed
next
  case (2 acc l ls)
  have wf: "progress_ok acc" "progress_wf l" "progress_ok (l # ls)"
    using 2(2) by (auto simp: same_inv_def progress_ok_Cons)
  then have "\<forall>q \<in> set ls \<union> set []. InclusiveMinTaskKey l \<le> InclusiveMinTaskKey q"
    using progress_ok_sorted_lo by auto
  note st = same_inv_step [OF 2(2) this]
  have "\<forall>m \<in> set (appendOrMergeProgressWithSamePredicate acc l) \<union> set ls \<union> set [].
      elem_ok pos_ok lo0 lo hi m"
    using 2(3) app_same_elem [OF assms(1) wf(1,2)] by simp blast
  from 2(1) [OF st this] show ?case
    using merge_covers_step [OF app_same [OF wf(1,2)], of ls "[]"] by simp
next
  case (3 acc r rs)
  have wf: "progress_ok acc" "progress_wf r" "progress_ok (r # rs)"
    using 3(2) by (auto simp: same_inv_def progress_ok_Cons)
  then have "\<forall>q \<in> set rs \<union> set []. InclusiveMinTaskKey r \<le> InclusiveMinTaskKey q"
    using progress_ok_sorted_lo by auto
  note st = same_inv_step [OF 3(2) [THEN same_inv_sym [THEN iffD1]] this, THEN same_inv_sym [THEN iffD1]]
  have "\<forall>m \<in> set (appendOrMergeProgressWithSamePredicate acc r) \<union> set [] \<union> set rs.
      elem_ok pos_ok lo0 lo hi m"
    using 3(3) app_same_elem [OF assms(1) wf(1,2)] by simp blast
  from 3(1) [OF st this] show ?case
    using merge_covers_step [OF app_same [OF wf(1,2)], of "[]" rs] by simp
next
  case (4 acc)
  then show ?case by (simp add: same_inv_def merge_covers_def)
qed

text \<open>Two progress lists that are sorted without overlaps are merged to such a list.\<close>

lemma merge_same_lists:
  assumes "reader_keys key_ok pos_ok" "progress_ok ps" "progress_ok qs"
    "\<forall>m \<in> set ps \<union> set qs. elem_ok pos_ok lo0 lo hi m"
  defines "out \<equiv> mergeGetTaskProgressWithSamePredicate ps qs"
  shows "progress_ok out" "merge_covers ps qs out" "\<forall>m \<in> set out. elem_ok pos_ok lo0 lo hi m"
proof -
  have "same_inv [] ps qs" using assms(2,3) by (simp add: same_inv_def)
  from merge_loop_same [OF assms(1) this] assms(4)
  have *: "progress_ok out \<and> merge_covers [] (ps @ qs) out \<and> (\<forall>m \<in> set out. elem_ok pos_ok lo0 lo hi m)"
    by (simp add: out_def mergeGetTaskProgressWithSamePredicate_def)
  then show "progress_ok out" "\<forall>m \<in> set out. elem_ok pos_ok lo0 lo hi m" by simp_all
  show "merge_covers ps qs out" using * by (auto simp: merge_covers_def)
qed

section \<open>Merging progress with different predicates\<close>

lemma diff_pair:
  assumes "progress_wf x" "progress_wf p" "NextTaskKey x \<le> NextTaskKey p"
  shows "mergeProgressWithDifferentPredicate x p =
    (if ExclusiveMaxTaskKey x < NextTaskKey p
     then [mk_progress (NextTaskKey x) (ExclusiveMaxTaskKey x),
           mk_progress (NextTaskKey p) (ExclusiveMaxTaskKey p)]
     else [mk_progress (NextTaskKey x) (max (ExclusiveMaxTaskKey x) (ExclusiveMaxTaskKey p))])"
  using assms by (auto simp: mergeProgressWithDifferentPredicate_def)

lemma diff_pair_facts:
  assumes "progress_wf x" "progress_wf p" "NextTaskKey x \<le> NextTaskKey p"
  defines "out \<equiv> mergeProgressWithDifferentPredicate x p"
  shows "unread out = unread [x] \<union> unread [p]" "already_read out = {}" "progress_ok out"
    "out \<noteq> []" "NextTaskKey (last out) \<le> NextTaskKey p" "\<forall>m \<in> set out. NextTaskKey x \<le> InclusiveMinTaskKey m"
  unfolding out_def diff_pair [OF assms(1-3)]
  using assms(1-3)
  by (auto simp: progress_ok_Cons progress_wf_def less_max_iff_disj le_max_iff_disj)

lemma diff_elem:
  assumes "reader_keys key_ok pos_ok" "progress_wf x" "progress_wf p" "NextTaskKey x \<le> NextTaskKey p"
    "elem_ok pos_ok lo0 lo hi x" "elem_ok pos_ok lo0 lo hi p"
    "m \<in> set (mergeProgressWithDifferentPredicate x p)"
  shows "elem_ok pos_ok lo0 lo hi m"
proof -
  have k: "key_ok (NextTaskKey x)" "key_ok (NextTaskKey p)" "key_ok (ExclusiveMaxTaskKey x)"
    "key_ok (ExclusiveMaxTaskKey p)"
    using assms(1,5,6) by (auto simp: reader_keys_def elem_ok_def)
  then have mx: "key_ok (max (ExclusiveMaxTaskKey x) (ExclusiveMaxTaskKey p))"
    by (simp add: max_def)
  have b: "lo0 \<le> NextTaskKey x" "lo0 \<le> NextTaskKey p" "lo \<le> NextTaskKey x" "lo \<le> NextTaskKey p"
    "ExclusiveMaxTaskKey x \<le> hi" "ExclusiveMaxTaskKey p \<le> hi"
    using assms(2-6) by (auto simp: progress_wf_def elem_ok_def)
  have mk: "elem_ok pos_ok lo0 lo hi (mk_progress a c)"
    if "key_ok a" "key_ok c" "lo0 \<le> a" "lo \<le> a" "c \<le> hi" for a c
    using assms(1) that by (simp add: reader_keys_def elem_ok_def)
  show ?thesis
    using assms(7) k mx b unfolding diff_pair [OF assms(2-4)]
    by (auto simp: mk split: if_splits)
qed

abbreviation diff_le :: "get_task_progress \<Rightarrow> get_task_progress \<Rightarrow> bool" where
  "diff_le l r \<equiv> Compare (NextTaskKey l) (NextTaskKey r) \<le> 0"

definition diff_inv ::
  "get_task_progress list \<Rightarrow> get_task_progress list \<Rightarrow> bool" where
  "diff_inv acc R \<longleftrightarrow> progress_ok acc \<and>
     (acc \<noteq> [] \<longrightarrow> (\<forall>q \<in> set R. NextTaskKey (last acc) \<le> NextTaskKey q))"

text \<open>One more element, whose position is not below those before it.\<close>

lemma app_diff:
  assumes "diff_inv acc R" "p \<in> set R" "progress_wf p"
  defines "out \<equiv> appendOrMergeProgressWithDifferentPredicate acc p"
  shows "progress_ok out" "unread out = unread acc \<union> unread [p]" "out \<noteq> []"
    "NextTaskKey (last out) \<le> NextTaskKey p"
    "already_read out \<subseteq> already_read acc \<union> already_read [p]"
    "length acc = 1 \<or> already_read acc = {} \<and> acc \<noteq> [] \<Longrightarrow> already_read out = {}"
proof -
  have *: "progress_ok out \<and> unread out = unread acc \<union> unread [p] \<and> out \<noteq> [] \<and>
    NextTaskKey (last out) \<le> NextTaskKey p \<and> already_read out \<subseteq> already_read acc \<union> already_read [p] \<and>
    (length acc = 1 \<or> already_read acc = {} \<and> acc \<noteq> [] \<longrightarrow> already_read out = {})"
  proof (cases "acc = []")
    case True
    then show ?thesis
      using assms(3) by (simp add: out_def appendOrMergeProgressWithDifferentPredicate_def progress_ok_Cons)
  next
    case False
    define x where "x = last acc"
    define ini where "ini = butlast acc"
    have acc: "acc = ini @ [x]" using False by (simp add: x_def ini_def)
    have x: "progress_wf x" "progress_ok ini" "\<forall>m \<in> set ini. ExclusiveMaxTaskKey m \<le> InclusiveMinTaskKey x"
      "NextTaskKey x \<le> NextTaskKey p"
      using assms(1,2) by (auto simp: diff_inv_def acc progress_ok_append progress_ok_Cons)
    note f = diff_pair_facts [OF x(1) assms(3) x(4)]
    have out: "out = ini @ mergeProgressWithDifferentPredicate x p"
      by (simp add: out_def appendOrMergeProgressWithDifferentPredicate_def acc)
    have "\<forall>m \<in> set ini. \<forall>q \<in> set (mergeProgressWithDifferentPredicate x p).
        ExclusiveMaxTaskKey m \<le> InclusiveMinTaskKey q"
      using x(1,3) f(6) by (meson order_trans progress_wf_def)
    then show ?thesis
      unfolding out acc using f x(2) by (auto simp: progress_ok_append)
  qed
  then show "progress_ok out" "unread out = unread acc \<union> unread [p]" "out \<noteq> []"
    "NextTaskKey (last out) \<le> NextTaskKey p"
    "already_read out \<subseteq> already_read acc \<union> already_read [p]"
    "length acc = 1 \<or> already_read acc = {} \<and> acc \<noteq> [] \<Longrightarrow> already_read out = {}"
    by blast+
qed

lemma app_diff_elem:
  assumes "reader_keys key_ok pos_ok" "diff_inv acc R" "p \<in> set R" "progress_wf p"
    "\<forall>m \<in> set acc. elem_ok pos_ok lo0 lo hi m" "elem_ok pos_ok lo0 lo hi p"
    "m \<in> set (appendOrMergeProgressWithDifferentPredicate acc p)"
  shows "elem_ok pos_ok lo0 lo hi m"
proof (cases "acc = []")
  case False
  then have "last acc \<in> set acc" by simp
  then have x: "progress_wf (last acc)" "NextTaskKey (last acc) \<le> NextTaskKey p"
      "elem_ok pos_ok lo0 lo hi (last acc)"
    using assms(2,3,5) False by (auto simp: progress_ok_def diff_inv_def)
  have "m \<in> set (butlast acc) \<or> m \<in> set (mergeProgressWithDifferentPredicate (last acc) p)"
    using assms(7) False by (simp add: appendOrMergeProgressWithDifferentPredicate_def)
  then show ?thesis
    using assms(5) diff_elem [OF assms(1) x(1) assms(4) x(2,3) assms(6)] in_set_butlastD by fast
qed (use assms in \<open>simp add: appendOrMergeProgressWithDifferentPredicate_def\<close>)

text \<open>The loop: the result of the merge is the sorted union of what is unread.\<close>

definition diff_result ::
  "get_task_progress list \<Rightarrow> get_task_progress list \<Rightarrow> get_task_progress list \<Rightarrow> bool" where
  "diff_result acc R out \<longleftrightarrow> progress_ok out \<and> unread out = unread acc \<union> unread R \<and>
     already_read out \<subseteq> already_read acc \<union> already_read R \<and>
     (length acc = 1 \<and> R \<noteq> [] \<or> already_read acc = {} \<and> acc \<noteq> [] \<longrightarrow> already_read out = {})"

lemma diff_step:
  assumes inv: "diff_inv acc (p # R)" "progress_wf p" "\<forall>q \<in> set R. NextTaskKey p \<le> NextTaskKey q"
  defines "acc' \<equiv> appendOrMergeProgressWithDifferentPredicate acc p"
  shows "diff_inv acc' R" "diff_result acc' R out \<Longrightarrow> diff_result acc (p # R) out"
proof -
  have p: "p \<in> set (p # R)" by simp
  note f = app_diff [OF inv(1) p inv(2), folded acc'_def]
  show "diff_inv acc' R"
    using f(1,3,4) inv(3) by (auto simp: diff_inv_def)
  show "diff_result acc (p # R) out" if r: "diff_result acc' R out"
    using r f(2,3,5,6) by (auto simp: diff_result_def)
qed

lemma diff_result_cong:
  "set R = set S \<Longrightarrow> diff_result acc R out \<longleftrightarrow> diff_result acc S out"
  by (auto simp: diff_result_def unread_def already_read_def)

lemma diff_inv_cong: "set R = set S \<Longrightarrow> diff_inv acc R \<longleftrightarrow> diff_inv acc S"
  by (simp add: diff_inv_def)

lemma progress_ok_sorted_next:
  "progress_ok (p # ps) \<Longrightarrow> q \<in> set ps \<Longrightarrow> NextTaskKey p \<le> NextTaskKey q"
  using progress_ok_hd_least [of "p # ps" q] by simp

end
