(* ===== verification/Slice_Merge_Inv.thy ===== *)
theory Slice_Merge_Inv
  imports Slice_Merge
begin

text \<open>
  Merging keeps the invariant of the slices: every task that is to be processed and belongs to
  one of the two slices belongs to one of the results, and is tracked or unread there. The
  results are ordered by range and do not overlap.
\<close>

section \<open>Different predicates: the loop\<close>

lemma merge_loop_diff:
  assumes "reader_keys key_ok pos_ok" "diff_inv acc (A @ B)" "progress_ok A" "progress_ok B"
    "\<forall>m \<in> set acc \<union> set A \<union> set B. elem_ok pos_ok lo0 lo hi m"
  defines "out \<equiv> merge_loop diff_le appendOrMergeProgressWithDifferentPredicate acc A B"
  shows "diff_result acc (A @ B) out \<and> (\<forall>m \<in> set out. elem_ok pos_ok lo0 lo hi m)"
  using assms(2-5) unfolding out_def
proof (induction diff_le appendOrMergeProgressWithDifferentPredicate acc A B rule: merge_loop.induct)
  case (1 acc l ls r rs)
  have wf: "progress_wf l" "progress_wf r" "progress_ok ls" "progress_ok rs"
    using 1(4,5) by (auto simp: progress_ok_Cons)
  note sl = progress_ok_sorted_next [OF 1(4)] and sr = progress_ok_sorted_next [OF 1(5)]
  show ?case
  proof (cases "diff_le l r")
    case True
    then have least: "\<forall>q \<in> set (ls @ r # rs). NextTaskKey l \<le> NextTaskKey q"
      using sl sr by force
    have inv: "diff_inv acc (l # ls @ r # rs)" using 1(3) by simp
    note st = diff_step [OF inv wf(1) least]
    have el: "\<forall>m \<in> set (appendOrMergeProgressWithDifferentPredicate acc l) \<union> set ls \<union> set (r # rs).
        elem_ok pos_ok lo0 lo hi m"
      using 1(6) app_diff_elem [OF assms(1) inv _ wf(1)] by simp blast
    from 1(1) [OF True st(1) wf(3) 1(5) el] st(2) show ?thesis
      using True by simp
  next
    case False
    then have least: "\<forall>q \<in> set ((l # ls) @ rs). NextTaskKey r \<le> NextTaskKey q"
      using sl sr by force
    have inv: "diff_inv acc (r # (l # ls) @ rs)"
      using 1(3) by (subst diff_inv_cong [where S = "(l # ls) @ r # rs"]) auto
    note st = diff_step [OF inv wf(2) least]
    have el: "\<forall>m \<in> set (appendOrMergeProgressWithDifferentPredicate acc r) \<union> set (l # ls) \<union> set rs.
        elem_ok pos_ok lo0 lo hi m"
      using 1(6) app_diff_elem [OF assms(1) inv _ wf(2)] by simp blast
    note IH = 1(2) [OF False st(1) 1(4) wf(4) el]
    have "diff_result acc ((l # ls) @ r # rs)
        (merge_loop diff_le appendOrMergeProgressWithDifferentPredicate
          (appendOrMergeProgressWithDifferentPredicate acc r) (l # ls) rs)"
      using st(2) [OF IH [THEN conjunct1]]
      by (subst diff_result_cong [where S = "r # (l # ls) @ rs"]) auto
    then show ?thesis using IH False by simp
  qed
next
  case (2 acc l ls)
  have wf: "progress_wf l" "progress_ok ls" using 2(3) by (auto simp: progress_ok_Cons)
  have inv: "diff_inv acc (l # ls @ [])" using 2(2) by simp
  have least: "\<forall>q \<in> set (ls @ []). NextTaskKey l \<le> NextTaskKey q"
    using progress_ok_sorted_next [OF 2(3)] by simp
  note st = diff_step [OF inv wf(1) least]
  have el: "\<forall>m \<in> set (appendOrMergeProgressWithDifferentPredicate acc l) \<union> set ls \<union> set [].
      elem_ok pos_ok lo0 lo hi m"
    using 2(5) app_diff_elem [OF assms(1) inv _ wf(1)] by simp blast
  from 2(1) [OF st(1) wf(2) _ el] st(2) show ?case by simp
next
  case (3 acc r rs)
  have wf: "progress_wf r" "progress_ok rs" using 3(4) by (auto simp: progress_ok_Cons)
  have inv: "diff_inv acc (r # [] @ rs)" using 3(2) by simp
  have least: "\<forall>q \<in> set ([] @ rs). NextTaskKey r \<le> NextTaskKey q"
    using progress_ok_sorted_next [OF 3(4)] by simp
  note st = diff_step [OF inv wf(1) least]
  have el: "\<forall>m \<in> set (appendOrMergeProgressWithDifferentPredicate acc r) \<union> set [] \<union> set rs.
      elem_ok pos_ok lo0 lo hi m"
    using 3(5) app_diff_elem [OF assms(1) inv _ wf(1)] by simp blast
  from 3(1) [OF st(1) _ wf(2) el] st(2) show ?case by simp
next
  case (4 acc)
  then show ?case by (simp add: diff_inv_def diff_result_def)
qed

lemma merge_diff_lists:
  assumes rk: "reader_keys key_ok pos_ok" and ok: "progress_ok ps" "progress_ok qs"
    and el: "\<forall>m \<in> set ps \<union> set qs. elem_ok pos_ok lo0 lo hi m"
  defines "out \<equiv> mergeGetTaskProgressWithDifferentPredicate ps qs"
  shows "progress_ok out" "unread out = unread ps \<union> unread qs"
    "\<forall>m \<in> set out. elem_ok pos_ok lo0 lo hi m"
    "already_read out \<subseteq> already_read ps \<union> already_read qs"
proof -
  have inv: "diff_inv [] (ps @ qs)" by (simp add: diff_inv_def)
  have *: "diff_result [] (ps @ qs) out \<and> (\<forall>m \<in> set out. elem_ok pos_ok lo0 lo hi m)"
    using merge_loop_diff [OF rk inv ok] el
    by (simp add: out_def mergeGetTaskProgressWithDifferentPredicate_def)
  then show "progress_ok out" "unread out = unread ps \<union> unread qs"
    "\<forall>m \<in> set out. elem_ok pos_ok lo0 lo hi m"
    "already_read out \<subseteq> already_read ps \<union> already_read qs"
    by (auto simp: diff_result_def)
qed

section \<open>Merging the tracked tasks\<close>

lemma tracked_AddTasks_taskMap:
  assumes "tracker_wf r"
  shows "tracked (AddTasks l (map snd (taskMap r))) = tracked l ++ tracked r"
proof -
  have "map (\<lambda>t. (ht_key t, t)) (map snd (taskMap r)) = map (\<lambda>x. x) (taskMap r)"
    unfolding map_map using assms by (intro map_cong refl) (auto simp: tracker_wf_def)
  then have "map_of (rev (map (\<lambda>t. (ht_key t, t)) (map snd (taskMap r)))) = tracked r"
    using map_of_inject_set [of "rev (taskMap r)" "taskMap r"] tracker_wf_gm_wf [OF assms]
    by (simp add: rev_map [symmetric] tracked_def)
  then show ?thesis
    unfolding AddTasks_add_all tk.tasks_add_all by simp
qed

lemma tracker_wf_AddTasks_taskMap:
  assumes "tracker_wf l" "tracker_wf r"
  shows "tracker_wf (AddTasks l (map snd (taskMap r)))"
  by (rule tracker_wf_AddTasks [OF assms(1)]) (use assms(2) in \<open>auto simp: tracker_wf_def\<close>)

lemma lower_bound_exists: "\<exists>b :: 'b :: linorder. \<forall>p \<in> set ps. b \<le> f p"
proof (induction ps)
  case (Cons p ps)
  then obtain b where "\<forall>q \<in> set ps. b \<le> f q" by blast
  then have "\<forall>q \<in> set (p # ps). min b (f p) \<le> f q" by (auto simp: min_le_iff_disj)
  then show ?case by blast
qed simp

lemma slice_elem_ok:
  assumes "slice_shape key_ok pos_ok s" "lo \<le> vs_lo s" "vs_hi s \<le> hi"
    "\<forall>p \<in> set (progress s). b \<le> InclusiveMinTaskKey p"
  shows "\<forall>p \<in> set (progress s). elem_ok pos_ok b lo hi p"
  using assms by (force simp: slice_shape_def elem_ok_def)

text \<open>The tracked tasks of a slice that holds those of two others.\<close>

lemma slice_tasks_union:
  assumes "slice_tasks key_ok todo l" "slice_tasks key_ok todo r"
    and tr: "vs_tracked m = vs_tracked l ++ vs_tracked r"
    and rng: "range_keys (vs_range l) \<subseteq> range_keys (vs_range m)"
      "range_keys (vs_range r) \<subseteq> range_keys (vs_range m)"
    and pr: "\<And>t. Check (vs_pred l) t \<or> Check (vs_pred r) t \<Longrightarrow> Check (vs_pred m) t"
  shows "slice_tasks key_ok todo m"
  unfolding slice_tasks_def
proof (intro allI impI)
  fix k h assume "vs_tracked m k = Some h"
  then have "vs_tracked l k = Some h \<or> vs_tracked r k = Some h"
    unfolding tr by (auto simp: map_add_Some_iff)
  then show "k \<in> range_keys (vs_range m) \<and> key_ok k \<and> Check (vs_pred m) (ht_Task h) \<and>
      (\<forall>t \<in> todo. GetTaskKey t = k \<longrightarrow> ht_Task h = t \<and> ht_state h \<noteq> TaskStateAcked)"
    using assms(1,2) rng pr unfolding slice_tasks_def by blast
qed

section \<open>Slices with the same predicate\<close>

text \<open>The merge when \<open>l\<close> does not start after \<open>r\<close>.\<close>

lemma mergeByRange_simps:
  assumes "vs_lo l \<le> vs_lo r"
  shows "vs_lo (mergeVirtualSlicesByRange n l r) = vs_lo l"
    "vs_hi (mergeVirtualSlicesByRange n l r) = max (vs_hi l) (vs_hi r)"
    "vs_pred (mergeVirtualSlicesByRange n l r) = vs_pred l"
    "sid (mergeVirtualSlicesByRange n l r) = n"
    "pendingTaskTracker (mergeVirtualSlicesByRange n l r) =
       AddTasks (pendingTaskTracker l) (map snd (taskMap (pendingTaskTracker r)))"
    "progress (mergeVirtualSlicesByRange n l r) =
       mergeGetTaskProgressWithSamePredicate (progress l) (progress r)"
  using assms by (auto simp: mergeVirtualSlicesByRange_def)

lemma mergeByRange_shape:
  fixes n :: nat
  assumes rk: "reader_keys key_ok pos_ok"
    and sl: "slice_shape key_ok pos_ok l" and sr: "slice_shape key_ok pos_ok r"
    and lo: "vs_lo l \<le> vs_lo r"
  defines "m \<equiv> mergeVirtualSlicesByRange n l r"
  shows "slice_shape key_ok pos_ok m" "merge_covers (progress l) (progress r) (progress m)"
    "aligned l \<Longrightarrow> aligned r \<Longrightarrow> aligned m"
proof -
  note f = mergeByRange_simps [OF lo, of n, folded m_def]
  have pok: "progress_ok (progress l)" "progress_ok (progress r)"
    and wf: "tracker_wf (pendingTaskTracker l)" "tracker_wf (pendingTaskTracker r)"
    using sl sr by (simp_all add: slice_shape_def)
  have el: "\<forall>p \<in> set (progress l) \<union> set (progress r). elem_ok pos_ok b (vs_lo l) (max (vs_hi l) (vs_hi r)) p"
    if "\<forall>p \<in> set (progress l @ progress r). b \<le> InclusiveMinTaskKey p" for b
    using slice_elem_ok [OF sl, of "vs_lo l" "max (vs_hi l) (vs_hi r)" b]
      slice_elem_ok [OF sr, of "vs_lo l" "max (vs_hi l) (vs_hi r)" b] lo that by auto
  obtain b where b: "\<forall>p \<in> set (progress l @ progress r). b \<le> InclusiveMinTaskKey p"
    using lower_bound_exists [of "progress l @ progress r" InclusiveMinTaskKey] by blast
  note g = merge_same_lists [OF rk pok el [OF b]]
  show "merge_covers (progress l) (progress r) (progress m)"
    unfolding f by (rule g(2))
  have "key_ok (max (vs_hi l) (vs_hi r))" "vs_lo l \<le> max (vs_hi l) (vs_hi r)"
    using sl sr by (auto simp: slice_shape_def max_def)
  then show "slice_shape key_ok pos_ok m"
    using sl g(1,3) tracker_wf_AddTasks_taskMap [OF wf] f
    by (auto simp: slice_shape_def elem_ok_def)
  show "aligned m" if "aligned l" "aligned r"
  proof -
    have "\<forall>p \<in> set (progress l @ progress r). vs_lo l \<le> InclusiveMinTaskKey p"
      using that lo by (force simp: aligned_def)
    from merge_same_lists(3) [OF rk pok el [OF this]] show ?thesis
      unfolding aligned_def f by (simp add: elem_ok_def)
  qed
qed

lemma slice_inv_mergeByRange_ordered:
  fixes n :: nat
  assumes rk: "reader_keys key_ok pos_ok"
    and il: "slice_inv key_ok pos_ok todo l" and ir: "slice_inv key_ok pos_ok todo r"
    and lo: "vs_lo l \<le> vs_lo r" "vs_lo r \<le> vs_hi l" and pr: "vs_pred l = vs_pred r"
  defines "m \<equiv> mergeVirtualSlicesByRange n l r"
  shows "slice_inv key_ok pos_ok todo m"
    "state_Contains (vs_state m) t \<longleftrightarrow> state_Contains (vs_state l) t \<or> state_Contains (vs_state r) t"
proof -
  have sl: "slice_shape key_ok pos_ok l" and tl: "slice_tasks key_ok todo l" and cl: "slice_covers todo l"
    and sr: "slice_shape key_ok pos_ok r" and tr: "slice_tasks key_ok todo r" and cr: "slice_covers todo r"
    using il ir by (simp_all add: slice_inv_def)
  note f = mergeByRange_simps [OF lo(1), of n, folded m_def]
    and sh = mergeByRange_shape [OF rk sl sr lo(1), of n, folded m_def]
  have wf: "tracker_wf (pendingTaskTracker r)" "vs_lo r \<le> vs_hi r"
    using sr by (simp_all add: slice_shape_def)
  have trk: "vs_tracked m = vs_tracked l ++ vs_tracked r"
    unfolding f by (rule tracked_AddTasks_taskMap [OF wf(1)])
  have dm: "dom (vs_tracked m) = dom (vs_tracked l) \<union> dom (vs_tracked r)"
    unfolding trk by (simp add: Un_commute)
  have rng: "range_keys (vs_range m) = range_keys (vs_range l) \<union> range_keys (vs_range r)"
    using lo wf(2) unfolding range_keys_def f by (auto simp: less_max_iff_disj)
  have cont: "state_Contains (vs_state m) t \<longleftrightarrow>
      state_Contains (vs_state l) t \<or> state_Contains (vs_state r) t" for t
    unfolding state_Contains_iff rng f(3) using pr by auto
  then show "state_Contains (vs_state m) t \<longleftrightarrow>
      state_Contains (vs_state l) t \<or> state_Contains (vs_state r) t" .
  have ts: "slice_tasks key_ok todo m"
    by (rule slice_tasks_union [OF tl tr trk]) (use rng f(3) pr in auto)
  have rd: "GetTaskKey t \<in> dom (vs_tracked m)"
    if "t \<in> todo" "Check (vs_pred l) t"
      "GetTaskKey t \<in> already_read (progress l) \<union> already_read (progress r)" for t
    using that cl cr pr unfolding slice_covers_def dm by auto
  have "slice_covers todo m"
    unfolding slice_covers_def
  proof (intro conjI ballI impI)
    fix t assume t: "t \<in> todo" "state_Contains (vs_state m) t"
    then have ck: "Check (vs_pred l) t" using f(3) by (simp add: state_Contains_iff)
    have "GetTaskKey t \<in> dom (vs_tracked m) \<or> GetTaskKey t \<in> unread (progress l) \<union> unread (progress r)"
      using t cl cr cont unfolding slice_covers_def dm by blast
    then show "GetTaskKey t \<in> dom (vs_tracked m) \<or> GetTaskKey t \<in> unread (progress m)"
      using sh(2) rd [OF t(1) ck] unfolding merge_covers_def by blast
  next
    fix t assume "t \<in> todo" "Check (vs_pred m) t \<and> GetTaskKey t \<in> already_read (progress m)"
    then show "GetTaskKey t \<in> dom (vs_tracked m)"
      using rd [of t] sh(2) f(3) unfolding merge_covers_def by auto
  qed
  then show "slice_inv key_ok pos_ok todo m"
    using sh(1) ts by (simp add: slice_inv_def)
qed

lemma mergeByRange_swap:
  "vs_lo r < vs_lo l \<Longrightarrow> mergeVirtualSlicesByRange n l r = mergeVirtualSlicesByRange n r l"
  by (auto simp: mergeVirtualSlicesByRange_def)

section \<open>Slices with different predicates\<close>

lemma mergeByPredicate_simps [simp]:
  "vs_range (mergeVirtualSlicesByPredicate n a b) = vs_range a"
  "vs_pred (mergeVirtualSlicesByPredicate n a b) = Or_pred (vs_pred a) (vs_pred b)"
  "sid (mergeVirtualSlicesByPredicate n a b) = n"
  "pendingTaskTracker (mergeVirtualSlicesByPredicate n a b) =
     AddTasks (pendingTaskTracker a) (map snd (taskMap (pendingTaskTracker b)))"
  "progress (mergeVirtualSlicesByPredicate n a b) =
     mergeGetTaskProgressWithDifferentPredicate (progress a) (progress b)"
  by (simp_all add: mergeVirtualSlicesByPredicate_def)

lemma already_read_aligned:
  assumes "slice_shape key_ok pos_ok s" "aligned s"
  shows "already_read (progress s) \<subseteq> range_keys (vs_range s)"
  using assms by (fastforce simp: already_read_def slice_shape_def aligned_def progress_ok_def progress_wf_def)

lemma mergeByPredicate_shape:
  fixes n :: nat
  assumes rk: "reader_keys key_ok pos_ok"
    and sa: "slice_shape key_ok pos_ok a" and sb: "slice_shape key_ok pos_ok b"
    and rng: "vs_lo a = vs_lo b" "vs_hi a = vs_hi b" and al: "aligned a" "aligned b"
  defines "m \<equiv> mergeVirtualSlicesByPredicate n a b"
  shows "slice_shape key_ok pos_ok m" "aligned m"
    "unread (progress m) = unread (progress a) \<union> unread (progress b)"
    "already_read (progress m) \<subseteq> already_read (progress a) \<union> already_read (progress b)"
proof -
  have pok: "progress_ok (progress a)" "progress_ok (progress b)"
    and wf: "tracker_wf (pendingTaskTracker a)" "tracker_wf (pendingTaskTracker b)"
    using sa sb by (simp_all add: slice_shape_def)
  have el: "\<forall>p \<in> set (progress a) \<union> set (progress b). elem_ok pos_ok (vs_lo a) (vs_lo a) (vs_hi a) p"
    using slice_elem_ok [OF sa, of "vs_lo a" "vs_hi a" "vs_lo a"]
      slice_elem_ok [OF sb, of "vs_lo a" "vs_hi a" "vs_lo a"] rng al by (auto simp: aligned_def)
  note g = merge_diff_lists [OF rk pok el]
  show "unread (progress m) = unread (progress a) \<union> unread (progress b)"
    "already_read (progress m) \<subseteq> already_read (progress a) \<union> already_read (progress b)"
    unfolding m_def mergeByPredicate_simps using g(2,4) by simp_all
  show "aligned m"
    using g(3) by (simp add: m_def aligned_def elem_ok_def)
  show "slice_shape key_ok pos_ok m"
    using sa sb g(1,3) tracker_wf_AddTasks_taskMap [OF wf] pred_normal_Or_pred
    by (simp add: m_def slice_shape_def elem_ok_def)
qed

lemma slice_inv_mergeByPredicate:
  fixes n :: nat
  assumes rk: "reader_keys key_ok pos_ok"
    and ia: "slice_inv key_ok pos_ok todo a" and ib: "slice_inv key_ok pos_ok todo b"
    and rng: "vs_lo a = vs_lo b" "vs_hi a = vs_hi b" and al: "aligned a" "aligned b"
  defines "m \<equiv> mergeVirtualSlicesByPredicate n a b"
  shows "slice_inv key_ok pos_ok todo m" "aligned m"
    "state_Contains (vs_state m) t \<longleftrightarrow> state_Contains (vs_state a) t \<or> state_Contains (vs_state b) t"
proof -
  have sa: "slice_shape key_ok pos_ok a" and ta: "slice_tasks key_ok todo a" and ca: "slice_covers todo a"
    and sb: "slice_shape key_ok pos_ok b" and tb: "slice_tasks key_ok todo b" and cb: "slice_covers todo b"
    using ia ib by (simp_all add: slice_inv_def)
  note sh = mergeByPredicate_shape [OF rk sa sb rng al, of n, folded m_def]
  show "aligned m" by (rule sh(2))
  have rk_eq: "range_keys (vs_range a) = range_keys (vs_range b)" "range_keys (vs_range m) = range_keys (vs_range b)"
    using rng by (simp_all add: range_keys_def m_def)
  have cont: "state_Contains (vs_state m) t \<longleftrightarrow>
      state_Contains (vs_state a) t \<or> state_Contains (vs_state b) t" for t
    unfolding state_Contains_iff rk_eq by (auto simp: m_def Check_Or_pred)
  then show "state_Contains (vs_state m) t \<longleftrightarrow>
      state_Contains (vs_state a) t \<or> state_Contains (vs_state b) t" .
  have wf: "tracker_wf (pendingTaskTracker b)" using sb by (simp add: slice_shape_def)
  have trk: "vs_tracked m = vs_tracked a ++ vs_tracked b"
    unfolding m_def mergeByPredicate_simps by (rule tracked_AddTasks_taskMap [OF wf])
  have dm: "dom (vs_tracked m) = dom (vs_tracked a) \<union> dom (vs_tracked b)"
    unfolding trk by (simp add: Un_commute)
  have ts: "slice_tasks key_ok todo m"
    by (rule slice_tasks_union [OF ta tb trk]) (use rk_eq in \<open>auto simp: m_def Check_Or_pred\<close>)
  have cv1: "\<forall>t \<in> todo. state_Contains (vs_state m) t \<longrightarrow>
      GetTaskKey t \<in> dom (vs_tracked m) \<or> GetTaskKey t \<in> unread (progress m)"
    using ca cb unfolding slice_covers_def cont dm sh(3) by blast
  have "GetTaskKey t \<in> dom (vs_tracked m)"
    if t: "t \<in> todo" "Check (vs_pred m) t" "GetTaskKey t \<in> already_read (progress m)" for t
  proof -
    have "GetTaskKey t \<in> range_keys (vs_range b)"
      using t(3) sh(4) already_read_aligned [OF sa al(1)] already_read_aligned [OF sb al(2)] rk_eq by blast
    then have "state_Contains (vs_state m) t"
      using t(2) rk_eq by (simp add: state_Contains_iff)
    moreover have "GetTaskKey t \<notin> unread (progress m)"
      using t(3) already_read_disjoint sh(1) unfolding slice_shape_def by blast
    ultimately show ?thesis using cv1 t(1) by blast
  qed
  then have "slice_covers todo m" using cv1 by (simp add: slice_covers_def)
  then show "slice_inv key_ok pos_ok todo m"
    using sh(1) ts by (simp add: slice_inv_def)
qed

text \<open>What a merge of \<open>a\<close> and \<open>b\<close> promises of its result.\<close>

definition mergeable :: "(htask_key \<Rightarrow> bool) \<Rightarrow> (get_task_progress \<Rightarrow> bool) \<Rightarrow> ptask set \<Rightarrow> vslice \<Rightarrow> bool" where
  "mergeable key_ok pos_ok todo s \<longleftrightarrow>
     slice_inv key_ok pos_ok todo s \<and> aligned s \<and> \<not> range_IsEmpty (vs_range s)"

definition merged_ok ::
  "(htask_key \<Rightarrow> bool) \<Rightarrow> (get_task_progress \<Rightarrow> bool) \<Rightarrow> ptask set \<Rightarrow> vslice \<Rightarrow> vslice \<Rightarrow> vslice list \<Rightarrow> bool" where
  "merged_ok key_ok pos_ok todo a b out \<longleftrightarrow>
     out \<noteq> [] \<and> (\<forall>m \<in> set out. mergeable key_ok pos_ok todo m) \<and>
     sorted_wrt (\<lambda>x y. vs_hi x \<le> vs_lo y) out \<and>
     vs_lo (hd out) = min (vs_lo a) (vs_lo b) \<and> vs_hi (last out) = max (vs_hi a) (vs_hi b) \<and>
     (\<forall>m \<in> set (butlast out). vs_hi m \<le> min (vs_hi a) (vs_hi b)) \<and>
     (vs_lo (last out) \<le> min (vs_hi a) (vs_hi b) \<or> vs_lo (last out) = min (vs_lo a) (vs_lo b)) \<and>
     (\<forall>t. (\<exists>m \<in> set out. state_Contains (vs_state m) t) \<longleftrightarrow>
        state_Contains (vs_state a) t \<or> state_Contains (vs_state b) t)"

lemma merged_ok_sym: "merged_ok key_ok pos_ok todo a b out \<longleftrightarrow> merged_ok key_ok pos_ok todo b a out"
  by (auto simp: merged_ok_def min.commute max.commute)

lemma mergeable_nonempty: "mergeable key_ok pos_ok todo s \<Longrightarrow> vs_lo s < vs_hi s"
  by (auto simp: mergeable_def range_IsEmpty_def)

lemma mergeable_keys:
  "mergeable key_ok pos_ok todo s \<Longrightarrow> key_ok (vs_lo s) \<and> key_ok (vs_hi s)"
  by (auto simp: mergeable_def slice_inv_def slice_shape_def)

lemma mergeable_split:
  assumes rk: "reader_keys key_ok pos_ok" and s: "mergeable key_ok pos_ok todo s" and k: "key_ok k"
    and r: "TrySplitByTaskKey n k s = Some (x, y)"
  shows "mergeable key_ok pos_ok todo x" "mergeable key_ok pos_ok todo y"
proof -
  have inv: "slice_inv key_ok pos_ok todo s" and sp: "splittable s"
    using s by (auto simp: mergeable_def aligned_splittable)
  note f = TrySplitByTaskKey_Some [OF r]
  show "mergeable key_ok pos_ok todo x" "mergeable key_ok pos_ok todo y"
    using slice_inv_TrySplitByTaskKey [OF inv sp rk k r]
      split_shape(3,4) [OF slice_inv_shape [OF inv] sp rk k r] f(1-6)
    by (simp_all add: mergeable_def range_IsEmpty_def)
qed

lemma mergeable_mergeByPredicate:
  assumes rk: "reader_keys key_ok pos_ok"
    and a: "mergeable key_ok pos_ok todo a" and b: "mergeable key_ok pos_ok todo b"
    and rng: "vs_lo a = vs_lo b" "vs_hi a = vs_hi b"
  shows "mergeable key_ok pos_ok todo (mergeVirtualSlicesByPredicate n a b)"
    "state_Contains (vs_state (mergeVirtualSlicesByPredicate n a b)) t \<longleftrightarrow>
       state_Contains (vs_state a) t \<or> state_Contains (vs_state b) t"
  using slice_inv_mergeByPredicate [OF rk _ _ rng, of todo n] a b
  by (simp_all add: mergeable_def)

lemma TrySplitByTaskKey_None_iff:
  "TrySplitByTaskKey n k s = None \<longleftrightarrow> \<not> (vs_lo s < k \<and> k < vs_hi s)"
  by (auto simp: TrySplitByTaskKey_def state_TrySplitByTaskKey_def CanSplitByTaskKey_def Let_def
      split: prod.splits)

text \<open>The slices start at the same key, and \<open>a\<close> does not end after \<open>b\<close>.\<close>

lemma merged_ok_same_start:
  assumes rk: "reader_keys key_ok pos_ok"
    and a: "mergeable key_ok pos_ok todo a" and b: "mergeable key_ok pos_ok todo b"
    and rng: "vs_lo a = vs_lo b" "vs_hi a \<le> vs_hi b"
    and r: "(case TrySplitByTaskKey n (vs_hi a) b of
           None \<Rightarrow> Some ([mergeVirtualSlicesByPredicate n a b], n + 1)
         | Some (l, r) \<Rightarrow> Some ([mergeVirtualSlicesByPredicate (n + 2) a l, r], n + 3)) = Some (out, n')"
  shows "merged_ok key_ok pos_ok todo a b out"
proof (cases "TrySplitByTaskKey n (vs_hi a) b")
  case None
  then have eq: "vs_hi a = vs_hi b"
    using rng mergeable_nonempty [OF a] by (auto simp: TrySplitByTaskKey_None_iff)
  have out: "out = [mergeVirtualSlicesByPredicate n a b]" using r None by simp
  show ?thesis
    unfolding out merged_ok_def
    using mergeable_mergeByPredicate [OF rk a b rng(1) eq, of n] rng eq by simp
next
  case (Some p)
  obtain l q where p: "p = (l, q)" by force
  have sp: "TrySplitByTaskKey n (vs_hi a) b = Some (l, q)" using Some p by simp
  note f = TrySplitByTaskKey_Some [OF sp] and sc = TrySplitByTaskKey_scope(1) [OF sp]
    and ml = mergeable_split [OF rk b conjunct2 [OF mergeable_keys [OF a]] sp]
  have out: "out = [mergeVirtualSlicesByPredicate (n + 2) a l, q]" using r sp by simp
  show ?thesis
    unfolding out merged_ok_def
    using mergeable_mergeByPredicate [OF rk a ml(1), of "n + 2"] ml(2) f(1-6) sc rng by auto
qed

text \<open>\<open>a\<close> starts before \<open>b\<close>.\<close>

lemma merged_ok_before:
  assumes rk: "reader_keys key_ok pos_ok"
    and a: "mergeable key_ok pos_ok todo a" and b: "mergeable key_ok pos_ok todo b"
    and sp: "TrySplitByTaskKey n (vs_lo b) a = Some (al, ar)"
    and r: "(case TrySplitByTaskKey (n + 2) (vs_hi a) b of
                None \<Rightarrow>
                  (case TrySplitByTaskKey (n + 2) (vs_hi b) ar of
                     None \<Rightarrow> Some ([al, mergeVirtualSlicesByPredicate (n + 2) ar b], n + 3)
                   | Some (arl, arr) \<Rightarrow>
                       Some ([al, mergeVirtualSlicesByPredicate (n + 4) arl b, arr], n + 5))
              | Some (bl, br) \<Rightarrow>
                  Some ([al, mergeVirtualSlicesByPredicate (n + 4) ar bl, br], n + 5)) = Some (out, n')"
  shows "merged_ok key_ok pos_ok todo a b out"
proof -
  note f = TrySplitByTaskKey_Some [OF sp] and sc = TrySplitByTaskKey_scope(1) [OF sp]
    and m = mergeable_split [OF rk a conjunct1 [OF mergeable_keys [OF b]] sp]
    and ka = mergeable_keys [OF a] and kb = mergeable_keys [OF b] and nb = mergeable_nonempty [OF b]
  show ?thesis
  proof (cases "TrySplitByTaskKey (n + 2) (vs_hi a) b")
    case None
    then have le: "vs_hi b \<le> vs_hi a" using f(2) by (auto simp: TrySplitByTaskKey_None_iff)
    show ?thesis
    proof (cases "TrySplitByTaskKey (n + 2) (vs_hi b) ar")
      case N: None
      then have eq: "vs_hi b = vs_hi a" using le f nb by (auto simp: TrySplitByTaskKey_None_iff)
      have out: "out = [al, mergeVirtualSlicesByPredicate (n + 2) ar b]" using r None N by simp
      show ?thesis
        unfolding out merged_ok_def
        using mergeable_mergeByPredicate [OF rk m(2) b, of "n + 2"] m(1) f(1-6) sc eq by auto
    next
      case S: (Some p)
      obtain x y where p: "p = (x, y)" by force
      have sp': "TrySplitByTaskKey (n + 2) (vs_hi b) ar = Some (x, y)" using S p by simp
      note g = TrySplitByTaskKey_Some [OF sp'] and sg = TrySplitByTaskKey_scope(1) [OF sp']
        and mg = mergeable_split [OF rk m(2) conjunct2 [OF kb] sp']
      have out: "out = [al, mergeVirtualSlicesByPredicate (n + 4) x b, y]" using r None sp' by simp
      show ?thesis
        unfolding out merged_ok_def
        using mergeable_mergeByPredicate [OF rk mg(1) b, of "n + 4"] m(1) mg(2) f(1-6) g(1-6) sc sg by auto
    qed
  next
    case (Some p)
    obtain x y where p: "p = (x, y)" by force
    have sp': "TrySplitByTaskKey (n + 2) (vs_hi a) b = Some (x, y)" using Some p by simp
    note g = TrySplitByTaskKey_Some [OF sp'] and sg = TrySplitByTaskKey_scope(1) [OF sp']
      and mg = mergeable_split [OF rk b conjunct2 [OF ka] sp']
    have out: "out = [al, mergeVirtualSlicesByPredicate (n + 4) ar x, y]" using r sp' by simp
    show ?thesis
      unfolding out merged_ok_def
      using mergeable_mergeByPredicate [OF rk m(2) mg(1), of "n + 4"] m(1) mg(2) f(1-6) g(1-6) sc sg by auto
  qed
qed

text \<open>The four orders of the two slices.\<close>

abbreviation merge_same_start :: "nat \<Rightarrow> vslice \<Rightarrow> vslice \<Rightarrow> (vslice list \<times> nat) option" where
  "merge_same_start n a b \<equiv>
     (case TrySplitByTaskKey n (vs_hi a) b of
        None \<Rightarrow> Some ([mergeVirtualSlicesByPredicate n a b], n + 1)
      | Some (l, r) \<Rightarrow> Some ([mergeVirtualSlicesByPredicate (n + 2) a l, r], n + 3))"

abbreviation merge_before :: "nat \<Rightarrow> vslice \<Rightarrow> vslice \<Rightarrow> (vslice list \<times> nat) option" where
  "merge_before n a b \<equiv>
     (case TrySplitByTaskKey n (vs_lo b) a of None \<Rightarrow> None
      | Some (al, ar) \<Rightarrow>
          (case TrySplitByTaskKey (n + 2) (vs_hi a) b of
             None \<Rightarrow>
               (case TrySplitByTaskKey (n + 2) (vs_hi b) ar of
                  None \<Rightarrow> Some ([al, mergeVirtualSlicesByPredicate (n + 2) ar b], n + 3)
                | Some (arl, arr) \<Rightarrow>
                    Some ([al, mergeVirtualSlicesByPredicate (n + 4) arl b, arr], n + 5))
           | Some (bl, br) \<Rightarrow>
               Some ([al, mergeVirtualSlicesByPredicate (n + 4) ar bl, br], n + 5)))"

lemma merge_different_cases:
  "vs_lo a = vs_lo b \<Longrightarrow> vs_hi a \<le> vs_hi b \<Longrightarrow>
     mergeVirtualSlicesWithDifferentPredicate n a b = merge_same_start n a b"
  "vs_lo a = vs_lo b \<Longrightarrow> vs_hi b < vs_hi a \<Longrightarrow>
     mergeVirtualSlicesWithDifferentPredicate n a b = merge_same_start n b a"
  "vs_lo a < vs_lo b \<Longrightarrow> mergeVirtualSlicesWithDifferentPredicate n a b = merge_before n a b"
  "vs_lo b < vs_lo a \<Longrightarrow> mergeVirtualSlicesWithDifferentPredicate n a b = merge_before n b a"
  unfolding mergeVirtualSlicesWithDifferentPredicate_def Let_def Compare_simps
  by (auto simp: not_less less_imp_neq less_imp_neq [symmetric])

lemma merge_different_ok:
  assumes rk: "reader_keys key_ok pos_ok"
    and a: "mergeable key_ok pos_ok todo a" and b: "mergeable key_ok pos_ok todo b"
    and r: "mergeVirtualSlicesWithDifferentPredicate n a b = Some (out, n')"
  shows "merged_ok key_ok pos_ok todo a b out"
proof -
  have before: "merged_ok key_ok pos_ok todo x y out"
    if x: "mergeable key_ok pos_ok todo x" and y: "mergeable key_ok pos_ok todo y"
      and m: "merge_before n x y = Some (out, n')" for x y
  proof -
    obtain l q where sp: "TrySplitByTaskKey n (vs_lo y) x = Some (l, q)"
      using m by (cases "TrySplitByTaskKey n (vs_lo y) x") auto
    from merged_ok_before [OF rk x y sp] m show ?thesis unfolding sp by simp
  qed
  consider "vs_lo a = vs_lo b" "vs_hi a \<le> vs_hi b" | "vs_lo a = vs_lo b" "vs_hi b < vs_hi a"
    | "vs_lo a < vs_lo b" | "vs_lo b < vs_lo a"
    by force
  then show ?thesis
  proof cases
    case 1
    then show ?thesis using merged_ok_same_start [OF rk a b 1] r merge_different_cases(1) [OF 1] by simp
  next
    case 2
    have "merged_ok key_ok pos_ok todo b a out"
      using merged_ok_same_start [OF rk b a] r merge_different_cases(2) [OF 2, of n] 2 by simp
    then show ?thesis by (simp add: merged_ok_sym)
  next
    case 3
    then show ?thesis using before [OF a b] r merge_different_cases(3) [OF 3] by simp
  next
    case 4
    then have "merged_ok key_ok pos_ok todo b a out"
      using before [OF b a] r merge_different_cases(4) [OF 4] by simp
    then show ?thesis by (simp add: merged_ok_sym)
  qed
qed

lemma merge_same_ok:
  assumes rk: "reader_keys key_ok pos_ok"
    and a: "mergeable key_ok pos_ok todo a" and b: "mergeable key_ok pos_ok todo b"
    and cm: "CanMerge (vs_range a) (vs_range b)" and pr: "vs_pred a = vs_pred b"
  shows "merged_ok key_ok pos_ok todo a b [mergeVirtualSlicesByRange n a b]"
proof -
  have ord: "merged_ok key_ok pos_ok todo l r [mergeVirtualSlicesByRange n l r]"
    if l: "mergeable key_ok pos_ok todo l" and r: "mergeable key_ok pos_ok todo r"
      and lo: "vs_lo l \<le> vs_lo r" "vs_lo r \<le> vs_hi l" and p: "vs_pred l = vs_pred r" for l r
  proof -
    have il: "slice_inv key_ok pos_ok todo l" "slice_inv key_ok pos_ok todo r" "aligned l" "aligned r"
      using l r by (simp_all add: mergeable_def)
    note f = mergeByRange_simps [OF lo(1), of n]
    have "\<not> range_IsEmpty (vs_range (mergeVirtualSlicesByRange n l r))"
      using mergeable_nonempty [OF l] f by (simp add: range_IsEmpty_def not_le less_max_iff_disj)
    then show ?thesis
      using slice_inv_mergeByRange_ordered [OF rk il(1,2) lo p, of n] f lo(1)
        mergeByRange_shape(3) [OF rk il(1,2) [THEN slice_inv_shape] lo(1) il(3,4), of n]
      by (simp add: merged_ok_def mergeable_def min_def)
  qed
  show ?thesis
  proof (cases "vs_lo a \<le> vs_lo b")
    case True
    then show ?thesis using ord [OF a b] cm pr by (simp add: CanMerge_def)
  next
    case False
    then have "mergeVirtualSlicesByRange n a b = mergeVirtualSlicesByRange n b a"
      by (intro mergeByRange_swap) simp
    then show ?thesis
      using ord [OF b a] cm pr False by (simp add: CanMerge_def merged_ok_sym [of _ _ _ a])
  qed
qed

lemma TryMerge_ok:
  assumes rk: "reader_keys key_ok pos_ok"
    and a: "mergeable key_ok pos_ok todo a" and b: "mergeable key_ok pos_ok todo b"
    and r: "TryMergeWithVirtualSlice n a b = Some (out, n')"
  shows "merged_ok key_ok pos_ok todo a b out"
  using r merge_same_ok [OF rk a b] merge_different_ok [OF rk a b]
  by (auto simp: TryMergeWithVirtualSlice_def split: if_splits)

text \<open>Slices that are not merged do not overlap.\<close>

lemma TryMerge_None:
  assumes "TryMergeWithVirtualSlice n a b = None" "sid a \<noteq> sid b"
  shows "vs_hi a \<le> vs_lo b \<or> vs_hi b \<le> vs_lo a"
proof (cases "CanMerge (vs_range a) (vs_range b)")
  case True
  then have none: "mergeVirtualSlicesWithDifferentPredicate n a b = None"
    using assms by (simp add: TryMergeWithVirtualSlice_def split: if_splits)
  have ne: "vs_lo a \<noteq> vs_lo b"
    using none merge_different_cases(1,2) [of a b n]
    by (cases "vs_hi a \<le> vs_hi b") (auto simp: not_le split: option.splits)
  have "TrySplitByTaskKey n (vs_lo b) a = None" if "vs_lo a < vs_lo b"
    using none merge_different_cases(3) [OF that, of n] by (auto split: option.splits)
  moreover have "TrySplitByTaskKey n (vs_lo a) b = None" if "vs_lo b < vs_lo a"
    using none merge_different_cases(4) [OF that, of n] by (auto split: option.splits)
  ultimately show ?thesis
    using ne by (cases "vs_lo a < vs_lo b") (auto simp: TrySplitByTaskKey_None_iff not_less)
qed (auto simp: CanMerge_def)

end
