(* ===== verification/Queue_Monitor.thy ===== *)
theory Queue_Monitor
  imports Virtual_Slice
begin

text \<open>
  The monitor of the pending tasks of a queue with its alerts
  (\<open>service/history/queuev2/monitor.go\<close>, \<open>alert.go\<close>) and the controller that pauses
  the loading of tasks (\<open>pause_controller.go\<close>).

  The map from slices to counts is keyed by the address of the slice. The channel the monitor
  sends its alerts to is part of its state; a send that does not block is \<open>try_send\<close>. The
  values of the dynamic configuration are arguments, and so is the current time.

  \<open>monitor_wf\<close>: the total is the sum of the counts of the slices.
\<close>

section \<open>Channels\<close>

record 'a gochan =
  ch_cap :: nat
  ch_buf :: "'a list"

definition try_send :: "'a \<Rightarrow> 'a gochan \<Rightarrow> 'a gochan option" where
  "try_send x c = (if length (ch_buf c) < ch_cap c then Some (c\<lparr>ch_buf := ch_buf c @ [x]\<rparr>) else None)"

definition try_recv :: "'a gochan \<Rightarrow> ('a \<times> 'a gochan) option" where
  "try_recv c = (case ch_buf c of [] \<Rightarrow> None | x # xs \<Rightarrow> Some (x, c\<lparr>ch_buf := xs\<rparr>))"

section \<open>The monitor\<close>

datatype AlertType = AlertTypeUnspecified | AlertTypeQueuePendingTaskCount

record AlertAttributesQueuePendingTaskCount =
  CurrentPendingTaskCount :: int
  CriticalPendingTaskCount :: int

record Alert =
  alert_AlertType :: AlertType
  alert_Attributes :: AlertAttributesQueuePendingTaskCount

record MonitorOptions =
  EnablePendingTaskCountAlert :: bool
  opt_CriticalPendingTaskCount :: int

record monitor =
  mon_options :: MonitorOptions
  mon_subscriber :: "Alert gochan option"
  pendingAlerts :: "AlertType fset"
  totalPendingTaskCount :: int
  slicePendingTaskCount :: "(nat, int) gomap"

definition NewMonitor :: "MonitorOptions \<Rightarrow> monitor" where
  "NewMonitor opts =
     \<lparr>mon_options = opts, mon_subscriber = None, pendingAlerts = {||},
      totalPendingTaskCount = 0, slicePendingTaskCount = []\<rparr>"

definition mon_Subscribe :: "Alert gochan \<Rightarrow> monitor \<Rightarrow> monitor" where
  "mon_Subscribe ch m = m\<lparr>mon_subscriber := Some ch\<rparr>"

definition mon_Unsubscribe :: "monitor \<Rightarrow> monitor" where
  "mon_Unsubscribe m = m\<lparr>mon_subscriber := None\<rparr>"

definition GetTotalPendingTaskCount :: "monitor \<Rightarrow> int" where
  "GetTotalPendingTaskCount m = totalPendingTaskCount m"

definition GetSlicePendingTaskCount :: "vslice \<Rightarrow> monitor \<Rightarrow> int" where
  "GetSlicePendingTaskCount s m = gm_int (slicePendingTaskCount m) (sid s)"

text \<open>A send on a nil channel is never ready.\<close>

definition sendAlertLocked :: "Alert \<Rightarrow> monitor \<Rightarrow> monitor" where
  "sendAlertLocked a m =
     (if alert_AlertType a |\<in>| pendingAlerts m then m
      else case mon_subscriber m of None \<Rightarrow> m
        | Some ch \<Rightarrow>
            (case try_send a ch of
               Some ch' \<Rightarrow> m\<lparr>mon_subscriber := Some ch',
                 pendingAlerts := finsert (alert_AlertType a) (pendingAlerts m)\<rparr>
             | None \<Rightarrow> m))"

definition SetSlicePendingTaskCount :: "vslice \<Rightarrow> int \<Rightarrow> monitor \<Rightarrow> monitor" where
  "SetSlicePendingTaskCount s cnt m =
     (let currentSliceCount = gm_int (slicePendingTaskCount m) (sid s);
          m1 = m\<lparr>totalPendingTaskCount := totalPendingTaskCount m + (cnt - currentSliceCount),
                 slicePendingTaskCount := AList.update (sid s) cnt (slicePendingTaskCount m)\<rparr>;
          critical = opt_CriticalPendingTaskCount (mon_options m1)
      in if EnablePendingTaskCountAlert (mon_options m1) \<and> critical > 0 \<and>
            totalPendingTaskCount m1 > critical
         then sendAlertLocked
                \<lparr>alert_AlertType = AlertTypeQueuePendingTaskCount,
                 alert_Attributes =
                   \<lparr>CurrentPendingTaskCount = totalPendingTaskCount m1,
                    CriticalPendingTaskCount = critical\<rparr>\<rparr> m1
         else m1)"

definition RemoveSlice :: "vslice \<Rightarrow> monitor \<Rightarrow> monitor" where
  "RemoveSlice s m =
     (case map_of (slicePendingTaskCount m) (sid s) of
        Some currentSliceCount \<Rightarrow>
          m\<lparr>totalPendingTaskCount := totalPendingTaskCount m - currentSliceCount,
            slicePendingTaskCount := AList.delete (sid s) (slicePendingTaskCount m)\<rparr>
      | None \<Rightarrow> m)"

definition ResolveAlert :: "AlertType \<Rightarrow> monitor \<Rightarrow> monitor" where
  "ResolveAlert t m = m\<lparr>pendingAlerts := fminus (pendingAlerts m) {|t|}\<rparr>"

text \<open>The caller of \<open>SetSlicePendingTaskCount\<close> always passes the count of the slice itself.\<close>

definition track_slice :: "vslice \<Rightarrow> monitor \<Rightarrow> monitor" where
  "track_slice s m = SetSlicePendingTaskCount s (vs_GetPendingTaskCount s) m"

section \<open>The counts of the monitor\<close>

definition monitor_wf :: "monitor \<Rightarrow> bool" where
  "monitor_wf m \<longleftrightarrow> gm_wf (slicePendingTaskCount m) \<and>
     totalPendingTaskCount m = sum_list (map snd (slicePendingTaskCount m))"

lemma sum_list_update:
  "gm_wf m \<Longrightarrow> sum_list (map snd (AList.update k v m)) = sum_list (map snd m) + (v - gm_int m k)"
  for m :: "('k, int) gomap"
proof (induction m)
  case (Cons e m)
  then show ?case by (cases e) (auto simp: gm_int_def)
qed simp

lemma sum_list_delete:
  "gm_wf m \<Longrightarrow> sum_list (map snd (AList.delete k m)) = sum_list (map snd m) - gm_int m k"
  for m :: "('k, int) gomap"
proof (induction m)
  case (Cons e m)
  have "k \<notin> fst ` set m \<Longrightarrow> AList.delete k m = m"
    by (auto simp: AList.delete_eq filter_id_conv image_iff)
  then show ?case using Cons by (cases e) (auto simp: gm_int_def map_of_eq_None_iff split: option.splits)
qed simp

lemma sendAlertLocked_simps [simp]:
  "totalPendingTaskCount (sendAlertLocked a m) = totalPendingTaskCount m"
  "slicePendingTaskCount (sendAlertLocked a m) = slicePendingTaskCount m"
  "mon_options (sendAlertLocked a m) = mon_options m"
  by (auto simp: sendAlertLocked_def split: option.splits)

lemma SetSlicePendingTaskCount_simps [simp]:
  "slicePendingTaskCount (SetSlicePendingTaskCount s c m) = AList.update (sid s) c (slicePendingTaskCount m)"
  "mon_options (SetSlicePendingTaskCount s c m) = mon_options m"
  by (simp_all add: SetSlicePendingTaskCount_def Let_def)

lemma slicePendingTaskCount_RemoveSlice [simp]:
  "slicePendingTaskCount (RemoveSlice s m) = AList.delete (sid s) (slicePendingTaskCount m)"
proof (cases "map_of (slicePendingTaskCount m) (sid s)")
  case None
  then have "sid s \<notin> fst ` set (slicePendingTaskCount m)" by (simp add: map_of_eq_None_iff)
  then show ?thesis using None by (simp add: RemoveSlice_def delete_idem)
qed (simp add: RemoveSlice_def)

lemma monitor_wf_NewMonitor [intro]: "monitor_wf (NewMonitor opts)"
  by (simp add: monitor_wf_def NewMonitor_def)

lemma monitor_wf_Set [intro]: "monitor_wf m \<Longrightarrow> monitor_wf (SetSlicePendingTaskCount s c m)"
  by (auto simp: monitor_wf_def SetSlicePendingTaskCount_def Let_def sum_list_update)

lemma monitor_wf_RemoveSlice [intro]: "monitor_wf m \<Longrightarrow> monitor_wf (RemoveSlice s m)"
  using sum_list_delete [of "slicePendingTaskCount m" "sid s"]
  by (auto simp: monitor_wf_def RemoveSlice_def gm_int_def split: option.splits)

lemma monitor_wf_track [intro]: "monitor_wf m \<Longrightarrow> monitor_wf (track_slice s m)"
  unfolding track_slice_def by (rule monitor_wf_Set)

lemma slicePendingTaskCount_track [simp]:
  "slicePendingTaskCount (track_slice s m) =
     AList.update (sid s) (vs_GetPendingTaskCount s) (slicePendingTaskCount m)"
  by (simp add: track_slice_def)

text \<open>
  What the monitor knows of a slice after an operation, as a map from addresses: the form in
  which the queues use it.
\<close>

definition mon_counts :: "monitor \<Rightarrow> nat \<rightharpoonup> int" where
  "mon_counts m = map_of (slicePendingTaskCount m)"

lemma mon_counts_ops [simp]:
  "mon_counts (NewMonitor opts) = Map.empty"
  "mon_counts (SetSlicePendingTaskCount s c m) = (mon_counts m)(sid s \<mapsto> c)"
  "mon_counts (track_slice s m) = (mon_counts m)(sid s \<mapsto> vs_GetPendingTaskCount s)"
  "mon_counts (RemoveSlice s m) = (mon_counts m)(sid s := None)"
  "mon_counts (ResolveAlert t m) = mon_counts m"
  by (auto simp: mon_counts_def NewMonitor_def update_conv' delete_conv' ResolveAlert_def)

lemma monitor_wf_total:
  assumes "monitor_wf m"
  shows "totalPendingTaskCount m = (\<Sum>i \<in> dom (mon_counts m). the (mon_counts m i))"
proof -
  let ?l = "slicePendingTaskCount m"
  have wf: "gm_wf ?l" and t: "totalPendingTaskCount m = sum_list (map snd ?l)"
    using assms by (auto simp: monitor_wf_def)
  have "sum_list (map snd ?l) = sum_list (map (\<lambda>i. the (map_of ?l i)) (map fst ?l))"
    using wf by (auto intro!: arg_cong [where f = sum_list] simp del: map_map simp: o_def map_map)
  also have "\<dots> = (\<Sum>i \<in> set (map fst ?l). the (map_of ?l i))"
    by (rule sum_list_distinct_conv_sum_set [OF wf])
  finally show ?thesis
    by (simp add: t mon_counts_def dom_map_of_conv_image_fst)
qed

section \<open>Alerts\<close>

text \<open>
  An alert type is pending exactly while an alert of that type is on its way: the alerts that
  wait in the channel have distinct types, all of them pending.
\<close>

definition alerts_wf :: "monitor \<Rightarrow> bool" where
  "alerts_wf m \<longleftrightarrow> (case mon_subscriber m of None \<Rightarrow> True
     | Some ch \<Rightarrow> distinct (map alert_AlertType (ch_buf ch)) \<and>
         alert_AlertType ` set (ch_buf ch) \<subseteq> fset (pendingAlerts m))"

lemma alerts_wf_send [intro]: "alerts_wf m \<Longrightarrow> alerts_wf (sendAlertLocked a m)"
  by (auto simp: alerts_wf_def sendAlertLocked_def try_send_def split: option.splits if_splits)

lemma alerts_wf_Set [intro]: "alerts_wf m \<Longrightarrow> alerts_wf (SetSlicePendingTaskCount s c m)"
proof -
  assume a: "alerts_wf m"
  have "alerts_wf (m\<lparr>totalPendingTaskCount := t, slicePendingTaskCount := l\<rparr>)" for t l
    using a by (simp add: alerts_wf_def split: option.splits)
  then show ?thesis
    unfolding SetSlicePendingTaskCount_def Let_def by (simp add: alerts_wf_send)
qed

lemma alerts_wf_RemoveSlice [intro]: "alerts_wf m \<Longrightarrow> alerts_wf (RemoveSlice s m)"
  by (auto simp: alerts_wf_def RemoveSlice_def split: option.splits)

lemma Set_raises_alert:
  assumes "EnablePendingTaskCountAlert (mon_options m)" "opt_CriticalPendingTaskCount (mon_options m) > 0"
    and "totalPendingTaskCount m + (c - gm_int (slicePendingTaskCount m) (sid s)) >
           opt_CriticalPendingTaskCount (mon_options m)"
    and "mon_subscriber m = Some ch" "length (ch_buf ch) < ch_cap ch"
  shows "AlertTypeQueuePendingTaskCount |\<in>| pendingAlerts (SetSlicePendingTaskCount s c m)"
  using assms by (auto simp: SetSlicePendingTaskCount_def sendAlertLocked_def try_send_def Let_def)

section \<open>The pause controller\<close>

text \<open>
  The timer is its expiry time; \<open>pc_fire\<close> is the function the timer runs. An operation that
  notifies returns the channels it sends to, given by their addresses.
\<close>

record pause_controller =
  pc_subscribers :: "(string, nat) gomap"
  pauseUntil :: int
  pc_timer :: "int option"

definition NewPauseController :: pause_controller where
  "NewPauseController = \<lparr>pc_subscribers = [], pauseUntil = zeroTime, pc_timer = None\<rparr>"

definition IsPaused :: "pause_controller \<Rightarrow> bool" where
  "IsPaused p \<longleftrightarrow> pc_timer p \<noteq> None"

definition pc_Subscribe :: "string \<Rightarrow> nat \<Rightarrow> pause_controller \<Rightarrow> pause_controller" where
  "pc_Subscribe i ch p = p\<lparr>pc_subscribers := AList.update i ch (pc_subscribers p)\<rparr>"

definition pc_Unsubscribe :: "string \<Rightarrow> pause_controller \<Rightarrow> pause_controller" where
  "pc_Unsubscribe i p = p\<lparr>pc_subscribers := AList.delete i (pc_subscribers p)\<rparr>"

definition pc_Stop :: "pause_controller \<Rightarrow> pause_controller" where
  "pc_Stop p = p\<lparr>pc_timer := None, pauseUntil := zeroTime\<rparr>"

definition notifySubscribers :: "pause_controller \<Rightarrow> nat list" where
  "notifySubscribers p = map snd (pc_subscribers p)"

definition pc_Pause :: "int \<Rightarrow> int \<Rightarrow> pause_controller \<Rightarrow> pause_controller" where
  "pc_Pause now duration p =
     (if duration \<le> 0 then p
      else let newPauseUntil = now + duration in
        if newPauseUntil < pauseUntil p then p
        else p\<lparr>pc_timer := Some (now + duration), pauseUntil := newPauseUntil\<rparr>)"

definition pc_fire :: "pause_controller \<Rightarrow> pause_controller \<times> nat list" where
  "pc_fire p =
     (let p' = p\<lparr>pc_timer := None, pauseUntil := zeroTime\<rparr> in (p', notifySubscribers p'))"

definition pc_Resume :: "pause_controller \<Rightarrow> pause_controller \<times> nat list" where
  "pc_Resume p =
     (if pc_timer p = None then (p, [])
      else let p' = p\<lparr>pc_timer := None, pauseUntil := zeroTime\<rparr> in (p', notifySubscribers p'))"

text \<open>The pause lasts exactly as long as the timer runs.\<close>

definition pause_wf :: "pause_controller \<Rightarrow> bool" where
  "pause_wf p \<longleftrightarrow> pauseUntil p = (case pc_timer p of None \<Rightarrow> zeroTime | Some t \<Rightarrow> t)"

lemma pause_wf_New [intro]: "pause_wf NewPauseController"
  by (simp add: pause_wf_def NewPauseController_def)

lemma pause_wf_ops:
  assumes "pause_wf p"
  shows "pause_wf (pc_Pause now d p)" and "pause_wf (pc_Stop p)"
    and "pause_wf (fst (pc_Resume p))" and "pause_wf (fst (pc_fire p))"
    and "pause_wf (pc_Subscribe i ch p)" and "pause_wf (pc_Unsubscribe i p)"
  using assms
  by (auto simp: pause_wf_def pc_Pause_def pc_Stop_def pc_Resume_def pc_fire_def pc_Subscribe_def
      pc_Unsubscribe_def Let_def)

lemma Pause_extends: "pauseUntil p \<le> pauseUntil (pc_Pause now d p)"
  by (auto simp: pc_Pause_def Let_def)

lemma Pause_pauses:
  assumes "pause_wf p" "0 < d" "zeroTime \<le> now"
  shows "IsPaused (pc_Pause now d p)" and "now + d \<le> pauseUntil (pc_Pause now d p)"
  using assms by (auto simp: pc_Pause_def IsPaused_def pause_wf_def Let_def split: option.splits)

end
