(* ===== verification/Virtual_Queue.thy ===== *)
theory Virtual_Queue
  imports Slice_Merge_Inv Queue_Monitor
begin

text \<open>
  Virtual queues (\<open>service/history/queuev2/virtual_queue.go\<close>): the list of slices, the slice
  that is read next, and the loop that loads tasks and submits them.

  \<^item> The monitor is shared by the virtual queues of a queue, so the operations take it and return it.
  \<^item> \<open>sliceToRead\<close> is a pointer to a list element. An element of the list is named by the
    address of its slice; an element that was removed from the list keeps its slice, but has no
    successor (\<open>Removed\<close>).
  \<^item> \<open>notifyCh\<close> has room for one notification: it is the flag \<open>vq_notified\<close>.
  \<^item> What \<open>loadAndSubmitTasks\<close> gets from outside (the configuration, the clock, the reader, the
    task processor, whether the context is done) is the record \<open>load_env\<close>, and what it does with
    the tasks it loads is a list of events.
\<close>

datatype daemon_status = DaemonStatusInitialized | DaemonStatusStarted | DaemonStatusStopped

datatype list_element = Elem nat | Removed vslice

record vqueue =
  vq_status :: daemon_status
  vq_cancelled :: bool
  vq_notified :: bool
  pauseController :: pause_controller
  virtualSlices :: "vslice list"
  sliceToRead :: "list_element option"

definition NewVirtualQueue :: "vslice list \<Rightarrow> vqueue" where
  "NewVirtualQueue slices =
     \<lparr>vq_status = DaemonStatusInitialized, vq_cancelled = False, vq_notified = False,
      pauseController = NewPauseController, virtualSlices = slices,
      sliceToRead = (case slices of [] \<Rightarrow> None | s # _ \<Rightarrow> Some (Elem (sid s)))\<rparr>"

definition vq_notify :: "vqueue \<Rightarrow> vqueue" where
  "vq_notify q = q\<lparr>vq_notified := True\<rparr>"

text \<open>The channel of the queue has the address 0 at its pause controller.\<close>

definition vq_Start :: "vqueue \<Rightarrow> vqueue" where
  "vq_Start q =
     (if vq_status q \<noteq> DaemonStatusInitialized then q
      else vq_notify (q\<lparr>vq_status := DaemonStatusStarted,
             pauseController := pc_Subscribe ''virtual-queue'' 0 (pauseController q)\<rparr>))"

definition vq_Stop :: "vqueue \<Rightarrow> vqueue \<times> htask list" where
  "vq_Stop q =
     (if vq_status q \<noteq> DaemonStatusStarted then (q, [])
      else (q\<lparr>vq_status := DaemonStatusStopped,
              pauseController := pc_Stop (pc_Unsubscribe ''virtual-queue'' (pauseController q)),
              vq_cancelled := True,
              virtualSlices := map (\<lambda>s. fst (Clear s)) (virtualSlices q)\<rparr>,
            concat (map (\<lambda>s. snd (Clear s)) (virtualSlices q))))"

definition vq_GetState :: "vqueue \<Rightarrow> slice_state list" where
  "vq_GetState q = map vs_state (virtualSlices q)"

text \<open>Removing an element from the list turns a pointer to it into a pointer to a removed element.\<close>

definition unlink :: "vslice \<Rightarrow> list_element option \<Rightarrow> list_element option" where
  "unlink s e = (if e = Some (Elem (sid s)) then Some (Removed s) else e)"

fun update_slices ::
  "vslice list \<Rightarrow> list_element option \<Rightarrow> monitor \<Rightarrow>
   vslice list \<times> slice_state list \<times> list_element option \<times> monitor" where
  "update_slices [] e m = ([], [], e, m)"
| "update_slices (slice # rest) e m =
     (let (slice', state) = UpdateAndGetState slice in
      if vs_IsEmpty slice' then update_slices rest (unlink slice' e) (RemoveSlice slice' m)
      else
        let (ss, states, e', m') = update_slices rest e (track_slice slice' m)
        in (slice' # ss, state # states, e', m'))"

definition vq_UpdateAndGetState :: "vqueue \<Rightarrow> monitor \<Rightarrow> vqueue \<times> slice_state list \<times> monitor" where
  "vq_UpdateAndGetState q m =
     (let (ss, states, e, m') = update_slices (virtualSlices q) (sliceToRead q) m
      in (q\<lparr>virtualSlices := ss, sliceToRead := e\<rparr>, states, m'))"

definition resetNextReadSliceLocked :: "vqueue \<Rightarrow> vqueue" where
  "resetNextReadSliceLocked q =
     (let e = map_option (\<lambda>s. Elem (sid s)) (find HasMoreTasks (virtualSlices q));
          q' = q\<lparr>sliceToRead := e\<rparr>
      in if e \<noteq> None then vq_notify q' else q')"

definition appendOrMergeSlice ::
  "nat \<Rightarrow> vslice list \<Rightarrow> vslice \<Rightarrow> monitor \<Rightarrow> vslice list \<times> monitor \<times> nat" where
  "appendOrMergeSlice n slices incomingSlice m =
     (if slices = [] then ([incomingSlice], track_slice incomingSlice m, n)
      else case TryMergeWithVirtualSlice n (last slices) incomingSlice of
          None \<Rightarrow> (slices @ [incomingSlice], track_slice incomingSlice m, n)
        | Some (mergedSlices, n') \<Rightarrow>
            (butlast slices @ mergedSlices,
             fold track_slice mergedSlices (RemoveSlice incomingSlice (RemoveSlice (last slices) m)),
             n'))"

text \<open>The three loops of \<open>MergeSlices\<close>.\<close>

fun merge_slices_loop ::
  "vslice list \<Rightarrow> vslice list \<Rightarrow> vslice list \<times> monitor \<times> nat \<Rightarrow> vslice list \<times> monitor \<times> nat" where
  "merge_slices_loop (c # cs) (i # is) (acc, m, n) =
     (if Compare (vs_lo c) (vs_lo i) < 0
      then merge_slices_loop cs (i # is) (appendOrMergeSlice n acc c m)
      else merge_slices_loop (c # cs) is (appendOrMergeSlice n acc i m))"
| "merge_slices_loop (c # cs) [] (acc, m, n) = merge_slices_loop cs [] (appendOrMergeSlice n acc c m)"
| "merge_slices_loop [] (i # is) (acc, m, n) = merge_slices_loop [] is (appendOrMergeSlice n acc i m)"
| "merge_slices_loop [] [] r = r"

definition MergeSlices :: "nat \<Rightarrow> vslice list \<Rightarrow> vqueue \<Rightarrow> monitor \<Rightarrow> vqueue \<times> monitor \<times> nat" where
  "MergeSlices n incomingSlices q m =
     (if incomingSlices = [] then (q, m, n)
      else let (merged, m', n') = merge_slices_loop (virtualSlices q) incomingSlices ([], m, n)
        in (resetNextReadSliceLocked (q\<lparr>virtualSlices := merged\<rparr>), m', n'))"

definition MergeWithLastSlice :: "nat \<Rightarrow> vslice \<Rightarrow> vqueue \<Rightarrow> monitor \<Rightarrow> vqueue \<times> monitor \<times> nat" where
  "MergeWithLastSlice n incomingSlice q m =
     (let (ss, m', n') = appendOrMergeSlice n (virtualSlices q) incomingSlice m
      in (resetNextReadSliceLocked (q\<lparr>virtualSlices := ss\<rparr>), m', n'))"

definition AppendSlices :: "vslice list \<Rightarrow> vqueue \<Rightarrow> vqueue" where
  "AppendSlices incomingSlices q =
     (if incomingSlices = [] then q
      else resetNextReadSliceLocked (q\<lparr>virtualSlices := virtualSlices q @ incomingSlices\<rparr>))"

fun clear_slices :: "(vslice \<Rightarrow> bool) \<Rightarrow> vslice list \<Rightarrow> monitor \<Rightarrow> vslice list \<times> htask list \<times> monitor" where
  "clear_slices f [] m = ([], [], m)"
| "clear_slices f (slice # rest) m =
     (if f slice then
        let (slice', cancelled) = Clear slice;
            (ss, cs, m') = clear_slices f rest (track_slice slice' m)
        in (slice' # ss, cancelled @ cs, m')
      else let (ss, cs, m') = clear_slices f rest m in (slice # ss, cs, m'))"

definition ClearSlices :: "(vslice \<Rightarrow> bool) \<Rightarrow> vqueue \<Rightarrow> monitor \<Rightarrow> vqueue \<times> htask list \<times> monitor" where
  "ClearSlices f q m =
     (let (ss, cancelled, m') = clear_slices f (virtualSlices q) m
      in (resetNextReadSliceLocked (q\<lparr>virtualSlices := ss\<rparr>), cancelled, m'))"

text \<open>
  The function passed to \<open>SplitSlices\<close> may allocate slices and has effects of its own on a
  state \<open>'s\<close>; \<open>None\<close> is its answer that the slice is not split.
\<close>

fun split_slices ::
  "('s \<Rightarrow> vslice \<Rightarrow> vslice list option \<times> 's) \<Rightarrow> vslice list \<Rightarrow> 's \<Rightarrow> monitor \<Rightarrow>
   vslice list \<times> 's \<times> monitor" where
  "split_slices f [] st m = ([], st, m)"
| "split_slices f (slice # rest) st m =
     (case f st slice of
        (None, st') \<Rightarrow>
          let (ss, st'', m') = split_slices f rest st' m in (slice # ss, st'', m')
      | (Some remaining, st') \<Rightarrow>
          let (ss, st'', m') = split_slices f rest st' (fold track_slice remaining (RemoveSlice slice m))
          in (remaining @ ss, st'', m'))"

definition SplitSlices ::
  "('s \<Rightarrow> vslice \<Rightarrow> vslice list option \<times> 's) \<Rightarrow> vqueue \<Rightarrow> 's \<Rightarrow> monitor \<Rightarrow> vqueue \<times> 's \<times> monitor" where
  "SplitSlices f q st m =
     (let (ss, st', m') = split_slices f (virtualSlices q) st m
      in (resetNextReadSliceLocked (q\<lparr>virtualSlices := ss\<rparr>), st', m'))"

definition vq_Pause :: "int \<Rightarrow> int \<Rightarrow> vqueue \<Rightarrow> vqueue" where
  "vq_Pause now duration q = q\<lparr>pauseController := pc_Pause now duration (pauseController q)\<rparr>"

section \<open>Loading tasks\<close>

definition taskReaderErrorBackoffInterval :: int where
  "taskReaderErrorBackoffInterval = 1 * 1000000000"

definition taskSchedulerThrottleBackoffInterval :: int where
  "taskSchedulerThrottleBackoffInterval = 5 * 1000000000"

record load_env =
  PageSize :: int
  MaxPendingTasksCount :: int
  PollBackoffInterval :: int
  le_limiterErr :: bool
  le_ctxDone :: bool
  le_pauseNow :: int
  le_now :: int
  le_throttleNow :: "htask \<Rightarrow> int"
  le_reader :: "GetTaskRequest \<Rightarrow> GetTaskResponse result"
  le_taskInitializer :: "ptask \<Rightarrow> htask"
  TrySubmit :: "htask \<Rightarrow> bool \<times> bool"

datatype load_event =
    CorruptedAcked htask
  | RescheduleTask htask int
  | Submitted htask

definition slice_Ack :: "htask_key \<Rightarrow> vslice \<Rightarrow> vslice" where
  "slice_Ack k s = s\<lparr>pendingTaskTracker := tracker_Ack k (pendingTaskTracker s)\<rparr>"

definition SetInitialSubmitTime :: "int \<Rightarrow> htask \<Rightarrow> htask" where
  "SetInitialSubmitTime now t = t\<lparr>ht_initialSubmitTime := now\<rparr>"

definition slice_SetInitialSubmitTime :: "int \<Rightarrow> htask_key \<Rightarrow> vslice \<Rightarrow> vslice" where
  "slice_SetInitialSubmitTime now k s =
     s\<lparr>pendingTaskTracker := (pendingTaskTracker s)
         \<lparr>taskMap := map (\<lambda>(k', t). (k', if k' = k then SetInitialSubmitTime now t else t))
            (taskMap (pendingTaskTracker s))\<rparr>\<rparr>"

text \<open>The second component of \<open>TrySubmit\<close> is whether it reported an error; the last component
  of the result is whether the loop returned because the context is done.\<close>

fun submit_tasks :: "load_env \<Rightarrow> htask list \<Rightarrow> vslice \<Rightarrow> load_event list \<times> vslice \<times> bool" where
  "submit_tasks env [] s = ([], s, False)"
| "submit_tasks env (task # tasks) s =
     (if IsTaskCorrupted (ht_Task task) then
        let (evs, s', ret) = submit_tasks env tasks (slice_Ack (ht_key task) s)
        in (CorruptedAcked (task_Ack task) # evs, s', ret)
      else if le_now env < scheduledTime (ht_key task) then
        let (evs, s', ret) = submit_tasks env tasks s
        in (RescheduleTask task (scheduledTime (ht_key task)) # evs, s', ret)
      else
        let task' = SetInitialSubmitTime (le_now env) task;
            s1 = slice_SetInitialSubmitTime (le_now env) (ht_key task) s;
            (submitted, err) = TrySubmit env task' in
        if err \<and> le_ctxDone env then ([], s1, True)
        else
          let (evs, s', ret) = submit_tasks env tasks s1;
              ev = (if \<not> submitted
                    then RescheduleTask task' (le_throttleNow env task' + taskSchedulerThrottleBackoffInterval)
                    else Submitted task')
          in (ev # evs, s', ret))"

definition elem_slice :: "vslice list \<Rightarrow> list_element \<Rightarrow> vslice option" where
  "elem_slice ss e = (case e of Elem i \<Rightarrow> find (\<lambda>s. sid s = i) ss | Removed s \<Rightarrow> Some s)"

text \<open>Removing an element from a Go list clears its links, so a removed element has no successor.\<close>

fun elem_next :: "vslice list \<Rightarrow> list_element \<Rightarrow> list_element option" where
  "elem_next (s # s' # ss) (Elem i) =
     (if sid s = i then Some (Elem (sid s')) else elem_next (s' # ss) (Elem i))"
| "elem_next _ _ = None"

text \<open>The slice object the element points to has changed.\<close>

definition put_slice :: "list_element \<Rightarrow> vslice \<Rightarrow> vqueue \<Rightarrow> vqueue" where
  "put_slice e s q =
     (case e of
        Elem i \<Rightarrow> q\<lparr>virtualSlices := map (\<lambda>s'. if sid s' = i then s else s') (virtualSlices q)\<rparr>
      | Removed _ \<Rightarrow> q\<lparr>sliceToRead := Some (Removed s)\<rparr>)"

definition load_slice ::
  "load_env \<Rightarrow> int \<Rightarrow> list_element \<Rightarrow> vslice \<Rightarrow> vqueue \<Rightarrow> monitor \<Rightarrow>
   (load_event list \<times> vqueue \<times> monitor) option" where
  "load_slice env pendingTaskCount e slice q m =
     (let remainingSize = MaxPendingTasksCount env - pendingTaskCount;
          remainingSize = (if remainingSize \<le> 0 then 1 else remainingSize);
          pageSize = min (PageSize env) remainingSize in
      case GetTasks (le_reader env) (le_taskInitializer env) pageSize slice of
        None \<Rightarrow> None
      | Some (Inl err, slice') \<Rightarrow>
          Some ([], vq_Pause (le_pauseNow env) taskReaderErrorBackoffInterval (put_slice e slice' q), m)
      | Some (Inr tasks, slice') \<Rightarrow>
          let m' = track_slice slice' m;
              (evs, slice'', ret) = submit_tasks env tasks slice';
              q' = put_slice e slice'' q in
          if ret then Some (evs, q', m')
          else if HasMoreTasks slice'' then Some (evs, vq_notify q', m')
          else
            let next = elem_next (virtualSlices q') e;
                q'' = q'\<lparr>sliceToRead := next\<rparr>
            in Some (evs, if next \<noteq> None then vq_notify q'' else q'', m'))"

definition loadAndSubmitTasks ::
  "load_env \<Rightarrow> vqueue \<Rightarrow> monitor \<Rightarrow> (load_event list \<times> vqueue \<times> monitor) option" where
  "loadAndSubmitTasks env q m =
     (if le_limiterErr env \<and> le_ctxDone env then Some ([], q, m)
      else case sliceToRead q of None \<Rightarrow> Some ([], q, m)
        | Some e \<Rightarrow>
            let pendingTaskCount = GetTotalPendingTaskCount m;
                q1 = (if pendingTaskCount \<ge> MaxPendingTasksCount env
                      then vq_Pause (le_pauseNow env) (PollBackoffInterval env) q else q) in
            if IsPaused (pauseController q1) then Some ([], q1, m)
            else (case elem_slice (virtualSlices q1) e of
                    None \<Rightarrow> Some ([], q1, m)
                  | Some slice \<Rightarrow> load_slice env pendingTaskCount e slice q1 m))"

text \<open>One step of the goroutine \<open>run\<close> that takes a notification.\<close>

definition run_step :: "load_env \<Rightarrow> vqueue \<Rightarrow> monitor \<Rightarrow> (load_event list \<times> vqueue \<times> monitor) option" where
  "run_step env q m =
     (if vq_cancelled q \<or> \<not> vq_notified q then Some ([], q, m)
      else loadAndSubmitTasks env (q\<lparr>vq_notified := False\<rparr>) m)"

end
