(* ===== verification/Cached_Reader.thy ===== *)
theory Cached_Reader
  imports Mem_Queue Virtual_Queue
begin

text \<open>
  The caching queue readers (\<open>service/history/queuev2/queue_reader_cached_base.go\<close>,
  \<open>queue_reader_cached_immediate.go\<close>, \<open>queue_reader_cached_scheduled.go\<close>): a window of the stored
  tasks is kept in memory and serves the reads that fall into it.

  Both readers extend \<open>cached_reader\<close>. The two function fields of the base, which the scheduled
  reader sets, are the record \<open>reader_hooks\<close>; a field that is \<open>nil\<close> is the identity. What the
  configuration, the clock and the shard answer during a call is the record \<open>reader_env\<close>. A prefetch
  releases the lock while it reads the store, so it is modelled as two steps between which other
  operations can happen.
\<close>

section \<open>The common part\<close>

record cached_reader =
  cr_queue :: mem_queue
  inclusiveLowerBound :: htask_key
  exclusiveUpperBound :: htask_key
  lastRangeID :: int
  lastShadowSampleUnixNano :: int
  cr_status :: daemon_status

record reader_env =
  Mode :: string
  MaxSize :: int
  ShadowSampleInterval :: int
  re_now :: int
  re_rangeID :: int
  re_swapped :: bool
  RangeSizeBits :: nat

record 'r reader_hooks =
  onUpperBoundUpdatedLockedFn :: "'r \<Rightarrow> 'r"
  onClearLockedFn :: "'r \<Rightarrow> 'r"

definition newCachedQueueReaderBase :: "int \<Rightarrow> cached_reader" where
  "newCachedQueueReaderBase rangeID =
     \<lparr>cr_queue = newInMemQueue, inclusiveLowerBound = MinimumHistoryTaskKey,
      exclusiveUpperBound = MinimumHistoryTaskKey, lastRangeID = rangeID,
      lastShadowSampleUnixNano = 0, cr_status = DaemonStatusInitialized\<rparr>"

definition isEnabled :: "'e reader_env_scheme \<Rightarrow> bool" where
  "isEnabled env \<longleftrightarrow> Mode env = ''enabled''"

definition isShadow :: "'e reader_env_scheme \<Rightarrow> bool" where
  "isShadow env \<longleftrightarrow> Mode env = ''shadow''"

definition isCachedQueueReaderDisabled :: "string \<Rightarrow> bool" where
  "isCachedQueueReaderDisabled mode \<longleftrightarrow> \<not> (mode = ''enabled'' \<or> mode = ''shadow'')"

definition isDisabled :: "'e reader_env_scheme \<Rightarrow> bool" where
  "isDisabled env \<longleftrightarrow> isCachedQueueReaderDisabled (Mode env)"

definition cr_IsEmpty :: "'z cached_reader_scheme \<Rightarrow> bool" where
  "cr_IsEmpty q \<longleftrightarrow> key_Equal (exclusiveUpperBound q) MinimumHistoryTaskKey"

definition updateExclusiveUpperBound ::
  "'z cached_reader_scheme reader_hooks \<Rightarrow> htask_key \<Rightarrow> 'z cached_reader_scheme \<Rightarrow> 'z cached_reader_scheme" where
  "updateExclusiveUpperBound hk newKey q =
     onUpperBoundUpdatedLockedFn hk (q\<lparr>exclusiveUpperBound := newKey\<rparr>)"

definition updateInclusiveLowerBound ::
  "htask_key \<Rightarrow> 'z cached_reader_scheme \<Rightarrow> 'z cached_reader_scheme" where
  "updateInclusiveLowerBound newKey q = q\<lparr>inclusiveLowerBound := newKey\<rparr>"

definition clearLocked ::
  "'z cached_reader_scheme reader_hooks \<Rightarrow> 'z cached_reader_scheme \<Rightarrow> 'z cached_reader_scheme" where
  "clearLocked hk q =
     onClearLockedFn hk
       (updateExclusiveUpperBound hk MinimumHistoryTaskKey
         (updateInclusiveLowerBound MinimumHistoryTaskKey (q\<lparr>cr_queue := mq_Clear (cr_queue q)\<rparr>)))"

definition cr_Clear ::
  "'z cached_reader_scheme reader_hooks \<Rightarrow> 'z cached_reader_scheme \<Rightarrow> 'z cached_reader_scheme" where
  "cr_Clear hk q = clearLocked hk q"

definition clearIfNotEmpty ::
  "'z cached_reader_scheme reader_hooks \<Rightarrow> 'z cached_reader_scheme \<Rightarrow> 'z cached_reader_scheme" where
  "clearIfNotEmpty hk q = (if \<not> cr_IsEmpty q then cr_Clear hk q else q)"

definition isRangeIDChangedLocked :: "'e reader_env_scheme \<Rightarrow> 'z cached_reader_scheme \<Rightarrow> bool" where
  "isRangeIDChangedLocked env q \<longleftrightarrow> re_rangeID env \<noteq> lastRangeID q"

definition fallbackIfRangeIDChanged ::
  "'z cached_reader_scheme reader_hooks \<Rightarrow> 'e reader_env_scheme \<Rightarrow> 'z cached_reader_scheme \<Rightarrow>
   bool \<times> 'z cached_reader_scheme" where
  "fallbackIfRangeIDChanged hk env q =
     (if \<not> isRangeIDChangedLocked env q then (False, q)
      else
        let newRangeID = re_rangeID env; prevRangeID = lastRangeID q;
            q' = q\<lparr>lastRangeID := newRangeID\<rparr> in
        if newRangeID = wrap64 (prevRangeID + 1) then (False, q') else (True, clearLocked hk q'))"

definition isRangeCovered :: "htask_key \<Rightarrow> htask_key \<Rightarrow> 'z cached_reader_scheme \<Rightarrow> bool" where
  "isRangeCovered inclusiveMin exclusiveMax q \<longleftrightarrow>
     \<not> key_Less inclusiveMin (inclusiveLowerBound q) \<and> \<not> key_Greater exclusiveMax (exclusiveUpperBound q)"

definition isTaskCovered :: "htask_key \<Rightarrow> 'z cached_reader_scheme \<Rightarrow> bool" where
  "isTaskCovered key q \<longleftrightarrow>
     \<not> key_Less key (inclusiveLowerBound q) \<and> key_Less key (exclusiveUpperBound q)"

definition advanceInclusiveLowerBound ::
  "htask_key \<Rightarrow> 'z cached_reader_scheme \<Rightarrow> 'z cached_reader_scheme" where
  "advanceInclusiveLowerBound newKey q =
     (if \<not> key_Greater newKey (inclusiveLowerBound q) then q
      else
        let newKey = (if \<not> key_Less newKey (exclusiveUpperBound q) then exclusiveUpperBound q else newKey)
        in updateInclusiveLowerBound newKey (q\<lparr>cr_queue := LTrim newKey (cr_queue q)\<rparr>))"

definition UpdateReadLevel :: "htask_key \<Rightarrow> 'z cached_reader_scheme \<Rightarrow> 'z cached_reader_scheme" where
  "UpdateReadLevel readLevel q =
     (if key_Equal readLevel MaximumHistoryTaskKey then q else advanceInclusiveLowerBound readLevel q)"

definition resolveInclusiveMinTaskKey :: "GetTaskRequest \<Rightarrow> htask_key option" where
  "resolveInclusiveMinTaskKey req =
     (if NextPageToken (req_Progress req) \<noteq> None
      then (if key_Equal (NextTaskKey (req_Progress req)) MinimumHistoryTaskKey then None
            else Some (NextTaskKey (req_Progress req)))
      else Some (InclusiveMinTaskKey (req_Progress req)))"

definition cr_LookAHead ::
  "(htask_key \<Rightarrow> LookAHeadResponse result) \<Rightarrow> htask_key \<Rightarrow> LookAHeadResponse result" where
  "cr_LookAHead base_LookAHead inclusiveMinTaskKey = base_LookAHead inclusiveMinTaskKey"

definition isPeriodicShadowSample ::
  "'e reader_env_scheme \<Rightarrow> 'z cached_reader_scheme \<Rightarrow> bool \<times> 'z cached_reader_scheme" where
  "isPeriodicShadowSample env q =
     (if ShadowSampleInterval env \<le> 0 then (False, q)
      else if wrap64 (re_now env - lastShadowSampleUnixNano q) < ShadowSampleInterval env then (False, q)
      else if \<not> re_swapped env then (False, q)
      else (True, q\<lparr>lastShadowSampleUnixNano := re_now env\<rparr>))"

section \<open>Shadow comparison\<close>

record shadowMismatchTaskInfo =
  sm_TaskKey :: htask_key
  sm_RunID :: string

record TaskMismatches =
  RangeIDs :: "int list"
  Extra :: "shadowMismatchTaskInfo list"
  Missed :: "shadowMismatchTaskInfo list"
  TaskIDBoundaryNoise :: "shadowMismatchTaskInfo list"

record findMismatchesInShadowResult =
  NewRange :: TaskMismatches
  CurrentRange :: TaskMismatches
  PreviousRange :: TaskMismatches
  CurrentRangeID :: int
  CacheTaskCount :: nat
  DBTaskCount :: nat

definition shadowMismatchLogLimit :: nat where
  "shadowMismatchLogLimit = 100"

definition capShadowMismatchSlice :: "'a list \<Rightarrow> 'a list" where
  "capShadowMismatchSlice s = (if length s \<le> shadowMismatchLogLimit then s else take shadowMismatchLogLimit s)"

definition toShadowMismatchTaskInfo :: "ptask \<Rightarrow> shadowMismatchTaskInfo" where
  "toShadowMismatchTaskInfo t = \<lparr>sm_TaskKey = GetTaskKey t, sm_RunID = GetRunID t\<rparr>"

definition tm_isEmpty :: "TaskMismatches \<Rightarrow> bool" where
  "tm_isEmpty m \<longleftrightarrow> length (Extra m) = 0 \<and> length (Missed m) = 0"

definition tm_cap :: "TaskMismatches \<Rightarrow> TaskMismatches" where
  "tm_cap m =
     \<lparr>RangeIDs = capShadowMismatchSlice (RangeIDs m), Extra = capShadowMismatchSlice (Extra m),
      Missed = capShadowMismatchSlice (Missed m),
      TaskIDBoundaryNoise = capShadowMismatchSlice (TaskIDBoundaryNoise m)\<rparr>"

text \<open>The arithmetic shift of a task ID.\<close>

definition getTaskRangeID :: "'e reader_env_scheme \<Rightarrow> int \<Rightarrow> int" where
  "getTaskRangeID env i = i div 2 ^ RangeSizeBits env"

text \<open>
  The tasks of one bucket: those whose range ID satisfies \<open>inb\<close>. Tasks of the store that the cache
  lacks are noise if they lie below the start of the request. The range IDs of the current bucket
  are not recorded; the order of the recorded ones is the order of a map.
\<close>

definition bucket_of ::
  "'e reader_env_scheme \<Rightarrow> htask_key \<Rightarrow> (int \<Rightarrow> bool) \<Rightarrow> bool \<Rightarrow> ptask list \<Rightarrow> ptask list \<Rightarrow> TaskMismatches" where
  "bucket_of env lo inb record_ids missing extra =
     (let inb' = (\<lambda>t. inb (getTaskRangeID env (task_TaskID t))) in
      \<lparr>RangeIDs = (if record_ids
         then remdups (map (\<lambda>t. getTaskRangeID env (task_TaskID t)) (filter inb' (missing @ extra))) else []),
       Extra = map toShadowMismatchTaskInfo (filter inb' extra),
       Missed = map toShadowMismatchTaskInfo (filter (\<lambda>t. inb' t \<and> \<not> key_Less (GetTaskKey t) lo) missing),
       TaskIDBoundaryNoise =
         map toShadowMismatchTaskInfo (filter (\<lambda>t. inb' t \<and> key_Less (GetTaskKey t) lo) missing)\<rparr>)"

definition findMismatchesInShadow ::
  "'e reader_env_scheme \<Rightarrow> GetTaskResponse \<Rightarrow> GetTaskResponse \<Rightarrow> GetTaskRequest \<Rightarrow> findMismatchesInShadowResult" where
  "findMismatchesInShadow env cacheResp dbResp req =
     (let inclusiveMinTaskKey =
            (case resolveInclusiveMinTaskKey req of None \<Rightarrow> MinimumHistoryTaskKey | Some k \<Rightarrow> k);
          cacheTaskKeys = task_TaskID ` set (resp_Tasks cacheResp);
          dbTaskKeys = task_TaskID ` set (resp_Tasks dbResp);
          currentRangeID = re_rangeID env;
          missing = filter (\<lambda>t. task_TaskID t \<notin> cacheTaskKeys) (resp_Tasks dbResp);
          extra = filter (\<lambda>t. task_TaskID t \<notin> dbTaskKeys) (resp_Tasks cacheResp);
          bucket = (\<lambda>inb record_ids. bucket_of env inclusiveMinTaskKey inb record_ids missing extra)
      in \<lparr>NewRange = bucket (\<lambda>i. i > currentRangeID) True,
          CurrentRange = bucket (\<lambda>i. i = currentRangeID) False,
          PreviousRange = bucket (\<lambda>i. i < currentRangeID) True,
          CurrentRangeID = currentRangeID, CacheTaskCount = length (resp_Tasks cacheResp),
          DBTaskCount = length (resp_Tasks dbResp)\<rparr>)"

definition emitShadowMismatchMetrics :: "findMismatchesInShadowResult \<Rightarrow> (string \<times> nat) list" where
  "emitShadowMismatchMetrics result =
     (if \<not> tm_isEmpty (NewRange result) then []
      else (if length (Missed (CurrentRange result)) > 0
            then [(''current'', length (Missed (CurrentRange result)))] else []) @
           (if length (Missed (PreviousRange result)) > 0
            then [(''previous'', length (Missed (PreviousRange result)))] else []))"

datatype shadow_log = StaleShardOwner | SevereMismatch | NonCriticalMismatch | ShadowMatched

record shadow_report =
  rep_metrics :: "(string \<times> nat) list"
  rep_log :: shadow_log
  rep_result :: findMismatchesInShadowResult

definition reportShadowComparison :: "findMismatchesInShadowResult \<Rightarrow> shadow_report" where
  "reportShadowComparison result =
     (let capped = result\<lparr>NewRange := tm_cap (NewRange result), CurrentRange := tm_cap (CurrentRange result),
                          PreviousRange := tm_cap (PreviousRange result)\<rparr>
      in \<lparr>rep_metrics = emitShadowMismatchMetrics result,
          rep_log =
            (if \<not> tm_isEmpty (NewRange capped) then StaleShardOwner
             else if length (Missed (CurrentRange capped)) > 0 then SevereMismatch
             else if length (Extra (CurrentRange capped)) > 0 \<or> \<not> tm_isEmpty (PreviousRange capped)
             then NonCriticalMismatch else ShadowMatched),
          rep_result = capped\<rparr>)"

definition getTaskInShadow ::
  "'e reader_env_scheme \<Rightarrow> (GetTaskRequest \<Rightarrow> GetTaskResponse result) \<Rightarrow> GetTaskRequest \<Rightarrow> GetTaskResponse \<Rightarrow>
   GetTaskResponse result \<times> shadow_report option" where
  "getTaskInShadow env base req cacheResp =
     (case base req of
        Inl err \<Rightarrow> (Err err, None)
      | Inr dbResp \<Rightarrow> (Ok dbResp, Some (reportShadowComparison (findMismatchesInShadow env cacheResp dbResp req))))"

section \<open>Reading through the cache\<close>

definition cached_GetTask ::
  "'z cached_reader_scheme reader_hooks \<Rightarrow> 'e reader_env_scheme \<Rightarrow>
   (GetTaskRequest \<Rightarrow> GetTaskResponse result) \<Rightarrow> GetTaskRequest \<Rightarrow> 'z cached_reader_scheme \<Rightarrow>
   GetTaskResponse result \<times> shadow_report option \<times> 'z cached_reader_scheme" where
  "cached_GetTask hk env base req q =
     (if isDisabled env then (base req, None, q)
      else case fallbackIfRangeIDChanged hk env q of
        (True, q1) \<Rightarrow> (base req, None, q1)
      | (False, q1) \<Rightarrow>
          (case resolveInclusiveMinTaskKey req of
             None \<Rightarrow> (base req, None, q1)
           | Some inclusiveMinTaskKey \<Rightarrow>
               let exclusiveMaxTaskKey = ExclusiveMaxTaskKey (req_Progress req) in
               if \<not> isRangeCovered inclusiveMinTaskKey exclusiveMaxTaskKey q1 then (base req, None, q1)
               else
                 let (tasks, nextTaskKey) =
                       mq_GetTasks inclusiveMinTaskKey exclusiveMaxTaskKey (req_Predicate req)
                         (req_PageSize req) (cr_queue q1);
                     cacheResp =
                       \<lparr>resp_Tasks = tasks,
                        resp_Progress =
                          \<lparr>InclusiveMinTaskKey = nextTaskKey, ExclusiveMaxTaskKey = exclusiveMaxTaskKey,
                           NextPageToken = None, NextTaskKey = nextTaskKey\<rparr>\<rparr>;
                     (sample, q2) = (if isShadow env then (True, q1) else isPeriodicShadowSample env q1)
                 in if sample
                    then (case getTaskInShadow env base req cacheResp of (resp, rep) \<Rightarrow> (resp, rep, q2))
                    else (Ok cacheResp, None, q2)))"

section \<open>The immediate reader\<close>

text \<open>It sets none of the hooks.\<close>

definition no_hooks :: "'r reader_hooks" where
  "no_hooks = \<lparr>onUpperBoundUpdatedLockedFn = (\<lambda>q. q), onClearLockedFn = (\<lambda>q. q)\<rparr>"

definition ir_Start :: "cached_reader \<Rightarrow> cached_reader" where
  "ir_Start q = (if cr_status q \<noteq> DaemonStatusInitialized then q else q\<lparr>cr_status := DaemonStatusStarted\<rparr>)"

definition ir_Stop :: "cached_reader \<Rightarrow> cached_reader" where
  "ir_Stop q = (if cr_status q \<noteq> DaemonStatusStarted then q else q\<lparr>cr_status := DaemonStatusStopped\<rparr>)"

definition ir_putTasks :: "'e reader_env_scheme \<Rightarrow> ptask list \<Rightarrow> cached_reader \<Rightarrow> cached_reader result" where
  "ir_putTasks env tasks q =
     (if length tasks = 0 then Ok q
      else
        let q1 = q\<lparr>cr_queue := PutTasks tasks (cr_queue q)\<rparr> in
        rbind
          (if key_Equal (exclusiveUpperBound q1) MinimumHistoryTaskKey then
             (case mq_LookAHead MinimumHistoryTaskKey (cr_queue q1) of
                None \<Rightarrow> Err (Panic ''nil pointer dereference'' [])
              | Some t \<Rightarrow>
                  Ok (updateExclusiveUpperBound no_hooks MaximumHistoryTaskKey
                        (updateInclusiveLowerBound (GetTaskKey t) q1)))
           else Ok q1) (\<lambda>q2.
        case LTrimBySize (MaxSize env) (cr_queue q2) of
          (newLower, trimmed, queue') \<Rightarrow>
            let q3 = q2\<lparr>cr_queue := queue'\<rparr> in
            if \<not> trimmed then Ok q3
            else
              let q4 = (if key_Equal newLower MinimumHistoryTaskKey
                        then updateExclusiveUpperBound no_hooks MinimumHistoryTaskKey q3 else q3)
              in Ok (updateInclusiveLowerBound newLower q4)))"

definition ir_Inject :: "'e reader_env_scheme \<Rightarrow> ptask list \<Rightarrow> cached_reader \<Rightarrow> cached_reader result" where
  "ir_Inject env tasks q =
     (if isDisabled env then Ok (clearIfNotEmpty no_hooks q)
      else
        ir_putTasks env
          (filter (\<lambda>t. task_TaskID t \<noteq> 0 \<and> \<not> key_Less (GetTaskKey t) (inclusiveLowerBound q)) tasks) q)"

section \<open>The scheduled reader\<close>

record scheduled_reader = cached_reader +
  prefetchTargetUpper :: htask_key
  pendingInjectBuffer :: "ptask list"
  prefetchCh :: bool
  sr_cancelled :: bool

text \<open>A jittered duration is random: it is an argument, as a function of the duration.\<close>

record scheduled_env = reader_env +
  MaxLookAheadWindow :: int
  PrefetchTriggerWindow :: int
  PrefetchPageSize :: int
  TimeEvictionWindow :: int
  MinPrefetchInterval :: int
  JitDuration :: "int \<Rightarrow> int"

definition notifyPrefetch :: "scheduled_reader \<Rightarrow> scheduled_reader" where
  "notifyPrefetch q = q\<lparr>prefetchCh := True\<rparr>"

definition resetPrefetchState :: "scheduled_reader \<Rightarrow> scheduled_reader" where
  "resetPrefetchState q = q\<lparr>pendingInjectBuffer := [], prefetchTargetUpper := MinimumHistoryTaskKey\<rparr>"

definition sr_hooks :: "scheduled_reader reader_hooks" where
  "sr_hooks = \<lparr>onUpperBoundUpdatedLockedFn = notifyPrefetch, onClearLockedFn = resetPrefetchState\<rparr>"

definition newCachedScheduledQueueReader :: "int \<Rightarrow> scheduled_reader" where
  "newCachedScheduledQueueReader rangeID =
     cached_reader.extend (newCachedQueueReaderBase rangeID)
       \<lparr>prefetchTargetUpper = MinimumHistoryTaskKey, pendingInjectBuffer = [], prefetchCh = False,
        sr_cancelled = False\<rparr>"

definition sr_Start :: "scheduled_reader \<Rightarrow> scheduled_reader" where
  "sr_Start q = (if cr_status q \<noteq> DaemonStatusInitialized then q else q\<lparr>cr_status := DaemonStatusStarted\<rparr>)"

definition sr_Stop :: "scheduled_reader \<Rightarrow> scheduled_reader" where
  "sr_Stop q = (if cr_status q \<noteq> DaemonStatusStarted then q
     else q\<lparr>cr_status := DaemonStatusStopped, sr_cancelled := True\<rparr>)"

definition nextPrefetchDelay :: "scheduled_env \<Rightarrow> scheduled_reader \<Rightarrow> int" where
  "nextPrefetchDelay env q =
     (let triggerTime = scheduledTime (exclusiveUpperBound q) - PrefetchTriggerWindow env;
          delay = max (MinPrefetchInterval env) (triggerTime - re_now env);
          jittered = JitDuration env delay
      in max (MinPrefetchInterval env) (min delay jittered))"

definition sr_LookAHead ::
  "scheduled_env \<Rightarrow> (htask_key \<Rightarrow> LookAHeadResponse result) \<Rightarrow> htask_key \<Rightarrow> scheduled_reader \<Rightarrow>
   LookAHeadResponse result \<times> scheduled_reader" where
  "sr_LookAHead env base_LookAHead inclusiveMinTaskKey q =
     (if isDisabled env \<or> isShadow env then (base_LookAHead inclusiveMinTaskKey, q)
      else case fallbackIfRangeIDChanged sr_hooks env q of
        (True, q1) \<Rightarrow> (base_LookAHead inclusiveMinTaskKey, q1)
      | (False, q1) \<Rightarrow>
          if \<not> isTaskCovered inclusiveMinTaskKey q1 then (base_LookAHead inclusiveMinTaskKey, q1)
          else (Ok \<lparr>la_Task = mq_LookAHead inclusiveMinTaskKey (cr_queue q1),
                    la_LookAheadMaxTime = scheduledTime (exclusiveUpperBound q1)\<rparr>, q1))"

definition tryTimeEvict :: "scheduled_env \<Rightarrow> int \<Rightarrow> scheduled_reader \<Rightarrow> scheduled_reader" where
  "tryTimeEvict env extraTasks q =
     (if mq_Len (cr_queue q) + extraTasks < MaxSize env then q
      else advanceInclusiveLowerBound (NewHistoryTaskKey (re_now env - TimeEvictionWindow env) 0) q)"

definition tryTimeEvictIfCacheFull :: "scheduled_env \<Rightarrow> scheduled_reader \<Rightarrow> scheduled_reader" where
  "tryTimeEvictIfCacheFull env q = tryTimeEvict env 1 q"

definition sr_putTasks :: "scheduled_env \<Rightarrow> ptask list \<Rightarrow> scheduled_reader \<Rightarrow> bool \<times> scheduled_reader" where
  "sr_putTasks env tasks q =
     (if length tasks = 0 then (False, q)
      else
        let q1 = tryTimeEvict env (int (length tasks)) q;
            q2 = q1\<lparr>cr_queue := PutTasks tasks (cr_queue q1)\<rparr> in
        case RTrimBySize (MaxSize env) (cr_queue q2) of
          (newUpper, trimmed, queue') \<Rightarrow>
            let q3 = q2\<lparr>cr_queue := queue'\<rparr> in
            if \<not> trimmed then (False, q3)
            else
              let q4 = (if key_Equal newUpper MinimumHistoryTaskKey
                        then updateInclusiveLowerBound MinimumHistoryTaskKey q3 else q3)
              in (True, updateExclusiveUpperBound sr_hooks newUpper q4))"

definition isToBufferTask :: "htask_key \<Rightarrow> scheduled_reader \<Rightarrow> bool" where
  "isToBufferTask key q \<longleftrightarrow>
     \<not> key_Equal (prefetchTargetUpper q) MinimumHistoryTaskKey \<and>
     key_GreaterOrEqual key (exclusiveUpperBound q) \<and> key_Less key (prefetchTargetUpper q)"

definition insertBufferedTasks :: "scheduled_env \<Rightarrow> scheduled_reader \<Rightarrow> scheduled_reader" where
  "insertBufferedTasks env q =
     (if length (pendingInjectBuffer q) = 0 then q
      else
        let covered = filter (\<lambda>t. isTaskCovered (GetTaskKey t) q) (pendingInjectBuffer q)
        in snd (sr_putTasks env covered (q\<lparr>pendingInjectBuffer := []\<rparr>)))"

definition sr_Inject :: "scheduled_env \<Rightarrow> ptask list \<Rightarrow> scheduled_reader \<Rightarrow> scheduled_reader" where
  "sr_Inject env tasks q =
     (if isDisabled env then clearIfNotEmpty sr_hooks q
      else
        let tasks' = filter (\<lambda>t. task_TaskID t \<noteq> 0) tasks;
            covered = filter (\<lambda>t. isTaskCovered (GetTaskKey t) q) tasks';
            buffered = filter (\<lambda>t. \<not> isTaskCovered (GetTaskKey t) q \<and> isToBufferTask (GetTaskKey t) q) tasks'
        in snd (sr_putTasks env covered (q\<lparr>pendingInjectBuffer := pendingInjectBuffer q @ buffered\<rparr>)))"

text \<open>A prefetch that has been started: the upper bound it saw and the request it sends.\<close>

record prefetch_flight =
  pf_upperBound :: htask_key
  pf_inclusiveMin :: htask_key
  pf_exclusiveMax :: htask_key
  pf_pageSize :: int

definition pf_request :: "prefetch_flight \<Rightarrow> GetTaskRequest" where
  "pf_request pf =
     \<lparr>req_Progress = \<lparr>InclusiveMinTaskKey = pf_inclusiveMin pf, ExclusiveMaxTaskKey = pf_exclusiveMax pf,
                      NextPageToken = None, NextTaskKey = pf_inclusiveMin pf\<rparr>,
      req_Predicate = NewUniversalPredicate, req_PageSize = pf_pageSize pf\<rparr>"

definition prefetch_begin ::
  "scheduled_env \<Rightarrow> scheduled_reader \<Rightarrow> prefetch_flight option \<times> scheduled_reader" where
  "prefetch_begin env q =
     (if isDisabled env then (None, clearIfNotEmpty sr_hooks q)
      else
        let availableCacheSize = MaxSize env - mq_Len (cr_queue q); upperBound = exclusiveUpperBound q in
        if availableCacheSize \<le> 0 then (None, q)
        else
          let exclusiveMaxTaskKey = NewHistoryTaskKey (re_now env + MaxLookAheadWindow env) 0;
              inclusiveMinTaskKey =
                (if key_Equal upperBound MinimumHistoryTaskKey
                 then NewHistoryTaskKey (re_now env - TimeEvictionWindow env) 0 else upperBound);
              pageSize = min availableCacheSize (PrefetchPageSize env)
          in (Some \<lparr>pf_upperBound = upperBound, pf_inclusiveMin = inclusiveMinTaskKey,
                    pf_exclusiveMax = exclusiveMaxTaskKey, pf_pageSize = pageSize\<rparr>,
              q\<lparr>prefetchTargetUpper := exclusiveMaxTaskKey\<rparr>))"

definition prefetch_finish ::
  "scheduled_env \<Rightarrow> prefetch_flight \<Rightarrow> GetTaskResponse result \<Rightarrow> scheduled_reader \<Rightarrow>
   unit result \<times> scheduled_reader" where
  "prefetch_finish env pf answer q =
     (let q1 = q\<lparr>prefetchTargetUpper := MinimumHistoryTaskKey\<rparr> in
      case answer of
        Inl err \<Rightarrow> (Err err, insertBufferedTasks env q1)
      | Inr resp \<Rightarrow>
          if isDisabled env then (Ok (), insertBufferedTasks env (q1\<lparr>pendingInjectBuffer := []\<rparr>))
          else if \<not> key_Equal (exclusiveUpperBound q1) (pf_upperBound pf)
          then (Err (InternalServiceError ''gap detected: upper bound changed during fetch'' []),
                insertBufferedTasks env q1)
          else
            let q2 = (if key_Equal (inclusiveLowerBound q1) MinimumHistoryTaskKey
                      then updateInclusiveLowerBound (pf_inclusiveMin pf) q1 else q1);
                (trimmed, q3) = sr_putTasks env (resp_Tasks resp) q2;
                q4 = (if \<not> trimmed
                      then updateExclusiveUpperBound sr_hooks (NextTaskKey (resp_Progress resp)) q3 else q3)
            in (Ok (), insertBufferedTasks env q4))"

text \<open>A prefetch during which nothing else happens.\<close>

definition prefetch ::
  "scheduled_env \<Rightarrow> scheduled_env \<Rightarrow> (GetTaskRequest \<Rightarrow> GetTaskResponse result) \<Rightarrow> scheduled_reader \<Rightarrow>
   unit result \<times> scheduled_reader" where
  "prefetch env env' base q =
     (case prefetch_begin env q of
        (None, q1) \<Rightarrow> (Ok (), q1)
      | (Some pf, q1) \<Rightarrow> prefetch_finish env' pf (base (pf_request pf)) q1)"

datatype prefetch_event = PrefetchSignal | PrefetchTimer

text \<open>One iteration of the prefetch loop: the delay its timer is reset to, and the new state.\<close>

definition prefetchLoop_step ::
  "scheduled_env \<Rightarrow> scheduled_env \<Rightarrow> (GetTaskRequest \<Rightarrow> GetTaskResponse result) \<Rightarrow> prefetch_event \<Rightarrow>
   scheduled_reader \<Rightarrow> int option \<times> scheduled_reader" where
  "prefetchLoop_step env env' base ev q =
     (if sr_cancelled q then (None, q)
      else case ev of
        PrefetchSignal \<Rightarrow>
          (if prefetchCh q then (Some (nextPrefetchDelay env q), q\<lparr>prefetchCh := False\<rparr>) else (None, q))
      | PrefetchTimer \<Rightarrow>
          (case prefetch env env' base (tryTimeEvictIfCacheFull env q) of
             (Inl err, q') \<Rightarrow> (Some (MinPrefetchInterval env'), q')
           | (Inr u, q') \<Rightarrow> (Some (nextPrefetchDelay env' q'), q')))"

end
