(* ===== verification/Cached_Reader_Inv.thy ===== *)
theory Cached_Reader_Inv
  imports Cached_Reader
begin

text \<open>
  What the cache of a reader promises: its window holds exactly the stored tasks of the range it
  covers. Every operation of the immediate reader keeps this, and a read through such a cache
  satisfies the contract \<open>queue_reader\<close> of the reader it wraps, in every mode.
\<close>

section \<open>The window of a cache\<close>

definition cache_ok :: "ptask set \<Rightarrow> 'z cached_reader_scheme \<Rightarrow> bool" where
  "cache_ok st q \<longleftrightarrow> mq_wf (cr_queue q) \<and> inclusiveLowerBound q \<le> exclusiveUpperBound q \<and>
     set (cr_queue q) = {t \<in> st. inclusiveLowerBound q \<le> GetTaskKey t \<and> GetTaskKey t < exclusiveUpperBound q}"

lemma cache_ok_cong:
  "cr_queue q' = cr_queue q \<Longrightarrow> inclusiveLowerBound q' = inclusiveLowerBound q \<Longrightarrow>
   exclusiveUpperBound q' = exclusiveUpperBound q \<Longrightarrow> cache_ok st q \<Longrightarrow> cache_ok st q'"
  by (simp add: cache_ok_def)

lemma cache_ok_new: "cache_ok st (newCachedQueueReaderBase r)"
  by (auto simp: cache_ok_def newCachedQueueReaderBase_def newInMemQueue_def)

text \<open>The hooks do not touch the window.\<close>

definition hooks_ok :: "'z cached_reader_scheme reader_hooks \<Rightarrow> bool" where
  "hooks_ok hk \<longleftrightarrow> (\<forall>f \<in> {onUpperBoundUpdatedLockedFn hk, onClearLockedFn hk}. \<forall>q.
     cr_queue (f q) = cr_queue q \<and> inclusiveLowerBound (f q) = inclusiveLowerBound q \<and>
     exclusiveUpperBound (f q) = exclusiveUpperBound q \<and> lastRangeID (f q) = lastRangeID q)"

lemma hooks_ok_instances [simp]: "hooks_ok no_hooks" "hooks_ok sr_hooks"
  by (simp_all add: hooks_ok_def no_hooks_def sr_hooks_def notifyPrefetch_def resetPrefetchState_def)

lemma clearLocked_window:
  assumes "hooks_ok hk"
  shows "cr_queue (clearLocked hk q) = []" "inclusiveLowerBound (clearLocked hk q) = MinimumHistoryTaskKey"
    "exclusiveUpperBound (clearLocked hk q) = MinimumHistoryTaskKey" "lastRangeID (clearLocked hk q) = lastRangeID q"
  using assms
  by (simp_all add: hooks_ok_def clearLocked_def updateExclusiveUpperBound_def updateInclusiveLowerBound_def
      mq_Clear_def)

lemma cache_ok_clear: "hooks_ok hk \<Longrightarrow> cache_ok st (clearLocked hk q)"
  by (auto simp: cache_ok_def clearLocked_window)

lemma cache_ok_fallback:
  assumes "hooks_ok hk" "cache_ok st q" "fallbackIfRangeIDChanged hk env q = (b, q')"
  shows "cache_ok st q'"
  using assms cache_ok_clear [OF assms(1)] cache_ok_cong [of "q\<lparr>lastRangeID := r\<rparr>" q for r]
  by (auto simp: fallbackIfRangeIDChanged_def Let_def split: if_splits)

text \<open>The tasks below the new lower bound, and only those, leave the window.\<close>

lemma advance_eq:
  fixes q :: "'z cached_reader_scheme" and k :: htask_key
  assumes "mq_wf (cr_queue q)" "inclusiveLowerBound q \<le> exclusiveUpperBound q"
    "\<forall>t \<in> set (cr_queue q). inclusiveLowerBound q \<le> GetTaskKey t"
  defines "lo \<equiv> max (inclusiveLowerBound q) (min k (exclusiveUpperBound q))"
  shows "advanceInclusiveLowerBound k q =
    q\<lparr>inclusiveLowerBound := lo, cr_queue := filter (\<lambda>t. lo \<le> GetTaskKey t) (cr_queue q)\<rparr>"
proof (cases "inclusiveLowerBound q < k")
  case True
  then have "lo = (if \<not> k < exclusiveUpperBound q then exclusiveUpperBound q else k)"
    using assms(2) by (auto simp: lo_def max_def min_def)
  then show ?thesis
    using True LTrim_eq [OF assms(1)]
    by (auto simp: advanceInclusiveLowerBound_def updateInclusiveLowerBound_def Let_def)
next
  case False
  then have "lo = inclusiveLowerBound q" by (auto simp: lo_def max_def min_def)
  moreover have "filter (\<lambda>t. inclusiveLowerBound q \<le> GetTaskKey t) (cr_queue q) = cr_queue q"
    using assms(3) by (simp add: filter_id_conv)
  ultimately show ?thesis using False by (simp add: advanceInclusiveLowerBound_def)
qed

text \<open>
  Raising the lower bound to the read level, after tasks below some level that it has passed were
  deleted from the store.
\<close>

lemma cache_ok_advance:
  assumes ok: "cache_ok st q" and sub: "st' \<subseteq> st" and del: "\<forall>t \<in> st - st'. GetTaskKey t < k"
  shows "cache_ok st' (advanceInclusiveLowerBound k q)"
proof -
  define lo where "lo = max (inclusiveLowerBound q) (min k (exclusiveUpperBound q))"
  have wf: "mq_wf (cr_queue q)" "inclusiveLowerBound q \<le> exclusiveUpperBound q"
    and s: "set (cr_queue q) = {t \<in> st. inclusiveLowerBound q \<le> GetTaskKey t \<and> GetTaskKey t < exclusiveUpperBound q}"
    using ok by (simp_all add: cache_ok_def)
  have eq: "advanceInclusiveLowerBound k q =
      q\<lparr>inclusiveLowerBound := lo, cr_queue := filter (\<lambda>t. lo \<le> GetTaskKey t) (cr_queue q)\<rparr>"
    unfolding lo_def using wf s by (intro advance_eq) auto
  have "t \<in> st'" if "t \<in> st" "lo \<le> GetTaskKey t" "GetTaskKey t < exclusiveUpperBound q" for t
    using that del by (force simp: lo_def min_def split: if_splits)
  then show ?thesis
    using wf s sub unfolding eq by (auto simp: cache_ok_def lo_def)
qed

lemma cache_ok_UpdateReadLevel: "cache_ok st q \<Longrightarrow> cache_ok st (UpdateReadLevel k q)"
  using cache_ok_advance [of st q st k] by (simp add: UpdateReadLevel_def)

section \<open>Reading\<close>

definition cache_response :: "GetTaskRequest \<Rightarrow> ptask list \<Rightarrow> htask_key \<Rightarrow> GetTaskResponse" where
  "cache_response req ts k =
     \<lparr>resp_Tasks = ts,
      resp_Progress = \<lparr>InclusiveMinTaskKey = k, ExclusiveMaxTaskKey = ExclusiveMaxTaskKey (req_Progress req),
        NextPageToken = None, NextTaskKey = k\<rparr>\<rparr>"

lemma fst_getTaskInShadow [simp]: "fst (getTaskInShadow env base req c) = base req"
  by (simp add: getTaskInShadow_def split: sum.splits)

text \<open>The answer is one of the wrapped reader, or the window covers the request.\<close>

lemma cached_GetTask_cases:
  assumes f: "fallbackIfRangeIDChanged hk env q = (b, q1)"
    and r: "cached_GetTask hk env base req q = (r, rep, q')"
  shows "q' \<in> {q, q1, q1\<lparr>lastShadowSampleUnixNano := re_now env\<rparr>}"
    and "r = base req \<or> (\<exists>k ts nxt. resolveInclusiveMinTaskKey req = Some k \<and>
      isRangeCovered k (ExclusiveMaxTaskKey (req_Progress req)) q1 \<and>
      mq_GetTasks k (ExclusiveMaxTaskKey (req_Progress req)) (req_Predicate req) (req_PageSize req) (cr_queue q1) =
        (ts, nxt) \<and> r = Ok (cache_response req ts nxt))"
proof -
  let ?hi = "ExclusiveMaxTaskKey (req_Progress req)"
  let ?goal = "q' \<in> {q, q1, q1\<lparr>lastShadowSampleUnixNano := re_now env\<rparr>} \<and>
    (r = base req \<or> (\<exists>k ts nxt. resolveInclusiveMinTaskKey req = Some k \<and> isRangeCovered k ?hi q1 \<and>
      mq_GetTasks k ?hi (req_Predicate req) (req_PageSize req) (cr_queue q1) = (ts, nxt) \<and>
      r = Ok (cache_response req ts nxt)))"
  consider "isDisabled env \<or> b \<or> resolveInclusiveMinTaskKey req = None"
    | k where "\<not> isDisabled env" "\<not> b" "resolveInclusiveMinTaskKey req = Some k" "\<not> isRangeCovered k ?hi q1"
    | k where "\<not> isDisabled env" "\<not> b" "resolveInclusiveMinTaskKey req = Some k" "isRangeCovered k ?hi q1"
    by blast
  then have ?goal
  proof cases
    case 1
    then show ?thesis using r f by (auto simp: cached_GetTask_def split: if_splits bool.splits)
  next
    case 2
    then show ?thesis using r f by (simp add: cached_GetTask_def)
  next
    case (3 k)
    obtain ts nxt where g: "mq_GetTasks k ?hi (req_Predicate req) (req_PageSize req) (cr_queue q1) = (ts, nxt)"
      by force
    obtain smp q2 where sm: "(if isShadow env then (True, q1) else isPeriodicShadowSample env q1) = (smp, q2)"
      by force
    then have q2: "q2 \<in> {q1, q1\<lparr>lastShadowSampleUnixNano := re_now env\<rparr>}"
      by (auto simp: isPeriodicShadowSample_def split: if_splits)
    have "cached_GetTask hk env base req q =
        (if smp then (case getTaskInShadow env base req (cache_response req ts nxt) of (x, y) \<Rightarrow> (x, y, q2))
         else (Ok (cache_response req ts nxt), None, q2))"
      using 3 f g sm by (simp add: cached_GetTask_def Let_def cache_response_def)
    then have "q' = q2 \<and> (r = base req \<or> r = Ok (cache_response req ts nxt))"
      using r by (cases "getTaskInShadow env base req (cache_response req ts nxt)")
        (auto split: if_splits dest: arg_cong [where f = fst])
    then show ?thesis using q2 3 g by auto
  qed
  then show "q' \<in> {q, q1, q1\<lparr>lastShadowSampleUnixNano := re_now env\<rparr>}"
    and "r = base req \<or> (\<exists>k ts nxt. resolveInclusiveMinTaskKey req = Some k \<and> isRangeCovered k ?hi q1 \<and>
      mq_GetTasks k ?hi (req_Predicate req) (req_PageSize req) (cr_queue q1) = (ts, nxt) \<and>
      r = Ok (cache_response req ts nxt))" by blast+
qed

locale cacheable_reader = queue_reader +
  assumes key_valid: "key_ok k \<Longrightarrow> valid_key k"
    and key_ok_Next: "key_ok k \<Longrightarrow> key_ok j \<Longrightarrow> k < j \<Longrightarrow> key_ok (Next k)"
    and pos_start: "pos_ok pr \<Longrightarrow> NextPageToken pr = None \<Longrightarrow> NextTaskKey pr = InclusiveMinTaskKey pr"
begin

lemma resolve_start: "pos_ok (req_Progress req) \<Longrightarrow> resolveInclusiveMinTaskKey req = Some k \<Longrightarrow>
    k = NextTaskKey (req_Progress req)"
  using pos_start by (auto simp: resolveInclusiveMinTaskKey_def split: if_splits)

text \<open>The page a covering cache answers with.\<close>

lemma cache_page:
  assumes ok: "store_ok d" "cache_ok (stored d) q" and pr: "progress_wf pr" "pos_ok pr"
    and cov: "isRangeCovered (NextTaskKey pr) (ExclusiveMaxTaskKey pr) q" and n: "0 < n"
    and r: "mq_GetTasks (NextTaskKey pr) (ExclusiveMaxTaskKey pr) p n (cr_queue q) = (ts, nxt)"
  shows "reads_page (stored d) \<lparr>req_Progress = pr, req_Predicate = p, req_PageSize = n\<rparr>
      \<lparr>resp_Tasks = ts, resp_Progress = \<lparr>InclusiveMinTaskKey = nxt, ExclusiveMaxTaskKey = ExclusiveMaxTaskKey pr,
         NextPageToken = None, NextTaskKey = nxt\<rparr>\<rparr>"
    and "nxt < ExclusiveMaxTaskKey pr \<Longrightarrow> key_ok nxt"
proof -
  let ?lo = "NextTaskKey pr" and ?hi = "ExclusiveMaxTaskKey pr"
  define M where "M = filter (\<lambda>t. ?lo \<le> GetTaskKey t \<and> GetTaskKey t < ?hi \<and> Check p t) (cr_queue q)"
  have wf: "mq_wf M" using ok(2) by (simp add: M_def cache_ok_def)
  have sM: "set M = {t \<in> stored d. ?lo \<le> GetTaskKey t \<and> GetTaskKey t < ?hi \<and> Check p t}"
  proof -
    have c: "inclusiveLowerBound q \<le> ?lo" "?hi \<le> exclusiveUpperBound q"
      using cov by (simp_all add: isRangeCovered_def not_less)
    have "t \<in> set (cr_queue q) \<longleftrightarrow> t \<in> stored d" if "?lo \<le> GetTaskKey t" "GetTaskKey t < ?hi" for t
      using ok(2) order_trans [OF c(1) that(1)] less_le_trans [OF that(2) c(2)] by (simp add: cache_ok_def)
    then show ?thesis unfolding M_def set_filter by blast
  qed
  have le: "InclusiveMinTaskKey pr \<le> ?lo" "?lo \<le> ?hi" using pr(1) by (simp_all add: progress_wf_def)
  have pg: "(ts, nxt) = page_of ?hi (nat n) M"
    using r mq_GetTasks_eq [of "cr_queue q" n] ok(2) n by (simp add: M_def cache_ok_def)
  have srt: "sorted_wrt (<) (map GetTaskKey M)" using wf by (simp add: mq_wf_def sorted_wrt_map)
  have "reads_page (stored d) \<lparr>req_Progress = pr, req_Predicate = p, req_PageSize = n\<rparr>
      \<lparr>resp_Tasks = ts, resp_Progress = \<lparr>InclusiveMinTaskKey = nxt, ExclusiveMaxTaskKey = ?hi,
         NextPageToken = None, NextTaskKey = nxt\<rparr>\<rparr> \<and> (nxt < ?hi \<longrightarrow> key_ok nxt)"
  proof (cases "length M \<le> nat n")
    case True
    then have "ts = M" "nxt = ?hi" using pg by (simp_all add: page_of_def)
    moreover have "int (length M) \<le> n" using True n by linarith
    moreover have "InclusiveMinTaskKey pr \<le> ?hi" using le by (rule order_trans)
    ultimately show ?thesis
      using sM srt le by (simp add: reads_page_def Let_def)
  next
    case False
    then have n': "nat n < length M" "0 < nat n" using n by auto
    have vM: "\<forall>t \<in> set M. valid_key (GetTaskKey t)" using sM key_ok_stored [OF ok(1)] key_valid by auto
    note f = page_of_full [OF wf vM n'(2,1) pg [symmetric]]
    let ?m = "M ! (nat n - 1)" and ?m' = "M ! nat n"
    have in_M: "?m \<in> set M" "?m' \<in> set M" using n' by auto
    then have m: "?m \<in> stored d" "?lo \<le> GetTaskKey ?m" "?m' \<in> stored d" "GetTaskKey ?m' < ?hi"
      unfolding sM by blast+
    have nx: "key_ok nxt"
      unfolding f(2) by (rule key_ok_Next [OF key_ok_stored key_ok_stored f(3)]) (rule ok(1) m)+
    have lt: "nxt < ?hi" using f(5) m(4) by (rule le_less_trans)
    have st: "set ts = {t \<in> stored d. ?lo \<le> GetTaskKey t \<and> GetTaskKey t < nxt \<and> Check p t}"
      unfolding f(6) sM using less_trans [OF _ lt] by blast
    have "sorted_wrt (<) (map GetTaskKey ts)" using srt unfolding f(1) take_map [symmetric] by (rule sorted_wrt_take)
    moreover have "?lo \<le> nxt" using m(2) f(4) by simp
    moreover from this have "InclusiveMinTaskKey pr \<le> nxt" using le(1) by (rule order_trans [rotated])
    moreover have "int (length ts) \<le> n" using n by (simp add: f(1))
    moreover have "\<exists>t \<in> stored d. ?lo \<le> GetTaskKey t \<and> GetTaskKey t < nxt" using m f(4) by blast
    ultimately show ?thesis
      using st lt nx by (simp add: reads_page_def Let_def)
  qed
  then show "reads_page (stored d) \<lparr>req_Progress = pr, req_Predicate = p, req_PageSize = n\<rparr>
      \<lparr>resp_Tasks = ts, resp_Progress = \<lparr>InclusiveMinTaskKey = nxt, ExclusiveMaxTaskKey = ?hi,
         NextPageToken = None, NextTaskKey = nxt\<rparr>\<rparr>" "nxt < ?hi \<Longrightarrow> key_ok nxt" by auto
qed

text \<open>
  Whatever the mode is, the answer is one of the wrapped reader or a page of the covering window;
  the window is kept.
\<close>

lemma cached_answer:
  assumes hk: "hooks_ok hk" and ok: "store_ok d" "cache_ok (stored d) q"
    and pr: "progress_wf (req_Progress req)" "pos_ok (req_Progress req)" and n: "0 < req_PageSize req"
    and r: "cached_GetTask hk env (get_task d) req q = (Inr r, rep, q')"
  shows "reads_page (stored d) req r"
    and "NextTaskKey (resp_Progress r) < ExclusiveMaxTaskKey (req_Progress req) \<Longrightarrow> pos_ok (resp_Progress r)"
proof -
  let ?pr = "req_Progress req"
  obtain b q1 where f: "fallbackIfRangeIDChanged hk env q = (b, q1)" by force
  have ok1: "cache_ok (stored d) q1" using cache_ok_fallback [OF hk ok(2) f] .
  consider "get_task d req = Inr r"
    | ts nxt where "isRangeCovered (NextTaskKey ?pr) (ExclusiveMaxTaskKey ?pr) q1" "r = cache_response req ts nxt"
      "mq_GetTasks (NextTaskKey ?pr) (ExclusiveMaxTaskKey ?pr) (req_Predicate req) (req_PageSize req) (cr_queue q1) =
        (ts, nxt)"
    using cached_GetTask_cases(2) [OF f r] resolve_start [OF pr(2)] by (metis Inr_inject)
  then have "reads_page (stored d) req r \<and>
      (NextTaskKey (resp_Progress r) < ExclusiveMaxTaskKey ?pr \<longrightarrow> pos_ok (resp_Progress r))"
  proof cases
    case 1
    show ?thesis using read_page [OF ok(1) pr n 1] read_pos [OF ok(1) pr n 1] by simp
  next
    case (2 ts nxt)
    note pg = cache_page [OF ok(1) ok1 pr 2(1) n 2(3)]
    have "pos_ok (resp_Progress r)" if "nxt < ExclusiveMaxTaskKey ?pr"
      using pg(2) [OF that] pos_ok_keys [OF pr(2)] by (intro pos_ok_fresh) (simp_all add: 2(2) cache_response_def)
    moreover have "reads_page (stored d) req r"
      using pg(1) unfolding 2(2) by (cases req) (simp add: cache_response_def)
    ultimately show ?thesis by (simp add: 2(2) cache_response_def)
  qed
  then show "reads_page (stored d) req r"
    "NextTaskKey (resp_Progress r) < ExclusiveMaxTaskKey ?pr \<Longrightarrow> pos_ok (resp_Progress r)" by auto
qed

end

lemma cache_ok_cached_GetTask:
  assumes "hooks_ok hk" "cache_ok st q" "cached_GetTask hk env base req q = (r, rep, q')"
  shows "cache_ok st q'"
proof -
  obtain b q1 where f: "fallbackIfRangeIDChanged hk env q = (b, q1)" by force
  note ok1 = cache_ok_fallback [OF assms(1,2) f]
  show ?thesis
    using cached_GetTask_cases(1) [OF f assms(3)] assms(2) ok1 cache_ok_cong [of "q1\<lparr>lastShadowSampleUnixNano := re_now env\<rparr>" q1 st] by auto
qed

text \<open>The reader of the SQL store can be cached, and the cached reader satisfies the same contract.\<close>

interpretation sql_cacheable: cacheable_reader "sql_get_task gs"
  "\<lambda>d. shard_tasks (transfer_tasks (fst d)) (snd d)" sql_store_ok immediate_key sql_pos_ok
proof unfold_locales
  show "valid_key k" if "immediate_key k" for k
    using that by (simp add: immediate_key_def valid_key_def)
  show "immediate_key (Next k)" if "immediate_key k" "immediate_key j" "k < j" for k j
    using that Next_no_wrap [of k] by (auto simp: immediate_key_def Next_def less_htask_key_def valid_key_def)
  show "NextTaskKey pr = InclusiveMinTaskKey pr" if "sql_pos_ok pr" "NextPageToken pr = None" for pr
    using that by (simp add: sql_pos_ok_def)
qed

definition sql_cached_get_task ::
  "(GetHistoryTasksRequest \<Rightarrow> int \<Rightarrow> GetHistoryTasksResponse result) \<Rightarrow> 'e reader_env_scheme \<Rightarrow>
   (sql_db \<times> int) \<times> cached_reader \<Rightarrow> GetTaskRequest \<Rightarrow> GetTaskResponse result" where
  "sql_cached_get_task gs env dq req = fst (cached_GetTask no_hooks env (sql_get_task gs (fst dq)) req (snd dq))"

definition sql_cached_ok :: "(sql_db \<times> int) \<times> cached_reader \<Rightarrow> bool" where
  "sql_cached_ok dq \<longleftrightarrow> sql_store_ok (fst dq) \<and>
     cache_ok (shard_tasks (transfer_tasks (fst (fst dq))) (snd (fst dq))) (snd dq)"

interpretation sql_cached: queue_reader "sql_cached_get_task gs env"
  "\<lambda>dq. shard_tasks (transfer_tasks (fst (fst dq))) (snd (fst dq))" sql_cached_ok immediate_key sql_pos_ok
proof unfold_locales
  fix dq :: "(sql_db \<times> int) \<times> cached_reader"
  show "finite (shard_tasks (transfer_tasks (fst (fst dq))) (snd (fst dq)))"
    by (rule sql_reader.finite_stored)
  fix req r
  assume ok: "sql_cached_ok dq" and a: "progress_wf (req_Progress req)" "sql_pos_ok (req_Progress req)"
    "0 < req_PageSize req" "sql_cached_get_task gs env dq req = Inr r"
  obtain rep q' where c: "cached_GetTask no_hooks env (sql_get_task gs (fst dq)) req (snd dq) = (Inr r, rep, q')"
    using a(4) by (metis sql_cached_get_task_def prod.collapse)
  note ans = sql_cacheable.cached_answer [OF hooks_ok_instances(1) _ _ a(1-3) c]
  show "reads_page (shard_tasks (transfer_tasks (fst (fst dq))) (snd (fst dq))) req r"
    using ok ans(1) by (simp add: sql_cached_ok_def)
  show "sql_pos_ok (resp_Progress r)" if "NextTaskKey (resp_Progress r) < ExclusiveMaxTaskKey (req_Progress req)"
    using ok ans(2) that by (simp add: sql_cached_ok_def)
qed (auto simp: sql_cached_ok_def sql_reader.key_ok_stored sql_reader.inj_key sql_reader.key_ok_max
    sql_reader.pos_ok_keys sql_reader.pos_ok_fresh)

section \<open>The immediate reader\<close>

text \<open>Its window is closed, or open at the top.\<close>

definition ir_ok :: "ptask set \<Rightarrow> cached_reader \<Rightarrow> bool" where
  "ir_ok st q \<longleftrightarrow> cache_ok st q \<and> exclusiveUpperBound q \<in> {MinimumHistoryTaskKey, MaximumHistoryTaskKey}"

lemma ir_ok_new: "ir_ok st (newCachedQueueReaderBase r)"
  by (simp add: ir_ok_def cache_ok_new) (simp add: newCachedQueueReaderBase_def)

text \<open>
  The tasks are new: the task IDs of a shard grow, so every stored task is below them.
\<close>

definition new_tasks :: "ptask set \<Rightarrow> ptask list \<Rightarrow> bool" where
  "new_tasks st ts \<longleftrightarrow> (\<forall>t \<in> st. \<forall>u \<in> set ts. GetTaskKey t < GetTaskKey u) \<and> inj_on GetTaskKey (set ts) \<and>
     (\<forall>u \<in> set ts. task_TaskID u \<noteq> 0 \<and> MinimumHistoryTaskKey < GetTaskKey u \<and>
        GetTaskKey u < MaximumHistoryTaskKey)"

lemma new_tasks_inj: "new_tasks st ts \<Longrightarrow> inj_on GetTaskKey st \<Longrightarrow> inj_on GetTaskKey (st \<union> set ts)"
  unfolding new_tasks_def inj_on_Un by force

text \<open>The cap drops the oldest tasks and raises the lower bound accordingly.\<close>

lemma ir_cap:
  assumes ok: "cache_ok st q" "exclusiveUpperBound q = MaximumHistoryTaskKey"
    and t: "LTrimBySize n (cr_queue q) = (lo, trimmed, queue')" "\<forall>t \<in> st. MinimumHistoryTaskKey < GetTaskKey t"
  shows "ir_ok st
    (if \<not> trimmed then q\<lparr>cr_queue := queue'\<rparr>
     else updateInclusiveLowerBound lo
       (if key_Equal lo MinimumHistoryTaskKey
        then updateExclusiveUpperBound no_hooks MinimumHistoryTaskKey (q\<lparr>cr_queue := queue'\<rparr>)
        else q\<lparr>cr_queue := queue'\<rparr>))"
proof -
  have wf: "mq_wf (cr_queue q)" and s: "set (cr_queue q) =
      {t \<in> st. inclusiveLowerBound q \<le> GetTaskKey t \<and> GetTaskKey t < exclusiveUpperBound q}"
    using ok(1) by (simp_all add: cache_ok_def)
  consider "\<not> trimmed" "queue' = cr_queue q" | "trimmed" "n \<le> 0" "lo = MinimumHistoryTaskKey" "queue' = []"
    | "trimmed" "0 < n"
    using t(1) by (cases "0 < n") (auto simp: LTrimBySize_def Let_def split: if_splits)
  then show ?thesis
  proof cases
    case 3
    note l = LTrimBySize_trimmed [OF wf _ 3(2), of lo queue']
    have "LTrimBySize n (cr_queue q) = (lo, True, queue')" using t(1) 3 by simp
    note l = l [OF this]
    obtain x where "x \<in> set (cr_queue q)" "lo = GetTaskKey x" using l(2) by blast
    then have lo: "MinimumHistoryTaskKey < lo" "inclusiveLowerBound q \<le> lo" "lo < MaximumHistoryTaskKey"
      using t(2) unfolding s ok(2) by blast+
    have "set queue' = {t \<in> st. lo \<le> GetTaskKey t \<and> GetTaskKey t < MaximumHistoryTaskKey}"
      unfolding l(1) set_filter s ok(2) using order_trans [OF lo(2)] by blast
    moreover have "mq_wf queue'" unfolding l(1) by (rule mq_wf_filter [OF wf])
    moreover have "lo \<noteq> MinimumHistoryTaskKey" using lo(1) by simp
    ultimately show ?thesis
      using 3 lo(3) ok(2) by (simp add: ir_ok_def cache_ok_def updateInclusiveLowerBound_def less_imp_le)
  qed (use ok in \<open>auto simp: ir_ok_def cache_ok_def updateInclusiveLowerBound_def
        updateExclusiveUpperBound_def no_hooks_def\<close>)
qed

text \<open>The window is opened at the first task if it was closed.\<close>

lemma ir_fill:
  assumes ok: "ir_ok st q" and new: "new_tasks st ts" and st: "\<forall>t \<in> st. MinimumHistoryTaskKey < GetTaskKey t"
    and Q: "mq_wf Q" "Q \<noteq> []" "set Q = {t \<in> set ts. inclusiveLowerBound q \<le> GetTaskKey t} \<union> set (cr_queue q)"
  defines "q1 \<equiv> q\<lparr>cr_queue := Q\<rparr>"
  shows "\<exists>q2. (if key_Equal (exclusiveUpperBound q1) MinimumHistoryTaskKey then
       (case mq_LookAHead MinimumHistoryTaskKey (cr_queue q1) of
          None \<Rightarrow> Err (Panic ''nil pointer dereference'' [])
        | Some t \<Rightarrow> Ok (updateExclusiveUpperBound no_hooks MaximumHistoryTaskKey
                  (updateInclusiveLowerBound (GetTaskKey t) q1))) else Ok q1) = Ok q2 \<and>
    cache_ok (st \<union> set ts) q2 \<and> exclusiveUpperBound q2 = MaximumHistoryTaskKey"
proof (cases "exclusiveUpperBound q = MinimumHistoryTaskKey")
  case True
  have s: "inclusiveLowerBound q \<le> MinimumHistoryTaskKey" "set (cr_queue q) = {}"
    using ok st True by (auto simp: ir_ok_def cache_ok_def)
  have gt: "\<forall>u \<in> set ts. MinimumHistoryTaskKey < GetTaskKey u" "\<forall>u \<in> set ts. GetTaskKey u < MaximumHistoryTaskKey"
    and below: "\<forall>t \<in> st. \<forall>u \<in> set ts. GetTaskKey t < GetTaskKey u"
    using new by (simp_all add: new_tasks_def)
  have "inclusiveLowerBound q \<le> GetTaskKey u" if "u \<in> set ts" for u
    using s(1) gt(1) that by (meson less_imp_le order_trans)
  then have sQ: "set Q = set ts" using Q(3) s(2) by auto
  obtain x xs where x: "Q = x # xs" using Q(2) by (cases Q) auto
  have "filter (\<lambda>t. MinimumHistoryTaskKey \<le> GetTaskKey t) Q = Q"
    using sQ gt(1) by (auto simp: filter_id_conv)
  then have l: "mq_LookAHead MinimumHistoryTaskKey Q = Some x"
    using mq_LookAHead_eq [OF Q(1)] x by simp
  have a: "\<forall>u \<in> set ts. GetTaskKey x \<le> GetTaskKey u"
    unfolding sQ [symmetric] using Q(1) unfolding x by (simp add: less_imp_le)
  have xt: "x \<in> set ts" unfolding sQ [symmetric] x by simp
  have "set Q = {t \<in> st \<union> set ts. GetTaskKey x \<le> GetTaskKey t \<and> GetTaskKey t < MaximumHistoryTaskKey}"
    unfolding sQ using a gt(2) below xt leD by blast
  moreover have "GetTaskKey x \<le> MaximumHistoryTaskKey" using gt(2) xt by (simp add: less_imp_le)
  ultimately show ?thesis
    using True l Q(1)
    by (simp add: q1_def cache_ok_def updateExclusiveUpperBound_def updateInclusiveLowerBound_def no_hooks_def)
next
  case False
  then have "exclusiveUpperBound q = MaximumHistoryTaskKey" using ok by (auto simp: ir_ok_def)
  moreover have "set Q = {t \<in> st \<union> set ts. inclusiveLowerBound q \<le> GetTaskKey t \<and> GetTaskKey t < MaximumHistoryTaskKey}"
    using ok new unfolding Q(3) ir_ok_def cache_ok_def new_tasks_def calculation by blast
  ultimately show ?thesis
    using False ok Q(1) by (simp add: q1_def ir_ok_def cache_ok_def)
qed

text \<open>A closed window stays exact whatever is stored.\<close>

lemma closed_window_empty:
  "\<forall>t \<in> S. MinimumHistoryTaskKey < GetTaskKey t \<Longrightarrow>
   {t \<in> S. lo \<le> GetTaskKey t \<and> GetTaskKey t < MinimumHistoryTaskKey} = {}"
  by (metis (no_types, lifting) empty_Collect_eq less_asym)

lemma ir_ok_closed:
  assumes ok: "ir_ok st q" and e: "cr_IsEmpty q" and st: "\<forall>t \<in> st. MinimumHistoryTaskKey < GetTaskKey t"
    and st': "\<forall>t \<in> st'. MinimumHistoryTaskKey < GetTaskKey t"
  shows "ir_ok st' q"
proof -
  have u: "exclusiveUpperBound q = MinimumHistoryTaskKey" using e by (simp add: cr_IsEmpty_def)
  have "set (cr_queue q) = {t \<in> st'. inclusiveLowerBound q \<le> GetTaskKey t \<and> GetTaskKey t < exclusiveUpperBound q}"
    using ok unfolding ir_ok_def cache_ok_def u closed_window_empty [OF st] closed_window_empty [OF st'] by (elim conjE)
  then show ?thesis using ok unfolding ir_ok_def cache_ok_def by (elim conjE) (intro conjI, assumption+)
qed

text \<open>Storing tasks and injecting them keeps the window exact, and never fails.\<close>

lemma ir_Inject_ok:
  assumes ok: "ir_ok st q" and inj: "inj_on GetTaskKey st" and new: "new_tasks st ts"
    and st: "\<forall>t \<in> st. MinimumHistoryTaskKey < GetTaskKey t"
  shows "\<exists>q'. ir_Inject env ts q = Ok q' \<and> ir_ok (st \<union> set ts) q'"
proof -
  let ?st = "st \<union> set ts" and ?lo = "inclusiveLowerBound q"
  let ?put = "filter (\<lambda>t. task_TaskID t \<noteq> 0 \<and> \<not> key_Less (GetTaskKey t) ?lo) ts"
  have wf: "mq_wf (cr_queue q)" and le: "?lo \<le> exclusiveUpperBound q" and s: "set (cr_queue q) =
      {t \<in> st. ?lo \<le> GetTaskKey t \<and> GetTaskKey t < exclusiveUpperBound q}"
    and up: "exclusiveUpperBound q = MinimumHistoryTaskKey \<or> exclusiveUpperBound q = MaximumHistoryTaskKey"
    using ok by (auto simp: ir_ok_def cache_ok_def)
  have st': "\<forall>t \<in> ?st. MinimumHistoryTaskKey < GetTaskKey t" using st new by (auto simp: new_tasks_def)
  have put: "set ?put = {t \<in> set ts. ?lo \<le> GetTaskKey t}" using new by (auto simp: new_tasks_def)
  have sp: "set (PutTasks ?put (cr_queue q)) = set ?put \<union> set (cr_queue q)"
    using s by (intro set_PutTasks [OF wf] inj_on_subset [OF new_tasks_inj [OF new inj]]) auto
  consider "isDisabled env" | "\<not> isDisabled env" "?put = []" | "\<not> isDisabled env" "?put \<noteq> []" by blast
  then show ?thesis
  proof cases
    case 1
    have "ir_ok ?st (clearIfNotEmpty no_hooks q)"
      using ir_ok_closed [OF ok _ st st'] cache_ok_clear [of no_hooks ?st q]
      by (cases "cr_IsEmpty q") (simp_all add: ir_ok_def clearIfNotEmpty_def cr_Clear_def clearLocked_window)
    then show ?thesis using 1 by (simp add: ir_Inject_def)
  next
    case 2
    then have "{t \<in> set ts. ?lo \<le> GetTaskKey t} = {}" using put by simp
    then have "ir_ok ?st q" using ok by (auto simp: ir_ok_def cache_ok_def)
    then show ?thesis using 2 by (simp add: ir_Inject_def ir_putTasks_def del: filter_empty_conv)
  next
    case 3
    define q1 where "q1 = q\<lparr>cr_queue := PutTasks ?put (cr_queue q)\<rparr>"
    have ne: "PutTasks ?put (cr_queue q) \<noteq> []"
      using sp 3(2) by (metis Un_empty set_empty)
    have sQ: "set (PutTasks ?put (cr_queue q)) = {t \<in> set ts. ?lo \<le> GetTaskKey t} \<union> set (cr_queue q)"
      using sp put by simp
    obtain q2 where q2: "(if key_Equal (exclusiveUpperBound q1) MinimumHistoryTaskKey then
           (case mq_LookAHead MinimumHistoryTaskKey (cr_queue q1) of
              None \<Rightarrow> Err (Panic ''nil pointer dereference'' [])
            | Some t \<Rightarrow> Ok (updateExclusiveUpperBound no_hooks MaximumHistoryTaskKey
                      (updateInclusiveLowerBound (GetTaskKey t) q1))) else Ok q1) = Ok q2"
      and ok2: "cache_ok ?st q2" "exclusiveUpperBound q2 = MaximumHistoryTaskKey"
      using ir_fill [OF ok new st mq_wf_PutTasks [OF wf] ne sQ] unfolding q1_def by blast
    obtain lo trimmed queue' where t: "LTrimBySize (MaxSize env) (cr_queue q2) = (lo, trimmed, queue')"
      by (metis prod_cases3)
    show ?thesis
      using 3 ir_cap [OF ok2 t st']
      unfolding ir_Inject_def ir_putTasks_def Let_def q1_def [symmetric] q2 rbind_simps t prod.case
      by (simp del: filter_empty_conv split: if_splits)
  qed
qed

end
