(* ===== verification/Scheduled_Cache.thy ===== *)
theory Scheduled_Cache
  imports Cached_Reader_Inv
begin

text \<open>
  The cache of the timer queue as a system of steps: tasks are stored and injected, deleted, read
  and looked ahead, the window is evicted, cleared and refilled by prefetches whose database read
  overlaps with the other steps. The invariant is that no stored task of the window is missing; it
  gives what a read and a look-ahead through the cache return in every reachable state.
\<close>

section \<open>The window while tasks are on their way\<close>

text \<open>
  The tasks known so far are \<open>hist\<close>, those still stored are \<open>db\<close>; the tasks of \<open>E\<close> are about to be
  put, and \<open>u\<close> is the upper bound the window is getting.
\<close>

definition window_ok :: "ptask set \<Rightarrow> ptask set \<Rightarrow> ptask set \<Rightarrow> htask_key \<Rightarrow> 'z cached_reader_scheme \<Rightarrow> bool" where
  "window_ok hist db E u q \<longleftrightarrow> mq_wf (cr_queue q) \<and>
     (\<forall>t \<in> set (cr_queue q). t \<in> hist \<and> GetTaskKey t < u) \<and>
     (\<forall>t \<in> db. min (inclusiveLowerBound q) (exclusiveUpperBound q) \<le> GetTaskKey t \<longrightarrow> GetTaskKey t < u \<longrightarrow>
        t \<in> set (cr_queue q) \<or> t \<in> E)"

text \<open>The tasks of a history have different keys, all valid and behind the minimum.\<close>

definition hist_ok :: "ptask set \<Rightarrow> bool" where
  "hist_ok hist \<longleftrightarrow> inj_on GetTaskKey hist \<and>
     (\<forall>t \<in> hist. valid_key (GetTaskKey t) \<and> MinimumHistoryTaskKey < GetTaskKey t)"

definition closed_ok :: "'z cached_reader_scheme \<Rightarrow> bool" where
  "closed_ok q \<longleftrightarrow> MinimumHistoryTaskKey \<le> exclusiveUpperBound q \<and>
     (exclusiveUpperBound q = MinimumHistoryTaskKey \<longrightarrow> inclusiveLowerBound q = MinimumHistoryTaskKey)"

lemma window_ok_cong:
  "cr_queue q' = cr_queue q \<Longrightarrow> inclusiveLowerBound q' = inclusiveLowerBound q \<Longrightarrow>
   exclusiveUpperBound q' = exclusiveUpperBound q \<Longrightarrow> window_ok hist db E u q' = window_ok hist db E u q"
  by (simp add: window_ok_def)

lemma window_ok_wf: "window_ok hist db E u q \<Longrightarrow> mq_wf (cr_queue q)"
  by (simp add: window_ok_def)

lemma window_ok_mono:
  "window_ok hist db E u q \<Longrightarrow> hist \<subseteq> hist' \<Longrightarrow> db' \<subseteq> db \<Longrightarrow> E \<subseteq> E' \<Longrightarrow> window_ok hist' db' E' u q"
  unfolding window_ok_def by blast

text \<open>Raising the lower bound shrinks the window from below.\<close>

lemma advance_cases:
  assumes "mq_wf (cr_queue q)"
  obtains "advanceInclusiveLowerBound k q = q"
  | "inclusiveLowerBound q < k" "advanceInclusiveLowerBound k q =
      q\<lparr>inclusiveLowerBound := min k (exclusiveUpperBound q),
        cr_queue := filter (\<lambda>t. min k (exclusiveUpperBound q) \<le> GetTaskKey t) (cr_queue q)\<rparr>"
  using assms
  by (cases "inclusiveLowerBound q < k")
    (auto simp: advanceInclusiveLowerBound_def updateInclusiveLowerBound_def Let_def LTrim_eq min_def)

lemma window_ok_advance:
  assumes w: "window_ok hist db E u q"
  shows "window_ok hist db E u (advanceInclusiveLowerBound k q)"
proof -
  have "mq_wf (cr_queue q)" using w by (simp add: window_ok_def)
  then show ?thesis
  proof (cases rule: advance_cases [where k = k])
    case 1
    then show ?thesis using w by simp
  next
    case 2
    have le: "min (inclusiveLowerBound q) (exclusiveUpperBound q) \<le> min k (exclusiveUpperBound q)"
      using 2(1) by (intro min.mono) simp_all
    have "t \<in> set (cr_queue q) \<or> t \<in> E"
      if "t \<in> db" "min k (exclusiveUpperBound q) \<le> GetTaskKey t" "GetTaskKey t < u" for t
      using w that order_trans [OF le that(2)] by (simp add: window_ok_def)
    then show ?thesis
      using w unfolding 2(2) by (simp add: window_ok_def)
  qed
qed

lemma closed_ok_advance:
  assumes "closed_ok q" "mq_wf (cr_queue q)"
  shows "closed_ok (advanceInclusiveLowerBound k q)"
  using assms(2)
proof (cases rule: advance_cases [where k = k])
  case 2
  then show ?thesis using assms(1) by (auto simp: closed_ok_def min_def)
qed (use assms in simp)

lemma advance_frame [simp]:
  "exclusiveUpperBound (advanceInclusiveLowerBound k q) = exclusiveUpperBound q"
  "lastRangeID (advanceInclusiveLowerBound k q) = lastRangeID q"
  by (simp_all add: advanceInclusiveLowerBound_def updateInclusiveLowerBound_def Let_def)

lemma advance_frame_scheduled [simp]:
  "prefetchTargetUpper (advanceInclusiveLowerBound k q) = prefetchTargetUpper q"
  "pendingInjectBuffer (advanceInclusiveLowerBound k q) = pendingInjectBuffer q"
  by (simp_all add: advanceInclusiveLowerBound_def updateInclusiveLowerBound_def Let_def)

text \<open>A window is cut at the top when its upper bound goes down.\<close>

lemma window_ok_cut:
  assumes w: "window_ok hist db E u q" and k: "k \<le> u"
    and q: "cr_queue q' = filter (\<lambda>t. GetTaskKey t < k) (cr_queue q)"
    "inclusiveLowerBound q' = inclusiveLowerBound q" "exclusiveUpperBound q' = k"
  shows "window_ok hist db E k q'"
proof -
  have "t \<in> set (cr_queue q) \<or> t \<in> E"
    if t: "t \<in> db" "min (inclusiveLowerBound q) k \<le> GetTaskKey t" "GetTaskKey t < k" for t
  proof -
    have "inclusiveLowerBound q \<le> GetTaskKey t" using t(2,3) by (simp add: min_le_iff_disj not_le [symmetric])
    moreover have "GetTaskKey t < u" using t(3) k by (rule less_le_trans)
    ultimately show ?thesis using w t(1) by (simp add: window_ok_def min.coboundedI1)
  qed
  then show ?thesis using w q by (simp add: window_ok_def)
qed

text \<open>Tasks are put.\<close>

lemma window_ok_put:
  assumes h: "hist_ok hist" and w: "window_ok hist db (set ts \<union> E) u q"
    and ts: "\<forall>t \<in> set ts. t \<in> hist \<and> GetTaskKey t < u"
  shows "window_ok hist db E u (q\<lparr>cr_queue := PutTasks ts (cr_queue q)\<rparr>)"
    and "set (PutTasks ts (cr_queue q)) = set ts \<union> set (cr_queue q)"
proof -
  have wf: "mq_wf (cr_queue q)" using w by (simp add: window_ok_def)
  have "set ts \<union> set (cr_queue q) \<subseteq> hist" using w ts by (auto simp: window_ok_def)
  with h show s: "set (PutTasks ts (cr_queue q)) = set ts \<union> set (cr_queue q)"
    by (intro set_PutTasks [OF wf]) (auto simp: hist_ok_def intro: inj_on_subset)
  show "window_ok hist db E u (q\<lparr>cr_queue := PutTasks ts (cr_queue q)\<rparr>)"
    using w ts wf by (auto simp: window_ok_def s)
qed

lemma sr_upper_simps [simp]:
  "cr_queue (updateExclusiveUpperBound sr_hooks k q) = cr_queue q"
  "inclusiveLowerBound (updateExclusiveUpperBound sr_hooks k q) = inclusiveLowerBound q"
  "exclusiveUpperBound (updateExclusiveUpperBound sr_hooks k q) = k"
  "lastRangeID (updateExclusiveUpperBound sr_hooks k q) = lastRangeID q"
  "prefetchTargetUpper (updateExclusiveUpperBound sr_hooks k q) = prefetchTargetUpper q"
  "pendingInjectBuffer (updateExclusiveUpperBound sr_hooks k q) = pendingInjectBuffer q"
  by (simp_all add: updateExclusiveUpperBound_def sr_hooks_def notifyPrefetch_def)



lemma sr_putTasks_ok:
  assumes h: "hist_ok hist" and w: "window_ok hist db (set ts \<union> E) u q" and c: "closed_ok q"
    and ts: "\<forall>t \<in> set ts. t \<in> hist \<and> GetTaskKey t < u"
    and r: "sr_putTasks env ts q = (trimmed, q')"
  shows "closed_ok q' \<and> prefetchTargetUpper q' = prefetchTargetUpper q \<and>
    pendingInjectBuffer q' = pendingInjectBuffer q \<and> lastRangeID q' = lastRangeID q \<and>
    (if trimmed then exclusiveUpperBound q' < u \<and> window_ok hist db E (exclusiveUpperBound q') q'
     else exclusiveUpperBound q' = exclusiveUpperBound q \<and> window_ok hist db E u q')"
proof (cases "ts = []")
  case True
  then show ?thesis using w c r by (simp add: sr_putTasks_def)
next
  case False
  define q1 where "q1 = tryTimeEvict env (int (length ts)) q"
  define q2 where "q2 = q1\<lparr>cr_queue := PutTasks ts (cr_queue q1)\<rparr>"
  have w1: "window_ok hist db (set ts \<union> E) u q1" and c1: "closed_ok q1"
    and f1: "exclusiveUpperBound q1 = exclusiveUpperBound q" "prefetchTargetUpper q1 = prefetchTargetUpper q"
      "pendingInjectBuffer q1 = pendingInjectBuffer q" "lastRangeID q1 = lastRangeID q"
    using w c window_ok_advance [OF w] closed_ok_advance [OF c] by (auto simp: q1_def tryTimeEvict_def window_ok_def)
  have w2: "window_ok hist db E u q2"
    and s2: "set (cr_queue q2) = set ts \<union> set (cr_queue q1)"
    using window_ok_put [OF h w1 ts] by (simp_all add: q2_def)
  obtain k b queue' where t: "RTrimBySize (MaxSize env) (cr_queue q2) = (k, b, queue')" by (metis prod_cases3)
  have mem: "t \<in> hist \<and> GetTaskKey t < u" if "t \<in> set (cr_queue q2)" for t
    using w2 that by (simp add: window_ok_def)
  have wf2: "mq_wf (cr_queue q2)" using w2 by (simp add: window_ok_def)
  define q4 where "q4 = (if key_Equal k MinimumHistoryTaskKey
    then updateInclusiveLowerBound MinimumHistoryTaskKey (q2\<lparr>cr_queue := queue'\<rparr>) else q2\<lparr>cr_queue := queue'\<rparr>)"
  have e: "trimmed = b" "q' = (if b then updateExclusiveUpperBound sr_hooks k q4 else q2\<lparr>cr_queue := queue'\<rparr>)"
    using r False
    unfolding sr_putTasks_def Let_def q1_def [symmetric] q2_def [symmetric] t prod.case q4_def [symmetric]
    by (simp_all split: if_splits)
  obtain x where x: "x \<in> set (cr_queue q2)" using s2 False by (cases ts) auto
  have Min_u: "MinimumHistoryTaskKey < u"
    using mem [OF x] h by (auto simp: hist_ok_def intro: less_trans)
  consider "\<not> b" "queue' = cr_queue q2" | "b" "k = MinimumHistoryTaskKey" "queue' = []" | "b" "0 < MaxSize env"
    using t by (auto simp: RTrimBySize_def Let_def split: if_splits)
  then show ?thesis
  proof cases
    case 1
    then show ?thesis
      using w2 c1 f1 by (simp add: e q2_def closed_ok_def)
  next
    case 2
    then show ?thesis
      using Min_u f1 by (simp add: e q4_def q2_def closed_ok_def window_ok_def updateInclusiveLowerBound_def
          leD)
  next
    case 3
    note rt = RTrimBySize_trimmed [OF wf2 _ 3(2), of k queue']
    have "\<forall>t \<in> set (cr_queue q2). valid_key (GetTaskKey t)" using mem h by (simp add: hist_ok_def)
    note rt = rt [OF _ this]
    have rt: "queue' = filter (\<lambda>t. GetTaskKey t < k) (cr_queue q2)" "\<exists>t \<in> set queue'. k = Next (GetTaskKey t)"
      "\<exists>t \<in> set (cr_queue q2). k \<le> GetTaskKey t"
      using rt t 3(1) by simp_all
    have ku: "k < u" using rt(3) mem by (meson le_less_trans)
    obtain y where "y \<in> set (cr_queue q2)" "GetTaskKey y < k" using rt(1,2) by auto
    then have k0: "MinimumHistoryTaskKey < k" using mem h unfolding hist_ok_def by (meson less_trans)
    then have kne: "k \<noteq> MinimumHistoryTaskKey" by simp
    have q': "cr_queue q' = filter (\<lambda>t. GetTaskKey t < k) (cr_queue q2)"
      "inclusiveLowerBound q' = inclusiveLowerBound q2" "exclusiveUpperBound q' = k"
      using 3(1) kne by (simp_all add: e q4_def rt(1))
    have "window_ok hist db E k q'" by (rule window_ok_cut [OF w2 less_imp_le [OF ku] q'])
    then show ?thesis
      using 3(1) ku k0 kne f1 q'(3) by (simp add: e q4_def q2_def closed_ok_def)
  qed
qed

text \<open>The tasks buffered during a prefetch are put, as far as the window now covers them.\<close>

lemma insertBufferedTasks_ok:
  assumes h: "hist_ok hist" and w: "window_ok hist db (set (pendingInjectBuffer q)) (exclusiveUpperBound q) q"
    and c: "closed_ok q" and b: "set (pendingInjectBuffer q) \<subseteq> hist"
  shows "closed_ok (insertBufferedTasks env q) \<and> pendingInjectBuffer (insertBufferedTasks env q) = [] \<and>
    window_ok hist db {} (exclusiveUpperBound (insertBufferedTasks env q)) (insertBufferedTasks env q)"
proof (cases "pendingInjectBuffer q = []")
  case True
  then show ?thesis using w c by (simp add: insertBufferedTasks_def)
next
  case False
  let ?ts = "filter (\<lambda>t. isTaskCovered (GetTaskKey t) q) (pendingInjectBuffer q)"
  let ?q = "q\<lparr>pendingInjectBuffer := []\<rparr>"
  have "t \<in> set ?ts" if "min (inclusiveLowerBound q) (exclusiveUpperBound q) \<le> GetTaskKey t"
      "GetTaskKey t < exclusiveUpperBound q" "t \<in> set (pendingInjectBuffer q)" for t
    using that by (simp add: isTaskCovered_def min_le_iff_disj not_le [symmetric])
  then have w': "window_ok hist db (set ?ts \<union> {}) (exclusiveUpperBound q) ?q"
    using w unfolding window_ok_def by simp blast
  obtain tr q' where r: "sr_putTasks env ?ts ?q = (tr, q')" by force
  have "\<forall>t \<in> set ?ts. t \<in> hist \<and> GetTaskKey t < exclusiveUpperBound q"
    using b by (auto simp: isTaskCovered_def)
  from sr_putTasks_ok [OF h w' _ this r] c show ?thesis
    using False r by (cases tr) (simp_all add: insertBufferedTasks_def closed_ok_def)
qed

section \<open>The system\<close>

text \<open>
  \<open>sys_flight\<close> is the prefetch that is under way, with the answer of its database read once it has
  been made.
\<close>

record timer_sys =
  sys_hist :: "ptask set"
  sys_db :: "ptask set"
  sys_reader :: scheduled_reader
  sys_flight :: "(prefetch_flight \<times> GetTaskResponse result option) option"

text \<open>A prefetch into a window that was closed when it began is under way.\<close>

definition first_flight :: "timer_sys \<Rightarrow> bool" where
  "first_flight s \<longleftrightarrow> (\<exists>pf a. sys_flight s = Some (pf, a) \<and> pf_upperBound pf = MinimumHistoryTaskKey)"

text \<open>
  The steps. The clock, the configuration and the shard's range id are arbitrary at every step. The
  window must not be cleared and the cache not be disabled during the first prefetch, and the page
  of the first prefetch must leave room in the cache.
\<close>

inductive timer_step :: "timer_sys \<Rightarrow> timer_sys \<Rightarrow> bool" where
  store: "hist_ok (sys_hist s \<union> set ts) \<Longrightarrow> \<forall>t \<in> set ts. task_TaskID t \<noteq> 0 \<Longrightarrow>
    isDisabled env \<longrightarrow> \<not> first_flight s \<Longrightarrow>
    timer_step s (s\<lparr>sys_hist := sys_hist s \<union> set ts, sys_db := sys_db s \<union> set ts,
      sys_reader := sr_Inject env ts (sys_reader s)\<rparr>)"
| delete: "db' \<subseteq> sys_db s \<Longrightarrow> timer_step s (s\<lparr>sys_db := db'\<rparr>)"
| level: "timer_step s (s\<lparr>sys_reader := UpdateReadLevel k (sys_reader s)\<rparr>)"
| evict: "timer_step s (s\<lparr>sys_reader := tryTimeEvictIfCacheFull env (sys_reader s)\<rparr>)"
| clear: "\<not> first_flight s \<Longrightarrow> timer_step s (s\<lparr>sys_reader := cr_Clear sr_hooks (sys_reader s)\<rparr>)"
| get: "first_flight s \<longrightarrow> re_rangeID (env :: scheduled_env) = lastRangeID (sys_reader s) \<Longrightarrow>
    cached_GetTask sr_hooks env base req (sys_reader s) = (r, rep, q) \<Longrightarrow> timer_step s (s\<lparr>sys_reader := q\<rparr>)"
| look: "first_flight s \<longrightarrow> re_rangeID env = lastRangeID (sys_reader s) \<Longrightarrow>
    sr_LookAHead env base_LookAHead k (sys_reader s) = (la, q) \<Longrightarrow> timer_step s (s\<lparr>sys_reader := q\<rparr>)"
| skip: "sys_flight s = None \<Longrightarrow> prefetch_begin env (sys_reader s) = (None, q) \<Longrightarrow>
    timer_step s (s\<lparr>sys_reader := q\<rparr>)"
| begin_prefetch: "sys_flight s = None \<Longrightarrow> prefetch_begin env (sys_reader s) = (Some pf, q) \<Longrightarrow>
    MinimumHistoryTaskKey < pf_inclusiveMin pf \<Longrightarrow>
    timer_step s (s\<lparr>sys_reader := q, sys_flight := Some (pf, None)\<rparr>)"
| read_page: "sys_flight s = Some (pf, None) \<Longrightarrow> reads_page (sys_db s) (pf_request pf) r \<Longrightarrow>
    timer_step s (s\<lparr>sys_flight := Some (pf, Some (Inr r))\<rparr>)"
| read_error: "sys_flight s = Some (pf, None) \<Longrightarrow> timer_step s (s\<lparr>sys_flight := Some (pf, Some (Inl err))\<rparr>)"
| end_prefetch: "sys_flight s = Some (pf, Some a) \<Longrightarrow>
    first_flight s \<longrightarrow> (\<forall>r. a = Inr r \<longrightarrow> int (length (resp_Tasks r)) < MaxSize env) \<Longrightarrow>
    prefetch_finish env pf a (sys_reader s) = (res, q) \<Longrightarrow>
    timer_step s (s\<lparr>sys_reader := q, sys_flight := None\<rparr>)"

definition timer_start :: "int \<Rightarrow> timer_sys" where
  "timer_start rangeID =
     \<lparr>sys_hist = {}, sys_db = {}, sys_reader = newCachedScheduledQueueReader rangeID, sys_flight = None\<rparr>"

text \<open>
  What a page in flight has to bring: with the tasks buffered since it was read it is complete, as
  long as the window still ends where it did.
\<close>

definition page_ok :: "ptask set \<Rightarrow> ptask set \<Rightarrow> ptask list \<Rightarrow> prefetch_flight \<Rightarrow> GetTaskResponse \<Rightarrow> bool" where
  "page_ok hist db buffer pf r \<longleftrightarrow>
     (let next_key = NextTaskKey (resp_Progress r) in
      pf_inclusiveMin pf \<le> next_key \<and> next_key \<le> pf_exclusiveMax pf \<and>
      (\<forall>t \<in> set (resp_Tasks r). t \<in> hist \<and> GetTaskKey t < next_key) \<and>
      (\<forall>t \<in> db. pf_inclusiveMin pf \<le> GetTaskKey t \<longrightarrow> GetTaskKey t < next_key \<longrightarrow>
         t \<in> set (resp_Tasks r) \<or> t \<in> set buffer))"

definition flight_ok :: "timer_sys \<Rightarrow> prefetch_flight \<Rightarrow> GetTaskResponse result option \<Rightarrow> bool" where
  "flight_ok s pf a \<longleftrightarrow>
     MinimumHistoryTaskKey < pf_inclusiveMin pf \<and>
     (pf_upperBound pf \<noteq> MinimumHistoryTaskKey \<longrightarrow> pf_inclusiveMin pf = pf_upperBound pf) \<and>
     exclusiveUpperBound (sys_reader s) \<le> pf_upperBound pf \<and>
     (exclusiveUpperBound (sys_reader s) = pf_upperBound pf \<longrightarrow>
        prefetchTargetUpper (sys_reader s) = pf_exclusiveMax pf \<and>
        (\<forall>r. a = Some (Inr r) \<longrightarrow>
           page_ok (sys_hist s) (sys_db s) (pendingInjectBuffer (sys_reader s)) pf r))"

definition timer_inv :: "timer_sys \<Rightarrow> bool" where
  "timer_inv s \<longleftrightarrow> hist_ok (sys_hist s) \<and> sys_db s \<subseteq> sys_hist s \<and>
     set (pendingInjectBuffer (sys_reader s)) \<subseteq> sys_hist s \<and> closed_ok (sys_reader s) \<and>
     window_ok (sys_hist s) (sys_db s) {} (exclusiveUpperBound (sys_reader s)) (sys_reader s) \<and>
     (\<forall>pf a. sys_flight s = Some (pf, a) \<longrightarrow> flight_ok s pf a)"

section \<open>Every step keeps the invariant\<close>

lemmas timer_defs = timer_inv_def flight_ok_def

lemma timer_inv_start: "timer_inv (timer_start rangeID)"
  by (simp add: timer_inv_def timer_start_def hist_ok_def closed_ok_def window_ok_def
      newCachedScheduledQueueReader_def newCachedQueueReaderBase_def newInMemQueue_def cached_reader.defs)

text \<open>
  The reader changes without new tasks: the window ends where it did and a flight is not disturbed,
  or the window now ends before the flight's page.
\<close>

lemma timer_inv_reader:
  assumes inv: "timer_inv s"
    and w: "window_ok (sys_hist s) (sys_db s) {} (exclusiveUpperBound q) q" "closed_ok q"
    and b: "set (pendingInjectBuffer q) \<subseteq> sys_hist s"
    and fl: "(exclusiveUpperBound q = exclusiveUpperBound (sys_reader s) \<and>
        prefetchTargetUpper q = prefetchTargetUpper (sys_reader s) \<and>
        pendingInjectBuffer q = pendingInjectBuffer (sys_reader s)) \<or>
      (\<forall>pf a. sys_flight s = Some (pf, a) \<longrightarrow> exclusiveUpperBound q < pf_upperBound pf)"
  shows "timer_inv (s\<lparr>sys_reader := q\<rparr>)"
  using fl
proof
  assume "\<forall>pf a. sys_flight s = Some (pf, a) \<longrightarrow> exclusiveUpperBound q < pf_upperBound pf"
  then have "flight_ok (s\<lparr>sys_reader := q\<rparr>) pf a" if "sys_flight s = Some (pf, a)" for pf a
    using inv that by (auto simp: timer_defs)
  then show ?thesis using inv w b by (simp add: timer_inv_def)
qed (use inv w b in \<open>simp add: timer_defs\<close>)

lemma timer_inv_same:
  assumes "timer_inv s" "cr_queue q = cr_queue (sys_reader s)"
    "inclusiveLowerBound q = inclusiveLowerBound (sys_reader s)"
    "exclusiveUpperBound q = exclusiveUpperBound (sys_reader s)"
    "prefetchTargetUpper q = prefetchTargetUpper (sys_reader s)"
    "pendingInjectBuffer q = pendingInjectBuffer (sys_reader s)"
  shows "timer_inv (s\<lparr>sys_reader := q\<rparr>)"
  using assms window_ok_cong [of q "sys_reader s"]
  by (intro timer_inv_reader [OF assms(1)]) (simp_all add: timer_inv_def closed_ok_def)

lemma timer_inv_advance:
  assumes "timer_inv s"
  shows "timer_inv (s\<lparr>sys_reader := advanceInclusiveLowerBound k (sys_reader s)\<rparr>)"
  using assms by (intro timer_inv_reader [OF assms])
    (auto simp: timer_inv_def window_ok_advance dest: window_ok_wf intro: closed_ok_advance)

lemma window_ok_closed:
  "cr_queue q = [] \<Longrightarrow> exclusiveUpperBound q = MinimumHistoryTaskKey \<Longrightarrow> hist_ok hist \<Longrightarrow> db \<subseteq> hist \<Longrightarrow>
   window_ok hist db E MinimumHistoryTaskKey q"
  unfolding window_ok_def hist_ok_def by (simp add: subset_iff less_not_sym)

lemma clear_frame:
  "pendingInjectBuffer (clearLocked sr_hooks q) = []"
  by (simp add: clearLocked_def sr_hooks_def resetPrefetchState_def updateExclusiveUpperBound_def)

lemma flight_upper: "timer_inv s \<Longrightarrow> \<not> first_flight s \<Longrightarrow> sys_flight s = Some (pf, a) \<Longrightarrow>
    MinimumHistoryTaskKey < pf_upperBound pf"
  by (auto simp: timer_defs closed_ok_def first_flight_def order.strict_iff_order intro: order_trans)

lemma timer_inv_clear:
  assumes "timer_inv s" "\<not> first_flight s" "cr_queue q = []" "inclusiveLowerBound q = MinimumHistoryTaskKey"
    "exclusiveUpperBound q = MinimumHistoryTaskKey" "pendingInjectBuffer q = []"
  shows "timer_inv (s\<lparr>sys_reader := q\<rparr>)"
  using assms flight_upper [OF assms(1,2)] window_ok_closed [of q "sys_hist s" "sys_db s" "{}"]
  by (intro timer_inv_reader [OF assms(1)]) (auto simp: timer_inv_def closed_ok_def)

lemma timer_inv_fallback:
  assumes inv: "timer_inv s" and f: "fallbackIfRangeIDChanged sr_hooks env (sys_reader s) = (b, q)"
    and g: "first_flight s \<longrightarrow> re_rangeID env = lastRangeID (sys_reader s)"
  shows "timer_inv (s\<lparr>sys_reader := q\<lparr>lastShadowSampleUnixNano := n\<rparr>\<rparr>)" "timer_inv (s\<lparr>sys_reader := q\<rparr>)"
proof -
  let ?r = "sys_reader s"
  consider r where "q = ?r\<lparr>lastRangeID := r\<rparr>" | "q = ?r"
    | r where "\<not> first_flight s" "q = clearLocked sr_hooks (?r\<lparr>lastRangeID := r\<rparr>)"
    using f g by (auto simp: fallbackIfRangeIDChanged_def isRangeIDChangedLocked_def Let_def split: if_splits)
  then have "timer_inv (s\<lparr>sys_reader := q\<lparr>lastShadowSampleUnixNano := n\<rparr>\<rparr>) \<and> timer_inv (s\<lparr>sys_reader := q\<rparr>)"
  proof cases
    case 3
    then show ?thesis
      by (intro conjI timer_inv_clear [OF inv]) (simp_all add: clearLocked_window clear_frame)
  qed (use inv in \<open>auto intro!: timer_inv_same [OF inv]\<close>)
  then show "timer_inv (s\<lparr>sys_reader := q\<lparr>lastShadowSampleUnixNano := n\<rparr>\<rparr>)" "timer_inv (s\<lparr>sys_reader := q\<rparr>)"
    by blast+
qed

text \<open>New tasks arrive and the flight, if there is one, has lost its place.\<close>

lemma timer_inv_lost:
  "timer_inv s \<Longrightarrow> hist_ok H \<Longrightarrow> D \<subseteq> H \<Longrightarrow> set (pendingInjectBuffer q) \<subseteq> H \<Longrightarrow> closed_ok q \<Longrightarrow>
   window_ok H D {} (exclusiveUpperBound q) q \<Longrightarrow>
   (\<And>pf a. sys_flight s = Some (pf, a) \<Longrightarrow> exclusiveUpperBound q < pf_upperBound pf) \<Longrightarrow>
   timer_inv (s\<lparr>sys_hist := H, sys_db := D, sys_reader := q\<rparr>)"
  by (auto simp: timer_defs)

lemma closed_queue_empty:
  assumes "timer_inv s" "exclusiveUpperBound (sys_reader s) = MinimumHistoryTaskKey"
  shows "cr_queue (sys_reader s) = []"
proof (cases "cr_queue (sys_reader s)")
  case (Cons t ts)
  then have t: "t \<in> sys_hist s" "GetTaskKey t < MinimumHistoryTaskKey"
    using assms by (simp_all add: timer_inv_def window_ok_def)
  have "MinimumHistoryTaskKey < GetTaskKey t" using assms(1) t(1) by (simp add: timer_inv_def hist_ok_def)
  with t(2) show ?thesis by (simp add: less_not_sym)
qed

lemma timer_inv_store_disabled:
  assumes inv: "timer_inv s" and h: "hist_ok (sys_hist s \<union> set ts)" and g: "\<not> first_flight s"
  shows "timer_inv (s\<lparr>sys_hist := sys_hist s \<union> set ts, sys_db := sys_db s \<union> set ts,
      sys_reader := clearIfNotEmpty sr_hooks (sys_reader s)\<rparr>)"
proof -
  let ?q = "clearIfNotEmpty sr_hooks (sys_reader s)"
  have q: "exclusiveUpperBound ?q = MinimumHistoryTaskKey" "cr_queue ?q = []"
    "inclusiveLowerBound ?q = MinimumHistoryTaskKey" "set (pendingInjectBuffer ?q) \<subseteq> sys_hist s"
    using inv closed_queue_empty [OF inv]
    by (auto simp: clearIfNotEmpty_def cr_IsEmpty_def cr_Clear_def clearLocked_window clear_frame timer_inv_def
        closed_ok_def)
  have "window_ok (sys_hist s \<union> set ts) (sys_db s \<union> set ts) {} (exclusiveUpperBound ?q) ?q"
    unfolding q(1) using inv by (intro window_ok_closed q h) (auto simp: timer_inv_def)
  then show ?thesis
    using q inv flight_upper [OF inv g] by (intro timer_inv_lost [OF inv h]) (auto simp: timer_inv_def closed_ok_def)
qed

text \<open>A task that arrives behind the window during a prefetch is buffered.\<close>

lemma to_buffer:
  assumes "flight_ok s pf (Some (Inr r))" "exclusiveUpperBound (sys_reader s) = pf_upperBound pf"
    "pf_inclusiveMin pf \<le> GetTaskKey t" "GetTaskKey t < NextTaskKey (resp_Progress r)"
  shows "\<not> isTaskCovered (GetTaskKey t) (sys_reader s) \<and> isToBufferTask (GetTaskKey t) (sys_reader s)"
proof -
  have f: "MinimumHistoryTaskKey < pf_inclusiveMin pf" "prefetchTargetUpper (sys_reader s) = pf_exclusiveMax pf"
    "NextTaskKey (resp_Progress r) \<le> pf_exclusiveMax pf"
    "pf_upperBound pf \<noteq> MinimumHistoryTaskKey \<longrightarrow> pf_inclusiveMin pf = pf_upperBound pf"
    using assms(1,2) by (simp_all add: flight_ok_def page_ok_def Let_def)
  have "pf_upperBound pf \<le> GetTaskKey t"
    using f(1,4) assms(3) by (cases "pf_upperBound pf = MinimumHistoryTaskKey") auto
  moreover have "GetTaskKey t < pf_exclusiveMax pf" using assms(4) f(3) by (rule less_le_trans)
  moreover have "MinimumHistoryTaskKey < pf_exclusiveMax pf"
    using f(1) assms(3) calculation(2) by (meson le_less_trans less_trans)
  ultimately show ?thesis
    using assms(2) f(2) by (auto simp: isTaskCovered_def isToBufferTask_def)
qed

lemma timer_inv_store_enabled:
  assumes inv: "timer_inv s" and h: "hist_ok (sys_hist s \<union> set ts)" and id: "\<forall>t \<in> set ts. task_TaskID t \<noteq> 0"
    and e: "\<not> isDisabled env"
  shows "timer_inv (s\<lparr>sys_hist := sys_hist s \<union> set ts, sys_db := sys_db s \<union> set ts,
      sys_reader := sr_Inject env ts (sys_reader s)\<rparr>)"
proof -
  let ?H = "sys_hist s \<union> set ts" and ?D = "sys_db s \<union> set ts" and ?q = "sys_reader s"
  let ?u = "exclusiveUpperBound (sys_reader s)"
  define cov where "cov = filter (\<lambda>t. isTaskCovered (GetTaskKey t) ?q) ts"
  define buf where "buf = filter (\<lambda>t. \<not> isTaskCovered (GetTaskKey t) ?q \<and> isToBufferTask (GetTaskKey t) ?q) ts"
  define q0 where "q0 = ?q\<lparr>pendingInjectBuffer := pendingInjectBuffer ?q @ buf\<rparr>"
  obtain tr q' where r: "sr_putTasks env cov q0 = (tr, q')" by force
  have ts: "filter (\<lambda>t. task_TaskID t \<noteq> 0) ts = ts" using id by (simp add: filter_id_conv)
  have eq: "sr_Inject env ts ?q = q'"
    using e r unfolding sr_Inject_def Let_def ts by (simp add: cov_def buf_def q0_def)
  have w: "window_ok (sys_hist s) (sys_db s) {} ?u ?q" and c: "closed_ok ?q" using inv by (simp_all add: timer_inv_def)
  have new: "t \<in> set cov" if "t \<in> set ts" "min (inclusiveLowerBound ?q) ?u \<le> GetTaskKey t" "GetTaskKey t < ?u" for t
    using that by (simp add: cov_def isTaskCovered_def min_le_iff_disj not_le [symmetric])
  have "window_ok ?H ?D (set cov \<union> {}) ?u q0"
    using w new by (simp add: window_ok_def q0_def ball_Un)
  note put = sr_putTasks_ok [OF h this _ _ r]
  have put: "closed_ok q'" "prefetchTargetUpper q' = prefetchTargetUpper ?q"
    "pendingInjectBuffer q' = pendingInjectBuffer ?q @ buf"
    "if tr then exclusiveUpperBound q' < ?u \<and> window_ok ?H ?D {} (exclusiveUpperBound q') q'
     else exclusiveUpperBound q' = ?u \<and> window_ok ?H ?D {} ?u q'"
    using put c by (simp_all add: q0_def closed_ok_def cov_def isTaskCovered_def)
  have D: "?D \<subseteq> ?H" and b: "set (pendingInjectBuffer q') \<subseteq> ?H" using inv put(3) by (auto simp: timer_inv_def buf_def)
  show ?thesis
  proof (cases tr)
    case True
    then show ?thesis
      using put inv unfolding eq by (intro timer_inv_lost [OF inv h D b]) (auto simp: timer_defs intro: less_le_trans)
  next
    case False
    have "page_ok ?H ?D (pendingInjectBuffer q') pf rp"
      if f: "sys_flight s = Some (pf, Some (Inr rp))" "?u = pf_upperBound pf" for pf rp
    proof -
      have fo: "flight_ok s pf (Some (Inr rp))" using inv f(1) by (simp add: timer_inv_def)
      then show ?thesis
        using f(2) to_buffer [OF fo f(2)] put(3) by (auto simp: flight_ok_def page_ok_def Let_def buf_def)
    qed
    then show ?thesis
      using False put inv h D b unfolding eq by (simp add: timer_defs)
  qed
qed

text \<open>The end of a prefetch.\<close>

lemma length_PutTasks: "mq_wf q \<Longrightarrow> length (PutTasks ts q) \<le> length ts + length q"
  unfolding PutTasks_def
proof (induction ts arbitrary: q)
  case (Cons t ts)
  have "length (putTask t q) \<le> Suc (length q)"
    using arg_cong [OF mq_wf_split [OF Cons.prems, of "GetTaskKey t"], of length] by (simp add: putTask_eq [OF Cons.prems])
  then show ?case using Cons.IH [OF mq_wf_putTask [OF Cons.prems, of t]] by simp
qed simp

lemma timer_inv_landed:
  assumes inv: "timer_inv s" and w: "window_ok (sys_hist s) (sys_db s) (set (pendingInjectBuffer q)) (exclusiveUpperBound q) q"
    and c: "closed_ok q" and b: "set (pendingInjectBuffer q) \<subseteq> sys_hist s"
  shows "timer_inv (s\<lparr>sys_reader := insertBufferedTasks env q, sys_flight := None\<rparr>)"
  using inv insertBufferedTasks_ok [OF _ w c b] by (simp add: timer_inv_def)

text \<open>A page goes behind an open window: first the general case, then the first page.\<close>

lemma window_ok_raise:
  assumes "window_ok hist db E u q" "u \<noteq> MinimumHistoryTaskKey" "MinimumHistoryTaskKey \<le> u"
  shows "window_ok hist db E u (updateExclusiveUpperBound sr_hooks u q)"
    and "closed_ok (updateExclusiveUpperBound sr_hooks u q)"
  using assms window_ok_cut [OF assms(1) order_refl, of "updateExclusiveUpperBound sr_hooks u q"]
  by (auto simp: window_ok_def closed_ok_def intro!: filter_True [symmetric])

definition page_put :: "scheduled_env \<Rightarrow> prefetch_flight \<Rightarrow> GetTaskResponse \<Rightarrow> scheduled_reader \<Rightarrow> scheduled_reader" where
  "page_put env pf r q =
     (let q2 = (if key_Equal (inclusiveLowerBound q) MinimumHistoryTaskKey
                then updateInclusiveLowerBound (pf_inclusiveMin pf) q else q);
          (trimmed, q3) = sr_putTasks env (resp_Tasks r) q2
      in if \<not> trimmed then updateExclusiveUpperBound sr_hooks (NextTaskKey (resp_Progress r)) q3 else q3)"

lemma page_put_open:
  fixes q :: scheduled_reader
  assumes h: "hist_ok hist" and w: "window_ok hist db {} (exclusiveUpperBound q) q" and c: "closed_ok q"
    and pf: "exclusiveUpperBound q = pf_inclusiveMin pf" "MinimumHistoryTaskKey < pf_inclusiveMin pf"
    and pg: "page_ok hist db (pendingInjectBuffer q) pf r"
  shows "closed_ok (page_put env pf r q) \<and> pendingInjectBuffer (page_put env pf r q) = pendingInjectBuffer q \<and>
    window_ok hist db (set (pendingInjectBuffer q)) (exclusiveUpperBound (page_put env pf r q)) (page_put env pf r q)"
proof -
  let ?E = "set (pendingInjectBuffer q)" and ?n = "NextTaskKey (resp_Progress r)" and ?u = "exclusiveUpperBound q"
  define q2 where "q2 = (if key_Equal (inclusiveLowerBound q) MinimumHistoryTaskKey
    then updateInclusiveLowerBound (pf_inclusiveMin pf) q else q)"
  obtain tr q3 where r: "sr_putTasks env (resp_Tasks r) q2 = (tr, q3)" by force
  have q2: "exclusiveUpperBound q2 = ?u" "cr_queue q2 = cr_queue q" "pendingInjectBuffer q2 = pendingInjectBuffer q"
    "min (inclusiveLowerBound q2) ?u = min (inclusiveLowerBound q) ?u \<or> min (inclusiveLowerBound q2) ?u = ?u"
    using pf(1) by (auto simp: q2_def updateInclusiveLowerBound_def)
  have le: "?u \<le> ?n" and pgt: "\<forall>t \<in> set (resp_Tasks r). t \<in> hist \<and> GetTaskKey t < ?n"
    and pgc: "\<forall>t \<in> db. ?u \<le> GetTaskKey t \<longrightarrow> GetTaskKey t < ?n \<longrightarrow> t \<in> set (resp_Tasks r) \<union> ?E"
    using pg pf(1) by (simp_all add: page_ok_def Let_def)
  have "t \<in> set (cr_queue q2) \<or> t \<in> set (resp_Tasks r) \<union> ?E"
    if t: "t \<in> db" "min (inclusiveLowerBound q2) ?u \<le> GetTaskKey t" "GetTaskKey t < ?n" for t
  proof (cases "?u \<le> GetTaskKey t")
    case True
    then show ?thesis using pgc t by blast
  next
    case False
    then have "min (inclusiveLowerBound q) ?u \<le> GetTaskKey t" using q2(4) t(2) by auto
    then show ?thesis using w t(1) False q2(2) by (simp add: window_ok_def)
  qed
  moreover have "\<forall>t \<in> set (cr_queue q). t \<in> hist \<and> GetTaskKey t < ?n"
    using w le by (auto simp: window_ok_def intro: less_le_trans)
  ultimately have w2: "window_ok hist db (set (resp_Tasks r) \<union> ?E) ?n q2"
    using w q2(1,2) by (simp add: window_ok_def)
  have c2: "closed_ok q2" using pf q2(1) by (auto simp: closed_ok_def)
  have nM: "MinimumHistoryTaskKey < ?n" using pf le by (metis less_le_trans)
  have e: "page_put env pf r q = (if \<not> tr then updateExclusiveUpperBound sr_hooks ?n q3 else q3)"
    unfolding page_put_def Let_def q2_def [symmetric] r by simp
  note put = sr_putTasks_ok [OF h w2 c2 pgt r]
  show ?thesis
    using put window_ok_raise [of hist db ?E ?n q3] nM q2(3) by (cases tr) (simp_all add: e less_imp_le)
qed

lemma page_put_first:
  fixes q :: scheduled_reader
  assumes h: "hist_ok hist" and q: "cr_queue q = []" "inclusiveLowerBound q = MinimumHistoryTaskKey"
    and pf: "MinimumHistoryTaskKey < pf_inclusiveMin pf"
    and pg: "page_ok hist db (pendingInjectBuffer q) pf r"
    and sz: "int (length (resp_Tasks r)) < MaxSize env"
  shows "closed_ok (page_put env pf r q) \<and> pendingInjectBuffer (page_put env pf r q) = pendingInjectBuffer q \<and>
    window_ok hist db (set (pendingInjectBuffer q)) (exclusiveUpperBound (page_put env pf r q)) (page_put env pf r q)"
proof -
  let ?n = "NextTaskKey (resp_Progress r)"
  define Q where "Q = PutTasks (resp_Tasks r) []"
  have pgf: "pf_inclusiveMin pf \<le> ?n" "\<forall>t \<in> set (resp_Tasks r). t \<in> hist \<and> GetTaskKey t < ?n"
    "\<forall>t \<in> db. pf_inclusiveMin pf \<le> GetTaskKey t \<longrightarrow> GetTaskKey t < ?n \<longrightarrow>
       t \<in> set (resp_Tasks r) \<or> t \<in> set (pendingInjectBuffer q)"
    using pg by (simp_all add: page_ok_def Let_def)
  have nM: "MinimumHistoryTaskKey < ?n" using pf pgf(1) by (rule less_le_trans)
  have "inj_on GetTaskKey (set (resp_Tasks r) \<union> set [])"
    using h pgf(2) by (auto simp: hist_ok_def intro: inj_on_subset)
  then have Q: "set Q = set (resp_Tasks r)" "mq_wf Q"
    unfolding Q_def using set_PutTasks [of "[]" "resp_Tasks r"] by simp_all
  have "int (length Q) < MaxSize env" using length_PutTasks [of "[]" "resp_Tasks r"] sz by (simp add: Q_def)
  then have trim: "\<exists>k. RTrimBySize (MaxSize env) Q = (k, False, Q)" by (auto simp: RTrimBySize_def Let_def)
  have put: "sr_putTasks env (resp_Tasks r) (q\<lparr>inclusiveLowerBound := pf_inclusiveMin pf\<rparr>) =
      (False, q\<lparr>inclusiveLowerBound := pf_inclusiveMin pf, cr_queue := Q\<rparr>)"
    using sz trim q by (auto simp: sr_putTasks_def tryTimeEvict_def mq_Len_def Let_def Q_def PutTasks_def)
  have e: "page_put env pf r q =
      updateExclusiveUpperBound sr_hooks ?n (q\<lparr>inclusiveLowerBound := pf_inclusiveMin pf, cr_queue := Q\<rparr>)"
    using q(2) put by (simp add: page_put_def updateInclusiveLowerBound_def)
  have "window_ok hist db (set (pendingInjectBuffer q)) ?n (page_put env pf r q)"
    using Q pgf by (simp add: e window_ok_def min_absorb1)
  then show ?thesis using nM by (auto simp: e closed_ok_def)
qed

lemma timer_inv_end:
  assumes inv: "timer_inv s" and f: "sys_flight s = Some (pf, Some a)"
    and sz: "first_flight s \<longrightarrow> (\<forall>r. a = Inr r \<longrightarrow> int (length (resp_Tasks r)) < MaxSize env)"
    and r: "prefetch_finish env pf a (sys_reader s) = (res, q)"
  shows "timer_inv (s\<lparr>sys_reader := q, sys_flight := None\<rparr>)"
proof -
  define q1 where "q1 = (sys_reader s)\<lparr>prefetchTargetUpper := MinimumHistoryTaskKey\<rparr>"
  have w1: "window_ok (sys_hist s) (sys_db s) {} (exclusiveUpperBound q1) q1" "closed_ok q1"
    "set (pendingInjectBuffer q1) \<subseteq> sys_hist s" and h: "hist_ok (sys_hist s)"
    using inv by (simp_all add: timer_inv_def q1_def closed_ok_def window_ok_def)
  note w1' = window_ok_mono [OF w1(1) order_refl order_refl empty_subsetI]
  have dropped: "timer_inv (s\<lparr>sys_reader := insertBufferedTasks env q1, sys_flight := None\<rparr>)"
    by (rule timer_inv_landed [OF inv w1' w1(2,3)])
  have discarded: "timer_inv (s\<lparr>sys_reader := insertBufferedTasks env (q1\<lparr>pendingInjectBuffer := []\<rparr>), sys_flight := None\<rparr>)"
    using w1(1,2) by (intro timer_inv_landed [OF inv]) (simp_all add: window_ok_def closed_ok_def)
  consider "q = insertBufferedTasks env q1" | "q = insertBufferedTasks env (q1\<lparr>pendingInjectBuffer := []\<rparr>)"
    | rp where "a = Inr rp" "exclusiveUpperBound q1 = pf_upperBound pf" "q = insertBufferedTasks env (page_put env pf rp q1)"
    using r by (auto simp: prefetch_finish_def page_put_def Let_def q1_def [symmetric] split: sum.splits if_splits prod.splits)
  then show ?thesis
  proof cases
    case (3 rp)
    have fo: "flight_ok s pf (Some (Inr rp))" using inv f 3(1) by (simp add: timer_inv_def)
    then have pg: "page_ok (sys_hist s) (sys_db s) (pendingInjectBuffer q1) pf rp"
      and pf: "MinimumHistoryTaskKey < pf_inclusiveMin pf"
        "pf_upperBound pf \<noteq> MinimumHistoryTaskKey \<longrightarrow> pf_inclusiveMin pf = pf_upperBound pf"
      using 3(2) by (simp_all add: flight_ok_def q1_def)
    let ?q = "page_put env pf rp q1"
    have "closed_ok ?q \<and> pendingInjectBuffer ?q = pendingInjectBuffer q1 \<and>
        window_ok (sys_hist s) (sys_db s) (set (pendingInjectBuffer q1)) (exclusiveUpperBound ?q) ?q"
    proof (cases "pf_upperBound pf = MinimumHistoryTaskKey")
      case True
      then have u: "exclusiveUpperBound (sys_reader s) = MinimumHistoryTaskKey" using 3(2) by (simp add: q1_def)
      have "first_flight s" using f True by (simp add: first_flight_def)
      then show ?thesis
        using closed_queue_empty [OF inv u] w1(2) 3(1) u sz
        by (intro page_put_first [OF h _ _ pf(1) pg]) (simp_all add: q1_def closed_ok_def)
    next
      case False
      then show ?thesis using 3(2) pf by (intro page_put_open [OF h w1(1,2) _ _ pg]) simp_all
    qed
    then show ?thesis unfolding 3(3) using w1(3) by (intro timer_inv_landed [OF inv]) simp_all
  qed (use dropped discarded in simp_all)
qed

lemma timer_inv_begin:
  assumes inv: "timer_inv s" and r: "prefetch_begin env (sys_reader s) = (Some pf, q)"
    and m: "MinimumHistoryTaskKey < pf_inclusiveMin pf"
  shows "timer_inv (s\<lparr>sys_reader := q, sys_flight := Some (pf, None)\<rparr>)"
proof -
  have "q = (sys_reader s)\<lparr>prefetchTargetUpper := pf_exclusiveMax pf\<rparr>"
    "pf_upperBound pf = exclusiveUpperBound (sys_reader s)"
    "pf_upperBound pf \<noteq> MinimumHistoryTaskKey \<longrightarrow> pf_inclusiveMin pf = pf_upperBound pf"
    using r by (auto simp: prefetch_begin_def Let_def split: if_splits)
  then show ?thesis using inv m by (simp add: timer_defs closed_ok_def window_ok_def)
qed

lemma timer_inv_skip:
  assumes inv: "timer_inv s" and f: "sys_flight s = None" and r: "prefetch_begin env (sys_reader s) = (None, q)"
  shows "timer_inv (s\<lparr>sys_reader := q\<rparr>)"
proof -
  consider "q = sys_reader s" | "q = clearLocked sr_hooks (sys_reader s)"
    using r by (auto simp: prefetch_begin_def clearIfNotEmpty_def cr_Clear_def Let_def split: if_splits)
  then show ?thesis
  proof cases
    case 2
    then show ?thesis
      using f by (intro timer_inv_clear [OF inv]) (simp_all add: clearLocked_window clear_frame first_flight_def)
  qed (use inv in simp)
qed

lemma timer_inv_read:
  assumes inv: "timer_inv s" and f: "sys_flight s = Some (pf, None)" and r: "reads_page (sys_db s) (pf_request pf) r"
  shows "timer_inv (s\<lparr>sys_flight := Some (pf, Some (Inr r))\<rparr>)"
proof -
  have "page_ok (sys_hist s) (sys_db s) (pendingInjectBuffer (sys_reader s)) pf r"
    using r inv by (auto simp: page_ok_def reads_page_def Let_def pf_request_def timer_inv_def NewUniversalPredicate_def)
  then show ?thesis using inv f by (simp add: timer_defs)
qed

lemma timer_inv_read_error: "timer_inv s \<Longrightarrow> sys_flight s = Some (pf, None) \<Longrightarrow>
    timer_inv (s\<lparr>sys_flight := Some (pf, Some (Inl err))\<rparr>)"
  by (simp add: timer_defs)

lemma page_ok_mono: "page_ok hist db buffer pf r \<Longrightarrow> db' \<subseteq> db \<Longrightarrow> page_ok hist db' buffer pf r"
  by (auto simp: page_ok_def Let_def)

lemma timer_inv_delete:
  assumes inv: "timer_inv s" and d: "db' \<subseteq> sys_db s"
  shows "timer_inv (s\<lparr>sys_db := db'\<rparr>)"
proof -
  have "flight_ok (s\<lparr>sys_db := db'\<rparr>) pf a" if "sys_flight s = Some (pf, a)" for pf a
    using inv that page_ok_mono [OF _ d] by (simp add: timer_defs)
  moreover have "window_ok (sys_hist s) db' {} (exclusiveUpperBound (sys_reader s)) (sys_reader s)"
    using inv by (intro window_ok_mono [OF _ order_refl d order_refl]) (simp add: timer_inv_def)
  moreover have "db' \<subseteq> sys_hist s" using d inv by (auto simp: timer_inv_def)
  ultimately show ?thesis using inv by (simp add: timer_inv_def)
qed

theorem timer_step_inv:
  assumes "timer_step s s'" "timer_inv s"
  shows "timer_inv s'"
  using assms
proof (induction rule: timer_step.induct)
  case (store s ts env)
  then show ?case
    using timer_inv_store_enabled [of s ts env] timer_inv_store_disabled [of s ts]
    by (cases "isDisabled env") (simp_all add: sr_Inject_def)
next
  case (level s k)
  then show ?case using timer_inv_advance [of s k] by (simp add: UpdateReadLevel_def)
next
  case (evict s env)
  then show ?case
    using timer_inv_advance [of s] by (simp add: tryTimeEvictIfCacheFull_def tryTimeEvict_def)
next
  case (clear s)
  then show ?case
    by (intro timer_inv_clear) (simp_all add: cr_Clear_def clearLocked_window clear_frame)
next
  case (get s env base req r rep q)
  obtain b q1 where f: "fallbackIfRangeIDChanged sr_hooks env (sys_reader s) = (b, q1)" by force
  show ?case
    using cached_GetTask_cases(1) [OF f get.hyps(2)] timer_inv_fallback [OF get.prems f get.hyps(1)] get.prems by auto
next
  case (look s env base_LookAHead k la q)
  obtain b q1 where f: "fallbackIfRangeIDChanged sr_hooks env (sys_reader s) = (b, q1)" by force
  have "q = sys_reader s \<or> q = q1"
    using look.hyps(2) f by (cases b) (simp_all add: sr_LookAHead_def split: if_splits)
  then show ?case using timer_inv_fallback [OF look.prems f look.hyps(1)] look.prems by auto
qed (auto intro: timer_inv_skip timer_inv_begin timer_inv_read timer_inv_read_error timer_inv_delete timer_inv_end)

lemma timer_reachable_inv: "timer_step\<^sup>*\<^sup>* (timer_start n) s \<Longrightarrow> timer_inv s"
  by (induction rule: rtranclp_induct) (auto intro: timer_inv_start timer_step_inv)

section \<open>Reading in a reachable state\<close>

lemma window_ok_fallback:
  assumes "hist_ok hist" "db \<subseteq> hist" "window_ok hist db {} (exclusiveUpperBound q) q"
    "fallbackIfRangeIDChanged sr_hooks env q = (b, q1)"
  shows "window_ok hist db {} (exclusiveUpperBound q1) q1"
proof -
  consider r where "q1 = q\<lparr>lastRangeID := r\<rparr>" | "q1 = q" | r where "q1 = clearLocked sr_hooks (q\<lparr>lastRangeID := r\<rparr>)"
    using assms(4) by (auto simp: fallbackIfRangeIDChanged_def Let_def split: if_splits)
  then show ?thesis
  proof cases
    case 3
    then show ?thesis
      using window_ok_closed [OF _ _ assms(1,2), of q1] by (simp add: clearLocked_window)
  qed (use assms(3) in \<open>simp_all add: window_ok_def\<close>)
qed

text \<open>A page of the memory queue, whether it is full or not.\<close>

lemma mq_GetTasks_page:
  assumes wf: "mq_wf Q" "\<forall>t \<in> set Q. valid_key (GetTaskKey t)" and n: "0 < n"
    and r: "mq_GetTasks lo hi p n Q = (ts, nxt)"
  shows "set ts = {t \<in> set Q. lo \<le> GetTaskKey t \<and> GetTaskKey t < nxt \<and> Check p t}" "nxt \<le> hi"
proof -
  define M where "M = filter (\<lambda>t. lo \<le> GetTaskKey t \<and> GetTaskKey t < hi \<and> Check p t) Q"
  have pg: "page_of hi (nat n) M = (ts, nxt)" using r mq_GetTasks_eq [OF wf(1) n] by (simp add: M_def)
  have "set ts = {t \<in> set Q. lo \<le> GetTaskKey t \<and> GetTaskKey t < nxt \<and> Check p t} \<and> nxt \<le> hi"
  proof (cases "length M \<le> nat n")
    case True
    then have "ts = M" "nxt = hi" using pg by (simp_all add: page_of_def)
    then show ?thesis by (simp add: M_def)
  next
    case False
    have wfM: "mq_wf M" "\<forall>t \<in> set M. valid_key (GetTaskKey t)" using wf by (simp_all add: M_def)
    note f = page_of_full [OF wfM _ _ pg]
    have f: "nxt \<le> GetTaskKey (M ! nat n)" "set ts = {t \<in> set M. GetTaskKey t < nxt}" using f n False by simp_all
    have "M ! nat n \<in> set M" using False by simp
    then have "GetTaskKey (M ! nat n) < hi" by (simp add: M_def)
    with f(1) have nh: "nxt < hi" by (rule le_less_trans)
    have "set ts = {t \<in> set Q. lo \<le> GetTaskKey t \<and> GetTaskKey t < nxt \<and> Check p t}"
      unfolding f(2) M_def set_filter using less_trans [OF _ nh] by blast
    then show ?thesis using nh by simp
  qed
  then show "set ts = {t \<in> set Q. lo \<le> GetTaskKey t \<and> GetTaskKey t < nxt \<and> Check p t}" "nxt \<le> hi" by blast+
qed

lemma timer_read_complete:
  assumes inv: "timer_inv s" and n: "0 < req_PageSize req"
    and r: "cached_GetTask sr_hooks env base req (sys_reader s) = (Inr r, rep, q')"
    and k: "resolveInclusiveMinTaskKey req = Some k"
  shows "base req = Inr r \<or>
    {t \<in> sys_db s. k \<le> GetTaskKey t \<and> GetTaskKey t < NextTaskKey (resp_Progress r) \<and> Check (req_Predicate req) t}
      \<subseteq> set (resp_Tasks r) \<and>
    set (resp_Tasks r) \<subseteq> {t \<in> sys_hist s. k \<le> GetTaskKey t \<and> GetTaskKey t < NextTaskKey (resp_Progress r) \<and>
      Check (req_Predicate req) t}"
proof (cases "base req = Inr r")
  case ne: False
  obtain b q1 where f: "fallbackIfRangeIDChanged sr_hooks env (sys_reader s) = (b, q1)" by force
  have w: "window_ok (sys_hist s) (sys_db s) {} (exclusiveUpperBound q1) q1"
    using inv by (intro window_ok_fallback [OF _ _ _ f]) (simp_all add: timer_inv_def)
  let ?hi = "ExclusiveMaxTaskKey (req_Progress req)"
  obtain ts nxt where c: "isRangeCovered k ?hi q1" "r = cache_response req ts nxt"
    "mq_GetTasks k ?hi (req_Predicate req) (req_PageSize req) (cr_queue q1) = (ts, nxt)"
    using cached_GetTask_cases(2) [OF f r] ne k by auto
  have v: "\<forall>t \<in> set (cr_queue q1). t \<in> sys_hist s \<and> valid_key (GetTaskKey t)"
    using w inv by (auto simp: window_ok_def timer_inv_def hist_ok_def)
  note pg = mq_GetTasks_page [OF window_ok_wf [OF w] _ n c(3)]
  have cov: "inclusiveLowerBound q1 \<le> k" "?hi \<le> exclusiveUpperBound q1"
    using c(1) by (simp_all add: isRangeCovered_def not_less)
  have pg: "set ts = {t \<in> set (cr_queue q1). k \<le> GetTaskKey t \<and> GetTaskKey t < nxt \<and> Check (req_Predicate req) t}"
    "nxt \<le> exclusiveUpperBound q1"
    using pg v cov(2) by (simp_all add: order_trans [OF _ cov(2)])
  have "t \<in> set (cr_queue q1)" if t: "t \<in> sys_db s" "k \<le> GetTaskKey t" "GetTaskKey t < nxt" for t
  proof -
    have "min (inclusiveLowerBound q1) (exclusiveUpperBound q1) \<le> GetTaskKey t"
      using order_trans [OF cov(1) t(2)] by (simp add: min.coboundedI1)
    then show ?thesis using w t(1) less_le_trans [OF t(3) pg(2)] by (simp add: window_ok_def)
  qed
  then show ?thesis
    using v by (simp add: c(2) cache_response_def pg(1) subset_iff)
qed simp

text \<open>A look-ahead into the window finds the first stored task of it, or that there is none.\<close>

lemma timer_look_complete:
  assumes inv: "timer_inv s" and e: "\<not> isDisabled env" "\<not> isShadow env"
    and cov: "isTaskCovered k (sys_reader s)" and id: "re_rangeID env = lastRangeID (sys_reader s)"
    and r: "sr_LookAHead env base k (sys_reader s) = (Inr la, q')"
  shows "la_LookAheadMaxTime la = scheduledTime (exclusiveUpperBound (sys_reader s)) \<and>
    (case la_Task la of
       None \<Rightarrow> {t \<in> sys_db s. k \<le> GetTaskKey t \<and> GetTaskKey t < exclusiveUpperBound (sys_reader s)} = {}
     | Some u \<Rightarrow> u \<in> sys_hist s \<and> k \<le> GetTaskKey u \<and> GetTaskKey u < exclusiveUpperBound (sys_reader s) \<and>
         {t \<in> sys_db s. k \<le> GetTaskKey t \<and> GetTaskKey t < GetTaskKey u} = {})"
proof -
  let ?q = "sys_reader s"
  let ?u = "exclusiveUpperBound (sys_reader s)"
  have w: "window_ok (sys_hist s) (sys_db s) {} ?u ?q" using inv by (simp add: timer_inv_def)
  define M where "M = filter (\<lambda>t. k \<le> GetTaskKey t) (cr_queue ?q)"
  have la: "la = \<lparr>la_Task = (case M of [] \<Rightarrow> None | t # _ \<Rightarrow> Some t), la_LookAheadMaxTime = scheduledTime ?u\<rparr>"
    using r e cov id mq_LookAHead_eq [OF window_ok_wf [OF w], of k]
    by (auto simp: sr_LookAHead_def fallbackIfRangeIDChanged_def isRangeIDChangedLocked_def M_def)
  have db: "t \<in> set M" if t: "t \<in> sys_db s" "k \<le> GetTaskKey t" "GetTaskKey t < ?u" for t
  proof -
    have "inclusiveLowerBound ?q \<le> k" using cov by (simp add: isTaskCovered_def not_less)
    then have "min (inclusiveLowerBound ?q) ?u \<le> GetTaskKey t"
      using t(2) by (meson min.coboundedI1 order_trans)
    then show ?thesis using w t by (simp add: window_ok_def M_def)
  qed
  show ?thesis
  proof (cases M)
    case Nil
    then show ?thesis using db by (auto simp: la)
  next
    case (Cons u us)
    have u: "u \<in> sys_hist s" "k \<le> GetTaskKey u" "GetTaskKey u < ?u"
    proof -
      have "u \<in> set M" using Cons by simp
      then show "u \<in> sys_hist s" "k \<le> GetTaskKey u" "GetTaskKey u < ?u" using w by (simp_all add: M_def window_ok_def)
    qed
    have "mq_wf M" using window_ok_wf [OF w] by (simp add: M_def)
    then have least: "\<forall>t \<in> set M. \<not> GetTaskKey t < GetTaskKey u" using Cons by (auto dest: less_asym)
    have "\<not> (t \<in> sys_db s \<and> k \<le> GetTaskKey t \<and> GetTaskKey t < GetTaskKey u)" for t
      using db [of t] least less_trans [OF _ u(3)] by blast
    then show ?thesis using u Cons by (simp add: la)
  qed
qed

end
