(* ===== verification/Cache_Gaps.thy ===== *)
theory Cache_Gaps
  imports Scheduled_Cache
begin

text \<open>
  What the guards of the timer cache's steps exclude: a clear during the first prefetch, and a
  first page that fills the cache, each leave a window that claims tasks it does not hold.
\<close>

section \<open>A clear during the first prefetch\<close>

lemma sr_clear_simps [simp]:
  "cr_queue (cr_Clear sr_hooks q) = []"
  "inclusiveLowerBound (cr_Clear sr_hooks q) = MinimumHistoryTaskKey"
  "exclusiveUpperBound (cr_Clear sr_hooks q) = MinimumHistoryTaskKey"
  "pendingInjectBuffer (cr_Clear sr_hooks q) = []"
  "prefetchTargetUpper (cr_Clear sr_hooks q) = MinimumHistoryTaskKey"
  by (simp_all add: cr_Clear_def clearLocked_window clear_frame)
    (simp add: clearLocked_def sr_hooks_def resetPrefetchState_def)

lemma clear_gap:
  fixes q :: scheduled_reader
  assumes e: "\<not> isDisabled env" "\<not> isDisabled env'"
    and b: "prefetch_begin env q = (Some pf, q1)" "exclusiveUpperBound q = MinimumHistoryTaskKey"
    and t: "MinimumHistoryTaskKey < pf_inclusiveMin pf" "pf_inclusiveMin pf \<le> GetTaskKey t"
      "GetTaskKey t < NextTaskKey (resp_Progress r)"
    and r: "resp_Tasks r = []"
    and f: "prefetch_finish env' pf (Ok r) (sr_Inject env [t] (cr_Clear sr_hooks q1)) = (res, q2)"
  shows "res = Ok () \<and> isTaskCovered (GetTaskKey t) q2 \<and> t \<notin> set (cr_queue q2)"
proof -
  let ?c = "cr_Clear sr_hooks q1"
  have pf: "pf_upperBound pf = MinimumHistoryTaskKey"
    using b by (auto simp: prefetch_begin_def Let_def split: if_splits)
  have "MinimumHistoryTaskKey < GetTaskKey t" using t(1,2) by (rule less_le_trans)
  then have "\<not> isTaskCovered (GetTaskKey t) ?c" "\<not> isToBufferTask (GetTaskKey t) ?c"
    by (simp_all add: isTaskCovered_def isToBufferTask_def less_not_sym)
  then have inj: "sr_Inject env [t] ?c = ?c\<lparr>pendingInjectBuffer := []\<rparr>"
    using e by (simp add: sr_Inject_def sr_putTasks_def)
  have "(res, q2) = (Ok (), updateExclusiveUpperBound sr_hooks (NextTaskKey (resp_Progress r))
      (?c\<lparr>pendingInjectBuffer := [], prefetchTargetUpper := MinimumHistoryTaskKey, inclusiveLowerBound := pf_inclusiveMin pf\<rparr>))"
    using f e pf r unfolding inj
    by (simp add: prefetch_finish_def Let_def sr_putTasks_def insertBufferedTasks_def updateInclusiveLowerBound_def)
  then show ?thesis using t(2,3) by (simp add: isTaskCovered_def not_less)
qed

section \<open>A first page that fills the cache\<close>

lemma full_first_page_gap:
  fixes q :: scheduled_reader
  assumes h: "hist_ok hist" and e: "\<not> isDisabled env'"
    and q: "cr_queue q = []" "inclusiveLowerBound q = MinimumHistoryTaskKey" "exclusiveUpperBound q = MinimumHistoryTaskKey"
      "pendingInjectBuffer q = []"
    and b: "prefetch_begin env q = (Some pf, q1)"
    and now: "pf_inclusiveMin pf < NewHistoryTaskKey (re_now env' - TimeEvictionWindow env') 0"
      "MinimumHistoryTaskKey < pf_inclusiveMin pf"
    and r: "reads_page hist (pf_request pf) r" "int (length (resp_Tasks r)) = MaxSize env'" "resp_Tasks r \<noteq> []"
    and t: "t \<in> hist" "GetTaskKey t < pf_inclusiveMin pf"
    and f: "prefetch_finish env' pf (Ok r) q1 = (res, q2)"
  shows "res = Ok () \<and> isTaskCovered (GetTaskKey t) q2 \<and> t \<notin> set (cr_queue q2)"
proof -
  let ?n = "NextTaskKey (resp_Progress r)" and ?ts = "resp_Tasks r"
  let ?k = "NewHistoryTaskKey (re_now env' - TimeEvictionWindow env') 0"
  have q1: "q1 = q\<lparr>prefetchTargetUpper := pf_exclusiveMax pf\<rparr>" and pf: "pf_upperBound pf = MinimumHistoryTaskKey"
    using b q by (auto simp: prefetch_begin_def Let_def split: if_splits)
  have pg: "set ?ts \<subseteq> hist" "\<forall>u \<in> set ?ts. pf_inclusiveMin pf \<le> GetTaskKey u" "pf_inclusiveMin pf \<le> ?n"
    using r(1) by (auto simp: reads_page_def Let_def pf_request_def)
  have k: "MinimumHistoryTaskKey < ?k" using now(2,1) by (rule less_trans)
  define Q where "Q = PutTasks ?ts []"
  have sQ: "set Q = set ?ts" unfolding Q_def
    using set_PutTasks [of "[]" ?ts] h pg(1) by (auto simp: hist_ok_def intro: inj_on_subset)
  have lQ: "int (length Q) \<le> MaxSize env'" using length_PutTasks [of "[]" ?ts] r(2) by (simp add: Q_def)
  have "Q \<noteq> []" "0 < MaxSize env'" using sQ r(3) by (auto simp flip: r(2))
  then have trim: "\<exists>j. RTrimBySize (MaxSize env') Q = (j, False, Q)" using lQ by (auto simp: RTrimBySize_def Let_def)
  define p where "p = q\<lparr>prefetchTargetUpper := MinimumHistoryTaskKey, inclusiveLowerBound := pf_inclusiveMin pf\<rparr>"
  have ev: "tryTimeEvict env' (int (length ?ts)) p = p\<lparr>inclusiveLowerBound := MinimumHistoryTaskKey\<rparr>"
    using r(2) q now(1) k
    by (simp add: tryTimeEvict_def mq_Len_def p_def advanceInclusiveLowerBound_def LTrim_def updateInclusiveLowerBound_def
        Let_def less_not_sym)
  have "sr_putTasks env' ?ts p = (False, p\<lparr>inclusiveLowerBound := MinimumHistoryTaskKey, cr_queue := Q\<rparr>)"
    using r(3) trim q(1) unfolding sr_putTasks_def Let_def ev by (auto simp: p_def Q_def)
  then have "(res, q2) = (Ok (), updateExclusiveUpperBound sr_hooks ?n
      (p\<lparr>inclusiveLowerBound := MinimumHistoryTaskKey, cr_queue := Q\<rparr>))"
    using f e pf q unfolding q1
    by (simp add: prefetch_finish_def Let_def insertBufferedTasks_def updateInclusiveLowerBound_def p_def)
  moreover have "t \<notin> set Q" unfolding sQ using pg(2) t(2) by (auto simp: not_le [symmetric])
  moreover have "MinimumHistoryTaskKey < GetTaskKey t" using h t(1) by (simp add: hist_ok_def)
  moreover have "GetTaskKey t < ?n" using t(2) pg(3) by (rule less_le_trans)
  ultimately show ?thesis by (simp add: isTaskCovered_def less_not_sym)
qed

section \<open>The prefetch timer\<close>

lemma nextPrefetchDelay_between:
  "MinPrefetchInterval env \<le> nextPrefetchDelay env q"
  "nextPrefetchDelay env q \<le> max (MinPrefetchInterval env)
     (scheduledTime (exclusiveUpperBound q) - PrefetchTriggerWindow env - re_now env)"
  by (simp_all add: nextPrefetchDelay_def Let_def)

end
