(* ===== verification/Virtual_Queue_Inv.thy ===== *)
theory Virtual_Queue_Inv
  imports Virtual_Queue
begin

text \<open>
  What the operations of a virtual queue promise.

  \<^item> \<open>slices_ok\<close>: the slices of a queue are ordered, do not overlap, and each keeps the slice
    invariant; merging slices into the queue keeps it and the union of their scopes.
  \<^item> \<open>mon_sync\<close>: the monitor knows the number of pending tasks of every slice of the queue;
    \<open>others\<close> are the counts of the slices of the other queues that share the monitor.
\<close>

section \<open>The slices of a queue\<close>

definition in_scope :: "vslice list \<Rightarrow> ptask \<Rightarrow> bool" where
  "in_scope ss t \<longleftrightarrow> (\<exists>s \<in> set ss. state_Contains (vs_state s) t)"

lemma in_scope_simps [simp]:
  "in_scope [] t \<longleftrightarrow> False"
  "in_scope (s # ss) t \<longleftrightarrow> state_Contains (vs_state s) t \<or> in_scope ss t"
  "in_scope (xs @ ys) t \<longleftrightarrow> in_scope xs t \<or> in_scope ys t"
  by (auto simp: in_scope_def)

definition slices_sorted :: "vslice list \<Rightarrow> bool" where
  "slices_sorted ss \<longleftrightarrow> sorted_wrt (\<lambda>x y. vs_hi x \<le> vs_lo y) ss"

definition slices_ok ::
  "(htask_key \<Rightarrow> bool) \<Rightarrow> (get_task_progress \<Rightarrow> bool) \<Rightarrow> ptask set \<Rightarrow> nat \<Rightarrow> vslice list \<Rightarrow> bool" where
  "slices_ok key_ok pos_ok todo n ss \<longleftrightarrow>
     (\<forall>s \<in> set ss. mergeable key_ok pos_ok todo s \<and> sid s < n) \<and> distinct (map sid ss) \<and>
     slices_sorted ss"

text \<open>The addresses of the slices a merge returns are fresh.\<close>

lemma sid_split: "TrySplitByTaskKey n k s = Some (x, y) \<Longrightarrow> sid x = n \<and> sid y = Suc n"
  by (auto simp: TrySplitByTaskKey_def Let_def split: option.splits prod.splits)

lemma sid_mergeByPredicate [simp]: "sid (mergeVirtualSlicesByPredicate n a b) = n"
  by (simp add: mergeVirtualSlicesByPredicate_def)

lemma sid_mergeByRange [simp]: "sid (mergeVirtualSlicesByRange n a b) = n"
  by (simp add: mergeVirtualSlicesByRange_def Let_def)

lemma merge_sids:
  assumes "TryMergeWithVirtualSlice n a b = Some (out, n')"
  shows "distinct (map sid out)" and "sid ` set out \<subseteq> {n ..< n'}" and "n \<le> n'"
  using assms
  by (auto simp: TryMergeWithVirtualSlice_def mergeVirtualSlicesWithDifferentPredicate_def Let_def
      split: if_splits option.splits prod.splits dest!: sid_split)

section \<open>Merging slices into a queue\<close>

text \<open>
  The invariant of the merge loops: \<open>acc\<close> is merged, \<open>L\<close> and \<open>R\<close> are still to be merged.
  Only the last merged slice may still overlap with them, and only with one of the two lists.
\<close>

definition behind :: "htask_key \<Rightarrow> vslice list \<Rightarrow> bool" where
  "behind k ss \<longleftrightarrow> (\<forall>s \<in> set ss. k \<le> vs_lo s)"

lemma behind_simps [simp]:
  "behind k []" "behind k (s # ss) \<longleftrightarrow> k \<le> vs_lo s \<and> behind k ss"
  by (auto simp: behind_def)

lemma behind_mono: "behind k ss \<Longrightarrow> j \<le> k \<Longrightarrow> behind j ss"
  by (force simp: behind_def)

definition merging ::
  "(htask_key \<Rightarrow> bool) \<Rightarrow> (get_task_progress \<Rightarrow> bool) \<Rightarrow> ptask set \<Rightarrow> nat \<Rightarrow>
   vslice list \<Rightarrow> vslice list \<Rightarrow> vslice list \<Rightarrow> bool" where
  "merging key_ok pos_ok todo n acc L R \<longleftrightarrow>
     slices_ok key_ok pos_ok todo n acc \<and> slices_ok key_ok pos_ok todo n L \<and>
     slices_ok key_ok pos_ok todo n R \<and> distinct (map sid (acc @ L @ R)) \<and>
     (\<forall>x \<in> set (butlast acc). behind (vs_hi x) L \<and> behind (vs_hi x) R) \<and>
     (acc \<noteq> [] \<longrightarrow> behind (vs_lo (last acc)) L \<and> behind (vs_lo (last acc)) R \<and>
        (behind (vs_hi (last acc)) L \<or> behind (vs_hi (last acc)) R))"

lemma merging_sym: "merging key_ok pos_ok todo n acc L R \<longleftrightarrow> merging key_ok pos_ok todo n acc R L"
  unfolding merging_def by (auto simp: Int_commute)

lemma slices_sorted_behind:
  "slices_sorted (s # ss) \<longleftrightarrow> behind (vs_hi s) ss \<and> slices_sorted ss"
  by (simp add: slices_sorted_def behind_def)

lemma slices_sorted_append:
  "slices_sorted (xs @ ys) \<longleftrightarrow> slices_sorted xs \<and> slices_sorted ys \<and> (\<forall>x \<in> set xs. behind (vs_hi x) ys)"
  by (auto simp: slices_sorted_def sorted_wrt_append behind_def)

lemma slices_ok_Nil [simp]: "slices_ok key_ok pos_ok todo n []"
  by (simp add: slices_ok_def slices_sorted_def)

lemma slices_ok_Cons:
  "slices_ok key_ok pos_ok todo n (s # ss) \<longleftrightarrow>
     mergeable key_ok pos_ok todo s \<and> sid s < n \<and> sid s \<notin> sid ` set ss \<and> behind (vs_hi s) ss \<and>
     slices_ok key_ok pos_ok todo n ss"
  by (auto simp: slices_ok_def slices_sorted_behind)

lemma slices_ok_append:
  "slices_ok key_ok pos_ok todo n (xs @ ys) \<longleftrightarrow>
     slices_ok key_ok pos_ok todo n xs \<and> slices_ok key_ok pos_ok todo n ys \<and>
     sid ` set xs \<inter> sid ` set ys = {} \<and> (\<forall>x \<in> set xs. behind (vs_hi x) ys)"
  by (auto simp: slices_ok_def slices_sorted_append)

lemma slices_ok_mono: "slices_ok key_ok pos_ok todo n ss \<Longrightarrow> n \<le> n' \<Longrightarrow> slices_ok key_ok pos_ok todo n' ss"
  by (auto simp: slices_ok_def)

text \<open>The slices are sorted by their first keys as well.\<close>

lemma behind_lo:
  "mergeable key_ok pos_ok todo s \<Longrightarrow> behind (vs_hi s) ss \<Longrightarrow> behind (vs_lo s) ss"
  by (erule behind_mono) (simp add: less_imp_le mergeable_nonempty)

lemma merged_slices_ok:
  assumes m: "merged_ok key_ok pos_ok todo a b out"
    and r: "TryMergeWithVirtualSlice n a b = Some (out, n')"
  shows "slices_ok key_ok pos_ok todo n' out"
  using m merge_sids [OF r] by (auto simp: slices_ok_def slices_sorted_def merged_ok_def)

lemma merging_append:
  assumes M: "merging key_ok pos_ok todo n acc (c # L) R"
    and c: "behind (vs_lo c) R"
    and fin: "acc \<noteq> [] \<Longrightarrow> vs_hi (last acc) \<le> vs_lo c"
  shows "merging key_ok pos_ok todo n (acc @ [c]) L R"
proof -
  have mc: "mergeable key_ok pos_ok todo c" and bc: "behind (vs_hi c) L"
    using M by (auto simp: merging_def slices_ok_Cons)
  have all: "vs_hi x \<le> vs_lo c" if "x \<in> set acc" for x
  proof -
    from that have "x \<in> set (butlast acc) \<or> x = last acc \<and> acc \<noteq> []"
      by (cases acc rule: rev_cases) auto
    then show ?thesis using M fin by (auto simp: merging_def)
  qed
  have ok: "slices_ok key_ok pos_ok todo n (acc @ [c])"
    using M all by (auto simp: merging_def slices_ok_append slices_ok_Cons)
  have "behind (vs_hi x) L \<and> behind (vs_hi x) R" if "x \<in> set acc" for x
    using all [OF that] behind_mono [OF c] behind_mono [OF behind_lo [OF mc bc]] by blast
  then show ?thesis
    using M ok bc c behind_lo [OF mc bc] by (auto simp: merging_def slices_ok_Cons)
qed

lemma merging_merge:
  assumes rk: "reader_keys key_ok pos_ok"
    and M: "merging key_ok pos_ok todo n (acc @ [a]) (c # L) R"
    and c: "behind (vs_lo c) R"
    and r: "TryMergeWithVirtualSlice n a c = Some (out, n')"
  shows "merging key_ok pos_ok todo n' (acc @ out) L R"
proof -
  have ma: "mergeable key_ok pos_ok todo a" and mc: "mergeable key_ok pos_ok todo c"
    and bc: "behind (vs_hi c) L" and lo: "vs_lo a \<le> vs_lo c"
    and bl: "behind (vs_hi a) (c # L) \<or> behind (vs_hi a) R"
    and al: "behind (vs_lo a) L" "behind (vs_lo a) R"
    and acc: "\<forall>x \<in> set acc. behind (vs_hi x) (c # L) \<and> behind (vs_hi x) R \<and> vs_hi x \<le> vs_lo a"
    using M by (auto simp: merging_def slices_ok_Cons slices_ok_append)
  note mo = TryMerge_ok [OF rk ma mc r] and sids = merge_sids [OF r]
  have ok: "slices_ok key_ok pos_ok todo n' out" by (rule merged_slices_ok [OF mo r])
  have hd: "vs_lo (hd out) = vs_lo a" "out \<noteq> []" and lst: "vs_hi (last out) = max (vs_hi a) (vs_hi c)"
    and cut: "\<forall>x \<in> set (butlast out). vs_hi x \<le> min (vs_hi a) (vs_hi c)"
      "vs_lo (last out) \<le> min (vs_hi a) (vs_hi c) \<or> vs_lo (last out) = vs_lo a"
    using mo lo by (auto simp: merged_ok_def min_absorb1)
  have m1: "behind (min (vs_hi a) (vs_hi c)) L"
    by (rule behind_mono [OF bc]) simp
  have m2: "behind (min (vs_hi a) (vs_hi c)) R"
    using bl by (auto intro: behind_mono [OF c] behind_mono [of "vs_hi a"] simp: min_le_iff_disj)
  have front: "vs_lo a \<le> vs_lo x" if "x \<in> set out" for x
  proof (cases "x = hd out")
    case False
    then have "vs_hi (hd out) \<le> vs_lo x" "mergeable key_ok pos_ok todo (hd out)"
      using ok that hd(2) by (cases out; auto simp: slices_ok_Cons behind_def)+
    then show ?thesis using hd(1) mergeable_nonempty [of key_ok pos_ok todo "hd out"] by simp
  qed (use hd in simp)
  have old: "sid ` set L \<union> sid ` set R \<subseteq> {..<n}" "sid ` set acc \<inter> (sid ` set L \<union> sid ` set R) = {}"
    "distinct (map sid (L @ R))" "sid ` set acc \<subseteq> {..<n}"
    using M by (auto simp: merging_def slices_ok_def)
  have "sid ` set out \<inter> {..<n} = {}" using sids(2) by auto
  then have fresh: "sid ` set out \<inter> (sid ` set L \<union> sid ` set R) = {}" "sid ` set acc \<inter> sid ` set out = {}"
    using old(1,4) by blast+
  have oa: "slices_ok key_ok pos_ok todo n' acc" "slices_ok key_ok pos_ok todo n' L"
      "slices_ok key_ok pos_ok todo n' R"
    using M slices_ok_mono [OF _ sids(3)] by (auto simp: merging_def slices_ok_append slices_ok_Cons)
  have "behind (vs_hi x) out" if "x \<in> set acc" for x
    using acc that front by (force simp: behind_def)
  then have ok': "slices_ok key_ok pos_ok todo n' (acc @ out)"
    using ok fresh(2) oa by (simp add: slices_ok_append)
  have dist: "distinct (map sid ((acc @ out) @ L @ R))"
    using old fresh ok' by (simp add: slices_ok_def Int_Un_distrib)
  have "behind (max (vs_hi a) (vs_hi c)) L \<or> behind (max (vs_hi a) (vs_hi c)) R"
    using bl bc by (auto simp: max_def)
  moreover have "behind (vs_lo (last out)) L \<and> behind (vs_lo (last out)) R"
    using cut(2)
  proof
    assume "vs_lo (last out) \<le> min (vs_hi a) (vs_hi c)"
    then show ?thesis using behind_mono [OF m1] behind_mono [OF m2] by blast
  qed (simp add: al)
  moreover have "behind (vs_hi x) L \<and> behind (vs_hi x) R" if "x \<in> set (butlast (acc @ out))" for x
  proof (cases "x \<in> set acc")
    case False
    then have "vs_hi x \<le> min (vs_hi a) (vs_hi c)"
      using that cut(1) hd(2) by (auto simp: butlast_append)
    then show ?thesis using behind_mono [OF m1] behind_mono [OF m2] by blast
  qed (use acc in simp)
  ultimately show ?thesis
    using ok' dist lst hd(2) oa by (simp add: merging_def)
qed

lemma appendOrMerge_merging:
  assumes rk: "reader_keys key_ok pos_ok"
    and M: "merging key_ok pos_ok todo n acc (c # L) R" and c: "behind (vs_lo c) R"
    and r: "appendOrMergeSlice n acc c m = (acc', m', n')"
  shows "merging key_ok pos_ok todo n' acc' L R"
    and "in_scope acc' t \<longleftrightarrow> in_scope acc t \<or> state_Contains (vs_state c) t"
proof -
  have "merging key_ok pos_ok todo n' acc' L R \<and>
      (in_scope acc' t \<longleftrightarrow> in_scope acc t \<or> state_Contains (vs_state c) t)"
  proof (cases acc rule: rev_cases)
    case Nil
    then show ?thesis using merging_append [OF M c] r by (auto simp: appendOrMergeSlice_def)
  next
    case (snoc ys a)
    have ma: "mergeable key_ok pos_ok todo a" and mc: "mergeable key_ok pos_ok todo c"
      and ne: "sid a \<noteq> sid c" and lo: "vs_lo a \<le> vs_lo c"
      using M snoc by (auto simp: merging_def slices_ok_append slices_ok_Cons)
    show ?thesis
    proof (cases "TryMergeWithVirtualSlice n a c")
      case None
      have "\<not> vs_hi c \<le> vs_lo a" using mergeable_nonempty [OF mc] lo by simp
      then have "vs_hi a \<le> vs_lo c" using TryMerge_None [OF None ne] by blast
      then show ?thesis
        using merging_append [OF M c] r snoc None by (auto simp: appendOrMergeSlice_def)
    next
      case (Some p)
      then obtain out k where sp: "TryMergeWithVirtualSlice n a c = Some (out, k)" by (cases p) auto
      have eq: "acc' = ys @ out" "n' = k" using r snoc sp by (auto simp: appendOrMergeSlice_def)
      have "in_scope out t \<longleftrightarrow> state_Contains (vs_state a) t \<or> state_Contains (vs_state c) t"
        using TryMerge_ok [OF rk ma mc sp] by (simp add: merged_ok_def in_scope_def)
      then show ?thesis
        using merging_merge [OF rk M [unfolded snoc] c sp] eq snoc by auto
    qed
  qed
  then show "merging key_ok pos_ok todo n' acc' L R"
    and "in_scope acc' t \<longleftrightarrow> in_scope acc t \<or> state_Contains (vs_state c) t" by simp_all
qed

lemma behind_head: "slices_ok key_ok pos_ok todo n (c # L) \<Longrightarrow> j \<le> vs_lo c \<Longrightarrow> behind j (c # L)"
  using behind_lo [of key_ok pos_ok todo c L] behind_mono [of "vs_lo c" L j]
  by (auto simp: slices_ok_Cons)

lemma merge_slices_loop_ok:
  assumes rk: "reader_keys key_ok pos_ok"
    and M: "merging key_ok pos_ok todo n acc cs is"
    and r: "merge_slices_loop cs is (acc, m, n) = (acc', m', n')"
  shows "slices_ok key_ok pos_ok todo n' acc' \<and>
    (in_scope acc' t \<longleftrightarrow> in_scope acc t \<or> in_scope cs t \<or> in_scope is t)"
  using M r
proof (induction cs "is" "(acc, m, n)" arbitrary: acc m n rule: merge_slices_loop.induct)
  case (1 c cs i "is" acc m n)
  have oc: "slices_ok key_ok pos_ok todo n (c # cs)" and oi: "slices_ok key_ok pos_ok todo n (i # is)"
    using 1(3) by (simp_all add: merging_def)
  show ?case
  proof (cases "vs_lo c < vs_lo i")
    case True
    obtain a2 m2 n2 where a: "appendOrMergeSlice n acc c m = (a2, m2, n2)" by (metis prod_cases3)
    have b: "behind (vs_lo c) (i # is)" using behind_head [OF oi] True by simp
    note st = appendOrMerge_merging [OF rk 1(3) b a]
    show ?thesis using 1(1) [of a2 m2 n2] st 1(4) True a by (auto simp: Compare_simps)
  next
    case False
    obtain a2 m2 n2 where a: "appendOrMergeSlice n acc i m = (a2, m2, n2)" by (metis prod_cases3)
    have b: "behind (vs_lo i) (c # cs)" using behind_head [OF oc] False by simp
    note st = appendOrMerge_merging [OF rk 1(3) [unfolded merging_sym [of _ _ _ _ _ "c # cs"]] b a]
    show ?thesis using 1(2) [of a2 m2 n2] st 1(4) False a
      by (auto simp: Compare_simps merging_sym [of _ _ _ _ _ "c # cs"])
  qed
next
  case (2 c cs acc m n)
  obtain a2 m2 n2 where a: "appendOrMergeSlice n acc c m = (a2, m2, n2)" by (metis prod_cases3)
  note st = appendOrMerge_merging [OF rk 2(2) _ a]
  show ?case using 2(1) [of a2 m2 n2] st 2(3) a by auto
next
  case (3 i "is" acc m n)
  obtain a2 m2 n2 where a: "appendOrMergeSlice n acc i m = (a2, m2, n2)" by (metis prod_cases3)
  note st = appendOrMerge_merging [OF rk 3(2) [unfolded merging_sym [of _ _ _ _ _ "[]"]] _ a]
  show ?case using 3(1) [of a2 m2 n2] st 3(3) a by (auto simp: merging_sym [of _ _ _ _ _ "[]"])
next
  case 4
  then show ?case by (simp add: merging_def)
qed

lemma virtualSlices_reset [simp]: "virtualSlices (resetNextReadSliceLocked q) = virtualSlices q"
  by (simp add: resetNextReadSliceLocked_def Let_def vq_notify_def)

lemma MergeSlices_ok:
  assumes rk: "reader_keys key_ok pos_ok"
    and q: "slices_ok key_ok pos_ok todo n (virtualSlices q)" "slices_ok key_ok pos_ok todo n ss"
    and d: "sid ` set (virtualSlices q) \<inter> sid ` set ss = {}"
    and r: "MergeSlices n ss q m = (q', m', n')"
  shows "slices_ok key_ok pos_ok todo n' (virtualSlices q')"
    and "in_scope (virtualSlices q') t \<longleftrightarrow> in_scope (virtualSlices q) t \<or> in_scope ss t"
proof -
  have M: "merging key_ok pos_ok todo n [] (virtualSlices q) ss"
    using q d by (simp add: merging_def slices_ok_def [of _ _ _ _ ss] slices_ok_def [of _ _ _ _ "virtualSlices q"])
  obtain acc m2 n2 where l: "merge_slices_loop (virtualSlices q) ss ([], m, n) = (acc, m2, n2)"
    by (metis prod_cases3)
  have "slices_ok key_ok pos_ok todo n' (virtualSlices q') \<and>
      (in_scope (virtualSlices q') t \<longleftrightarrow> in_scope (virtualSlices q) t \<or> in_scope ss t)"
    using merge_slices_loop_ok [OF rk M l, of t] r l q by (auto simp: MergeSlices_def split: if_splits)
  then show "slices_ok key_ok pos_ok todo n' (virtualSlices q')"
    and "in_scope (virtualSlices q') t \<longleftrightarrow> in_scope (virtualSlices q) t \<or> in_scope ss t"
    by simp_all
qed

end
