(* ===== verification/Virtual_Queue_Ops.thy ===== *)
theory Virtual_Queue_Ops
  imports Virtual_Queue_Inv
begin

text \<open>
  The state update of a virtual queue, the agreement of the monitor with the slices, and the
  loading of tasks, also from a slice that an update has removed.
\<close>

section \<open>Updating the state\<close>

lemma sid_UpdateAndGetState [simp]: "sid (fst (UpdateAndGetState s)) = sid s"
  by (simp add: UpdateAndGetState_def set_InclusiveMin_def Let_def split: prod.splits)

lemma snd_UpdateAndGetState: "snd (UpdateAndGetState s) = vs_state (fst (UpdateAndGetState s))"
  by (simp add: UpdateAndGetState_def Let_def)

lemma update_slices_eq:
  assumes "update_slices ss e m = (ss', states, e', m')"
  shows "ss' = filter (\<lambda>s. \<not> vs_IsEmpty s) (map (\<lambda>s. fst (UpdateAndGetState s)) ss)"
    and "states = map vs_state ss'"
proof -
  have "ss' = filter (\<lambda>s. \<not> vs_IsEmpty s) (map (\<lambda>s. fst (UpdateAndGetState s)) ss) \<and>
      states = map vs_state ss'"
    using assms
  proof (induction ss arbitrary: e m ss' states)
    case (Cons s ss)
    obtain xs st e2 m2 where r: "update_slices ss e (track_slice (fst (UpdateAndGetState s)) m) = (xs, st, e2, m2)"
      by (metis prod_cases4)
    show ?case
      using Cons.prems Cons.IH r snd_UpdateAndGetState [of s]
      by (auto simp: case_prod_unfold Let_def split: if_splits)
  qed simp
  then show "ss' = filter (\<lambda>s. \<not> vs_IsEmpty s) (map (\<lambda>s. fst (UpdateAndGetState s)) ss)"
    and "states = map vs_state ss'" by simp_all
qed

lemma empty_contains_nothing:
  "vs_IsEmpty s \<Longrightarrow> vs_lo s \<le> vs_hi s \<Longrightarrow> \<not> state_Contains (vs_state s) t"
  by (auto simp: vs_IsEmpty_def state_IsEmpty_def state_Contains_iff range_IsEmpty_def pred_IsEmpty_iff)

lemma update_keeps_scope:
  assumes rk: "reader_keys key_ok pos_ok" and inv: "\<forall>s \<in> set ss. slice_inv key_ok pos_ok todo s"
    and r: "update_slices ss e m = (ss', states, e', m')"
  shows "\<forall>s \<in> set ss'. slice_inv key_ok pos_ok todo s \<and> \<not> vs_IsEmpty s"
    and "t \<in> todo \<Longrightarrow> in_scope ss t \<Longrightarrow> in_scope ss' t"
proof -
  note eq = update_slices_eq(1) [OF r]
  have up: "slice_inv key_ok pos_ok todo (fst (UpdateAndGetState s))" if "s \<in> set ss" for s
    using inv that rk by (intro slice_inv_UpdateAndGetState) auto
  then show "\<forall>s \<in> set ss'. slice_inv key_ok pos_ok todo s \<and> \<not> vs_IsEmpty s"
    by (auto simp: eq)
  show "in_scope ss' t" if t: "t \<in> todo" "in_scope ss t"
  proof -
    obtain s where s: "s \<in> set ss" "state_Contains (vs_state s) t" using t by (auto simp: in_scope_def)
    let ?s = "fst (UpdateAndGetState s)"
    have c: "state_Contains (vs_state ?s) t"
      using UpdateAndGetState_scope [OF _ rk t(1) s(2)] inv s(1) snd_UpdateAndGetState [of s] by auto
    then have "\<not> vs_IsEmpty ?s"
      using empty_contains_nothing [of ?s t] up [OF s(1)] by (auto simp: slice_inv_def slice_shape_def)
    then show ?thesis using c s(1) by (auto simp: eq in_scope_def)
  qed
qed

section \<open>The monitor and the slices\<close>

definition mon_cnt :: "monitor \<Rightarrow> nat \<Rightarrow> int" where
  "mon_cnt m i = (case mon_counts m i of None \<Rightarrow> 0 | Some c \<Rightarrow> c)"

lemma mon_cnt_ops [simp]:
  "mon_cnt (track_slice s m) = (mon_cnt m)(sid s := vs_GetPendingTaskCount s)"
  "mon_cnt (RemoveSlice s m) = (mon_cnt m)(sid s := 0)"
  by (auto simp: mon_cnt_def)

definition mon_sync :: "(nat \<Rightarrow> int) \<Rightarrow> vslice list \<Rightarrow> monitor \<Rightarrow> bool" where
  "mon_sync others ss m \<longleftrightarrow> monitor_wf m \<and>
     (\<forall>s \<in> set ss. mon_cnt m (sid s) = vs_GetPendingTaskCount s) \<and>
     (\<forall>i. i \<notin> sid ` set ss \<longrightarrow> mon_cnt m i = others i)"

text \<open>If no other queue has tasks, the total is the number of the pending tasks of the slices.\<close>

lemma mon_sync_total:
  assumes "mon_sync (\<lambda>_. 0) ss m" "distinct (map sid ss)"
  shows "GetTotalPendingTaskCount m = sum_list (map vs_GetPendingTaskCount ss)"
proof -
  let ?d = "dom (mon_counts m)"
  have wf: "monitor_wf m" and c: "\<And>s. s \<in> set ss \<Longrightarrow> mon_cnt m (sid s) = vs_GetPendingTaskCount s"
    and z: "\<And>i. i \<notin> sid ` set ss \<Longrightarrow> mon_cnt m i = 0"
    using assms(1) by (auto simp: mon_sync_def)
  have fin: "finite ?d" by (simp add: mon_counts_def finite_dom_map_of)
  have "totalPendingTaskCount m = (\<Sum>i \<in> ?d. mon_cnt m i)"
    unfolding monitor_wf_total [OF wf] by (rule sum.cong) (auto simp: mon_cnt_def)
  also have "\<dots> = (\<Sum>i \<in> ?d \<union> sid ` set ss. mon_cnt m i)"
    by (rule sum.mono_neutral_left) (auto simp: fin mon_cnt_def split: option.splits)
  also have "\<dots> = (\<Sum>i \<in> sid ` set ss. mon_cnt m i)"
    by (rule sum.mono_neutral_right) (auto simp: fin z)
  also have "\<dots> = sum_list (map (mon_cnt m) (map sid ss))"
    using sum_list_distinct_conv_sum_set [OF assms(2), of "mon_cnt m"] by simp
  also have "\<dots> = sum_list (map vs_GetPendingTaskCount ss)"
    using c by (simp add: comp_def cong: map_cong)
  finally show ?thesis by (simp add: GetTotalPendingTaskCount_def)
qed

text \<open>Updating the state makes the monitor exact, whatever it held for the slices before.\<close>

lemma update_counts:
  assumes "update_slices ss e m = (ss', states, e', m')" "distinct (map sid ss)" "monitor_wf m"
  shows "monitor_wf m' \<and> distinct (map sid ss') \<and> sid ` set ss' \<subseteq> sid ` set ss \<and>
    (\<forall>s \<in> set ss'. mon_cnt m' (sid s) = vs_GetPendingTaskCount s) \<and>
    (\<forall>i. i \<in> sid ` set ss \<longrightarrow> i \<notin> sid ` set ss' \<longrightarrow> mon_cnt m' i = 0) \<and>
    (\<forall>i. i \<notin> sid ` set ss \<longrightarrow> mon_cnt m' i = mon_cnt m i)"
  using assms
proof (induction ss arbitrary: e m ss' states e' m')
  case (Cons s ss)
  let ?s = "fst (UpdateAndGetState s)"
  show ?case
  proof (cases "vs_IsEmpty ?s")
    case True
    then have r: "update_slices ss (unlink ?s e) (RemoveSlice ?s m) = (ss', states, e', m')"
      using Cons.prems(1) by (simp add: case_prod_unfold Let_def)
    have "monitor_wf (RemoveSlice ?s m)" using Cons.prems(3) by (rule monitor_wf_RemoveSlice)
    then have "?thesis \<longleftrightarrow> True"
      using Cons.IH [OF r] Cons.prems(2) by auto
    then show ?thesis by blast
  next
    case False
    obtain xs st e2 m2 where r: "update_slices ss e (track_slice ?s m) = (xs, st, e2, m2)"
      by (metis prod_cases4)
    have eq: "ss' = ?s # xs" "m' = m2"
      using Cons.prems(1) r False by (auto simp: case_prod_unfold Let_def)
    have "monitor_wf (track_slice ?s m)" using Cons.prems(3) by (rule monitor_wf_track)
    then show ?thesis
      using Cons.IH [OF r] Cons.prems(2) unfolding eq by auto
  qed
qed simp

lemma update_mon_sync:
  assumes r: "update_slices ss e m = (ss', states, e', m')" and d: "distinct (map sid ss)"
    and m: "monitor_wf m" "\<forall>i. i \<notin> sid ` set ss \<longrightarrow> mon_cnt m i = others i"
      "\<forall>s \<in> set ss. others (sid s) = 0"
  shows "mon_sync others ss' m'" "distinct (map sid ss')"
proof -
  note u = update_counts [OF r d m(1)]
  have "mon_cnt m' i = others i" if "i \<notin> sid ` set ss'" for i
    using u m(2,3) that by (cases "i \<in> sid ` set ss") auto
  then show "mon_sync others ss' m'" "distinct (map sid ss')"
    using u by (auto simp: mon_sync_def)
qed

lemma fold_track:
  assumes "distinct (map sid out)" "monitor_wf m"
  shows "monitor_wf (fold track_slice out m) \<and>
    (\<forall>s \<in> set out. mon_cnt (fold track_slice out m) (sid s) = vs_GetPendingTaskCount s) \<and>
    (\<forall>i. i \<notin> sid ` set out \<longrightarrow> mon_cnt (fold track_slice out m) i = mon_cnt m i)"
  using assms
proof (induction out arbitrary: m)
  case (Cons s out)
  have "monitor_wf (track_slice s m)" using Cons.prems(2) by (rule monitor_wf_track)
  then show ?case using Cons.IH [of "track_slice s m"] Cons.prems(1) by auto
qed simp

text \<open>
  Merging a slice in: \<open>rest\<close> are the slices of the queue that are still to be merged, about
  which the monitor may say anything; the other queues have nothing at the addresses of the
  slices of this queue and at the free addresses.
\<close>

definition merge_sync :: "(nat \<Rightarrow> int) \<Rightarrow> nat \<Rightarrow> vslice list \<Rightarrow> vslice list \<Rightarrow> monitor \<Rightarrow> bool" where
  "merge_sync others n acc rest m \<longleftrightarrow> monitor_wf m \<and> distinct (map sid (acc @ rest)) \<and>
     (\<forall>s \<in> set (acc @ rest). sid s < n \<and> others (sid s) = 0) \<and> (\<forall>i \<ge> n. others i = 0) \<and>
     (\<forall>s \<in> set acc. mon_cnt m (sid s) = vs_GetPendingTaskCount s) \<and>
     (\<forall>i. i \<notin> sid ` set (acc @ rest) \<longrightarrow> mon_cnt m i = others i)"

lemma merge_sync_cong:
  "mset rest = mset rest' \<Longrightarrow> merge_sync others n acc rest m \<longleftrightarrow> merge_sync others n acc rest' m"
proof -
  assume a: "mset rest = mset rest'"
  then have "set rest = set rest'" by (rule mset_eq_setD)
  moreover have "mset (map sid rest) = mset (map sid rest')" using a by simp
  then have "distinct (map sid rest) = distinct (map sid rest')" by (rule mset_eq_imp_distinct_iff)
  ultimately show ?thesis by (simp add: merge_sync_def)
qed

lemma appendOrMerge_sync:
  assumes S: "merge_sync others n acc (c # rest) m"
    and r: "appendOrMergeSlice n acc c m = (acc', m', n')"
  shows "merge_sync others n' acc' rest m'"
proof (cases "acc' = acc @ [c] \<and> m' = track_slice c m \<and> n' = n")
  case True
  have "sid c \<notin> sid ` set acc" using S by (simp add: merge_sync_def)
  then have "\<forall>s \<in> set acc. sid s \<noteq> sid c" by (simp add: image_iff eq_commute)
  moreover have "monitor_wf (track_slice c m)" using S by (simp add: merge_sync_def monitor_wf_track)
  ultimately show ?thesis using S True by (simp add: merge_sync_def)
next
  case False
  then have "acc \<noteq> []" using r by (auto simp: appendOrMergeSlice_def)
  then obtain ys a where acc: "acc = ys @ [a]" by (cases acc rule: rev_cases) auto
  obtain out where out: "TryMergeWithVirtualSlice n a c = Some (out, n')" "acc' = ys @ out"
    "m' = fold track_slice out (RemoveSlice c (RemoveSlice a m))"
    using r acc False by (auto simp: appendOrMergeSlice_def split: option.splits)
  note sids = merge_sids [OF out(1)]
  have wf: "monitor_wf (RemoveSlice c (RemoveSlice a m))"
    using S by (simp add: merge_sync_def monitor_wf_RemoveSlice)
  note f = fold_track [OF sids(1) wf, folded out(3)]
  have old: "\<forall>s \<in> set (ys @ a # c # rest). sid s < n \<and> others (sid s) = 0"
    "distinct (map sid (ys @ a # c # rest))"
    using S by (simp_all add: merge_sync_def acc ball_Un)
  have new: "n \<le> sid s \<and> sid s < n'" if "s \<in> set out" for s using sids(2) that by auto
  have d: "distinct (map sid (acc' @ rest))"
  proof -
    have "sid ` set (ys @ rest) \<subseteq> {..<n}" using old(1) by auto
    moreover have "{n ..< n'} \<inter> {..<n} = {}" by auto
    ultimately have "sid ` set out \<inter> sid ` set (ys @ rest) = {}" using sids(2) by blast
    then show ?thesis using old(2) sids(1) unfolding out(2) by auto
  qed
  have lt: "\<forall>s \<in> set (acc' @ rest). sid s < n' \<and> others (sid s) = 0"
  proof
    fix s assume "s \<in> set (acc' @ rest)"
    then consider "s \<in> set out" | "s \<in> set (ys @ rest)" unfolding out(2) by auto
    then show "sid s < n' \<and> others (sid s) = 0"
    proof cases
      case 1
      then show ?thesis using new S by (simp add: merge_sync_def)
    next
      case 2
      then have "sid s < n \<and> others (sid s) = 0" using old(1) by simp
      then show ?thesis using sids(3) by simp
    qed
  qed
  have yc: "mon_cnt m' (sid s) = vs_GetPendingTaskCount s" if "s \<in> set ys" for s
  proof -
    have "sid s \<notin> sid ` set out"
    proof
      assume "sid s \<in> sid ` set out"
      moreover have "sid s < n" using old(1) that by simp
      ultimately show False using sids(2) by auto
    qed
    moreover have "sid ` set ys \<inter> {sid a, sid c} = {}" using old(2) by auto
    then have "sid s \<noteq> sid a" "sid s \<noteq> sid c" using imageI [OF that, of sid] by blast+
    ultimately show ?thesis using f S that by (simp add: merge_sync_def acc)
  qed
  have oc: "mon_cnt m' i = others i" if "i \<notin> sid ` set (acc' @ rest)" for i
  proof -
    have "i \<notin> sid ` set out" "i \<notin> sid ` set ys" "i \<notin> sid ` set rest" using that out(2) by auto
    moreover have "others (sid a) = 0" "others (sid c) = 0" using old(1) by simp_all
    ultimately show ?thesis using f S by (auto simp: merge_sync_def acc)
  qed
  have "\<forall>s \<in> set acc'. mon_cnt m' (sid s) = vs_GetPendingTaskCount s"
    using yc f unfolding out(2) by auto
  then show ?thesis
    using f d lt oc S sids(3) by (simp add: merge_sync_def)
qed

lemma merge_slices_loop_sync:
  assumes "merge_sync others n acc (cs @ is) m"
    and "merge_slices_loop cs is (acc, m, n) = (acc', m', n')"
  shows "merge_sync others n' acc' [] m'"
  using assms
proof (induction cs "is" "(acc, m, n)" arbitrary: acc m n rule: merge_slices_loop.induct)
  case (1 c cs i "is" acc m n)
  obtain a2 m2 n2 where a: "appendOrMergeSlice n acc c m = (a2, m2, n2)" by (metis prod_cases3)
  obtain a3 m3 n3 where b: "appendOrMergeSlice n acc i m = (a3, m3, n3)" by (metis prod_cases3)
  have "merge_sync others n acc (i # (c # cs) @ is) m"
    using 1(3) by (subst merge_sync_cong [where rest' = "(c # cs) @ i # is"]) auto
  then have "merge_sync others n3 a3 ((c # cs) @ is) m3" using b by (rule appendOrMerge_sync)
  moreover have "merge_sync others n2 a2 (cs @ i # is) m2"
    by (rule appendOrMerge_sync [OF 1(3) [unfolded append_Cons] a])
  ultimately show ?case
    using 1(1) [of a2 m2 n2] 1(2) [of a3 m3 n3] 1(4) a b by (cases "Compare (vs_lo c) (vs_lo i) < 0") simp_all
next
  case (2 c cs acc m n)
  obtain a2 m2 n2 where a: "appendOrMergeSlice n acc c m = (a2, m2, n2)" by (metis prod_cases3)
  have "merge_sync others n2 a2 (cs @ []) m2"
    by (rule appendOrMerge_sync [OF 2(2) [unfolded append_Cons] a])
  then show ?case using 2(1) [of a2 m2 n2] 2(3) a by simp
next
  case (3 i "is" acc m n)
  obtain a2 m2 n2 where a: "appendOrMergeSlice n acc i m = (a2, m2, n2)" by (metis prod_cases3)
  have "merge_sync others n2 a2 ([] @ is) m2"
    using appendOrMerge_sync [OF 3(2) [unfolded append_Nil] a] by simp
  then show ?case using 3(1) [of a2 m2 n2] 3(3) a by simp
qed simp

lemma MergeSlices_sync:
  assumes "merge_sync others n [] (virtualSlices q @ ss) m" "ss \<noteq> []"
    and "MergeSlices n ss q m = (q', m', n')"
  shows "mon_sync others (virtualSlices q') m'" "distinct (map sid (virtualSlices q'))"
proof -
  obtain acc m2 n2 where l: "merge_slices_loop (virtualSlices q) ss ([], m, n) = (acc, m2, n2)"
    by (metis prod_cases3)
  have "virtualSlices q' = acc" "m' = m2" using assms(2,3) l by (auto simp: MergeSlices_def)
  then show "mon_sync others (virtualSlices q') m'" "distinct (map sid (virtualSlices q'))"
    using merge_slices_loop_sync [OF assms(1) l] by (auto simp: merge_sync_def mon_sync_def)
qed

section \<open>Loading tasks\<close>

definition ev_task :: "load_event \<Rightarrow> ptask" where
  "ev_task ev = (case ev of CorruptedAcked t \<Rightarrow> ht_Task t | RescheduleTask t _ \<Rightarrow> ht_Task t
     | Submitted t \<Rightarrow> ht_Task t)"

lemma ht_Task_SetInitialSubmitTime [simp]:
  "ht_Task (SetInitialSubmitTime now t) = ht_Task t" "ht_state (SetInitialSubmitTime now t) = ht_state t"
  by (simp_all add: SetInitialSubmitTime_def)

text \<open>What the events say is what the code does with each loaded task, in order.\<close>

lemma submit_tasks_events:
  assumes "submit_tasks env ts s = (evs, s', ret)"
  shows "\<not> ret \<Longrightarrow> map ev_task evs = map ht_Task ts"
    and "CorruptedAcked t \<in> set evs \<Longrightarrow> IsTaskCorrupted (ht_Task t)"
    and "Submitted t \<in> set evs \<Longrightarrow> \<not> IsTaskCorrupted (ht_Task t) \<and> scheduledTime (ht_key t) \<le> le_now env"
    and "ret \<Longrightarrow> le_ctxDone env"
proof -
  have "(\<not> ret \<longrightarrow> map ev_task evs = map ht_Task ts) \<and>
    (\<forall>t. CorruptedAcked t \<in> set evs \<longrightarrow> IsTaskCorrupted (ht_Task t)) \<and>
    (\<forall>t. Submitted t \<in> set evs \<longrightarrow> \<not> IsTaskCorrupted (ht_Task t) \<and> scheduledTime (ht_key t) \<le> le_now env) \<and>
    (ret \<longrightarrow> le_ctxDone env)"
    using assms
  proof (induction ts arbitrary: s evs)
    case (Cons x ts)
    show ?case
      using Cons.prems Cons.IH
      by (auto simp: Let_def ev_task_def split: if_splits prod.splits)
  qed simp
  then show "\<not> ret \<Longrightarrow> map ev_task evs = map ht_Task ts"
    and "CorruptedAcked t \<in> set evs \<Longrightarrow> IsTaskCorrupted (ht_Task t)"
    and "Submitted t \<in> set evs \<Longrightarrow> \<not> IsTaskCorrupted (ht_Task t) \<and> scheduledTime (ht_key t) \<le> le_now env"
    and "ret \<Longrightarrow> le_ctxDone env" by blast+
qed

lemma slice_Ack_simps [simp]:
  "sid (slice_Ack k s) = sid s" "vs_state (slice_Ack k s) = vs_state s"
  "progress (slice_Ack k s) = progress s"
  by (simp_all add: slice_Ack_def)

lemma slice_SetInitialSubmitTime_simps [simp]:
  "sid (slice_SetInitialSubmitTime now k s) = sid s"
  "vs_state (slice_SetInitialSubmitTime now k s) = vs_state s"
  "progress (slice_SetInitialSubmitTime now k s) = progress s"
  by (simp_all add: slice_SetInitialSubmitTime_def)

lemma submit_tasks_slice:
  assumes "submit_tasks env ts s = (evs, s', ret)"
  shows "sid s' = sid s \<and> vs_state s' = vs_state s \<and> progress s' = progress s"
  using assms by (induction ts arbitrary: s evs) (auto simp: Let_def split: if_splits prod.splits)

lemma tracked_SetInitialSubmitTime:
  "vs_tracked (slice_SetInitialSubmitTime now k s) j =
     (if j = k then map_option (SetInitialSubmitTime now) (vs_tracked s j) else vs_tracked s j)"
proof -
  have "map_of (map (\<lambda>(k', t). (k', if k' = k then SetInitialSubmitTime now t else t)) m) j =
      (if j = k then map_option (SetInitialSubmitTime now) (map_of m j) else map_of m j)" for m
    by (induction m) auto
  then show ?thesis by (simp add: tracked_def slice_SetInitialSubmitTime_def)
qed

lemma tracker_wf_SetInitialSubmitTime:
  "tracker_wf (pendingTaskTracker s) \<Longrightarrow> tracker_wf (pendingTaskTracker (slice_SetInitialSubmitTime now k s))"
  unfolding tracker_wf_def
  by (auto simp: slice_SetInitialSubmitTime_def comp_def case_prod_unfold image_image split: if_splits)

lemma slice_inv_SetInitialSubmitTime:
  assumes "slice_inv key_ok pos_ok todo s"
  shows "slice_inv key_ok pos_ok todo (slice_SetInitialSubmitTime now k s)"
proof -
  have "dom (vs_tracked (slice_SetInitialSubmitTime now k s)) = dom (vs_tracked s)"
    by (auto simp: dom_def tracked_SetInitialSubmitTime)
  moreover have "slice_tasks key_ok todo (slice_SetInitialSubmitTime now k s)"
    using assms by (auto simp: slice_inv_def slice_tasks_def tracked_SetInitialSubmitTime split: if_splits)
  ultimately show ?thesis
    using assms tracker_wf_SetInitialSubmitTime [of s]
    by (simp add: slice_inv_def slice_shape_def slice_covers_def)
qed

lemma slice_inv_Ack:
  assumes "slice_inv key_ok pos_ok todo s" "\<forall>t \<in> todo. GetTaskKey t \<noteq> k"
  shows "slice_inv key_ok pos_ok todo (slice_Ack k s)"
proof -
  have tr: "vs_tracked (slice_Ack k s) j =
      (if j = k then map_option task_Ack (vs_tracked s j) else vs_tracked s j)" for j
    by (simp add: slice_Ack_def tracked_tracker_Ack)
  have "dom (vs_tracked (slice_Ack k s)) = dom (vs_tracked s)"
    by (auto simp: dom_def tr)
  moreover have "slice_tasks key_ok todo (slice_Ack k s)"
    using assms by (auto simp: slice_inv_def slice_tasks_def tr split: if_splits)
  moreover have "tracker_wf (pendingTaskTracker (slice_Ack k s))"
    using assms by (auto simp: slice_Ack_def slice_inv_def slice_shape_def intro: tracker_wf_tracker_Ack)
  ultimately show ?thesis
    using assms by (simp add: slice_inv_def slice_shape_def slice_covers_def)
qed

lemma slice_inv_submit_tasks:
  assumes "submit_tasks env ts s = (evs, s', ret)" "slice_inv key_ok pos_ok todo s"
    and "\<forall>x \<in> set ts. IsTaskCorrupted (ht_Task x) \<longrightarrow> (\<forall>t \<in> todo. GetTaskKey t \<noteq> ht_key x)"
  shows "slice_inv key_ok pos_ok todo s'"
  using assms
proof (induction ts arbitrary: s evs)
  case (Cons x ts)
  show ?case
  proof (cases "IsTaskCorrupted (ht_Task x)")
    case True
    then have "slice_inv key_ok pos_ok todo (slice_Ack (ht_key x) s)"
      using Cons.prems by (intro slice_inv_Ack) auto
    then show ?thesis using Cons True by (auto simp: Let_def split: prod.splits)
  next
    case False
    have "slice_inv key_ok pos_ok todo (slice_SetInitialSubmitTime (le_now env) (ht_key x) s)"
      using Cons.prems(2) by (rule slice_inv_SetInitialSubmitTime)
    then show ?thesis
      using Cons False by (auto simp: Let_def split: prod.splits if_splits)
  qed
qed simp

text \<open>A task waits to be read in some slice of the queue.\<close>

definition waiting :: "vslice list \<Rightarrow> ptask \<Rightarrow> bool" where
  "waiting ss t \<longleftrightarrow> (\<exists>s \<in> set ss. Check (vs_pred s) t \<and> GetTaskKey t \<in> unread (progress s))"

lemma virtualSlices_put:
  "virtualSlices (put_slice e s q) =
     (case e of Elem i \<Rightarrow> map (\<lambda>s'. if sid s' = i then s else s') (virtualSlices q) | Removed _ \<Rightarrow> virtualSlices q)"
  by (simp add: put_slice_def split: list_element.splits)

lemma virtualSlices_simps [simp]:
  "virtualSlices (vq_Pause now d q) = virtualSlices q" "virtualSlices (vq_notify q) = virtualSlices q"
  "sliceToRead (vq_Pause now d q) = sliceToRead q" "sliceToRead (vq_notify q) = sliceToRead q"
  by (simp_all add: vq_Pause_def vq_notify_def)

lemma waiting_replace:
  assumes w: "waiting ss t" and s: "s \<in> set ss" "sid s = i"
    and uniq: "\<And>x. x \<in> set ss \<Longrightarrow> sid x = i \<Longrightarrow> x = s" and st: "vs_state s' = vs_state s"
  shows "waiting (map (\<lambda>x. if sid x = i then s' else x) ss) t \<or>
    Check (vs_pred s) t \<and> GetTaskKey t \<in> unread (progress s) \<and> GetTaskKey t \<notin> unread (progress s')"
proof -
  obtain x where x: "x \<in> set ss" "Check (vs_pred x) t" "GetTaskKey t \<in> unread (progress x)"
    using w by (auto simp: waiting_def)
  show ?thesis
  proof (cases "sid x = i")
    case True
    then have eq: "x = s" using uniq x(1) by blast
    have mem: "s' \<in> set (map (\<lambda>x. if sid x = i then s' else x) ss)" using s by force
    have "waiting (map (\<lambda>x. if sid x = i then s' else x) ss) t" if "GetTaskKey t \<in> unread (progress s')"
      unfolding waiting_def using that x(2) st eq by (intro bexI [OF _ mem]) simp
    then show ?thesis using x eq by blast
  next
    case False
    then have "x \<in> set (map (\<lambda>x. if sid x = i then s' else x) ss)" using x(1) by force
    then show ?thesis using x unfolding waiting_def by blast
  qed
qed

context queue_reader
begin

lemma load_slice_ok:
  assumes "store_ok d" "slice_inv key_ok pos_ok todo s" "todo \<subseteq> stored d"
    and init: "\<And>t. ht_Task (le_taskInitializer env t) = t"
      "\<And>t. ht_state (le_taskInitializer env t) = TaskStatePending"
    and rd: "le_reader env = get_task d"
    and clean: "\<forall>t \<in> todo. \<not> IsTaskCorrupted t"
  shows "\<exists>evs q' m' s'. load_slice env cnt e s q m = Some (evs, q', m') \<and>
    slice_inv key_ok pos_ok todo s' \<and> vs_state s' = vs_state s \<and> sid s' = sid s \<and>
    virtualSlices q' = virtualSlices (put_slice e s' q) \<and>
    (\<forall>t \<in> todo. \<not> le_ctxDone env \<longrightarrow> Check (vs_pred s) t \<longrightarrow> GetTaskKey t \<in> unread (progress s) \<longrightarrow>
       GetTaskKey t \<in> unread (progress s') \<or> t \<in> ev_task ` set evs)"
proof -
  define r where "r = MaxPendingTasksCount env - cnt"
  define n where "n = min (PageSize env) (if r \<le> 0 then 1 else r)"
  obtain res s1 where g: "GetTasks (get_task d) (le_taskInitializer env) n s = Some (res, s1)"
    and l: "loop_result d todo n [] s res s1"
    using GetTasks_total [OF assms(1-3) init] by blast
  have s1: "slice_inv key_ok pos_ok todo s1" "vs_state s1 = vs_state s" "sid s1 = sid s"
    using l by (simp_all add: loop_result_def)
  show ?thesis
  proof (cases res)
    case (Inl err)
    have "\<forall>t \<in> todo. Check (vs_pred s) t \<longrightarrow> GetTaskKey t \<in> unread (progress s) \<longrightarrow>
        GetTaskKey t \<in> unread (progress s1)"
      using l Inl assms(3) by (auto simp: loop_result_def)
    then show ?thesis
      unfolding load_slice_def Let_def rd r_def [symmetric] n_def [symmetric] g Inl using s1 by auto
  next
    case (Inr ts)
    obtain evs s2 ret where su: "submit_tasks env ts s1 = (evs, s2, ret)" by (metis prod_cases3)
    have new: "ht_Task ` set ts = {t \<in> stored d. Check (vs_pred s) t \<and>
        GetTaskKey t \<in> unread (progress s) - unread (progress s1)}"
      using l Inr by (simp add: loop_result_def)
    have "\<forall>x \<in> set ts. IsTaskCorrupted (ht_Task x) \<longrightarrow> (\<forall>t \<in> todo. GetTaskKey t \<noteq> ht_key x)"
    proof (intro ballI impI notI)
      fix x t assume x: "x \<in> set ts" "IsTaskCorrupted (ht_Task x)" and t: "t \<in> todo" "GetTaskKey t = ht_key x"
      have "ht_Task x \<in> stored d" using new x(1) by blast
      then have "t = ht_Task x"
        using inj_onD [OF inj_key [OF assms(1)] t(2)] t(1) assms(3) by blast
      then show False using clean t(1) x(2) by blast
    qed
    then have s2: "slice_inv key_ok pos_ok todo s2"
      using slice_inv_submit_tasks [OF su s1(1)] by blast
    note f = submit_tasks_slice [OF su] and ev = submit_tasks_events(1,4) [OF su]
    have hand: "GetTaskKey t \<in> unread (progress s2) \<or> t \<in> ev_task ` set evs"
      if "t \<in> todo" "\<not> le_ctxDone env" "Check (vs_pred s) t" "GetTaskKey t \<in> unread (progress s)" for t
    proof (cases "GetTaskKey t \<in> unread (progress s1)")
      case False
      then have "t \<in> ht_Task ` set ts" unfolding new using that assms(3) by auto
      moreover have "map ev_task evs = map ht_Task ts" using ev that(2) by blast
      then have "ev_task ` set evs = ht_Task ` set ts" by (metis list.set_map)
      ultimately show ?thesis by simp
    qed (use f in simp)
    have "\<exists>q'. load_slice env cnt e s q m = Some (evs, q', track_slice s1 m) \<and>
        virtualSlices q' = virtualSlices (put_slice e s2 q)"
      unfolding load_slice_def Let_def rd r_def [symmetric] n_def [symmetric] g Inr using su by simp
    then show ?thesis using s2 f s1(2,3) hand by fastforce
  qed
qed

lemma loadAndSubmitTasks_ok:
  assumes d: "store_ok d" "todo \<subseteq> stored d"
    and init: "\<And>t. ht_Task (le_taskInitializer env t) = t"
      "\<And>t. ht_state (le_taskInitializer env t) = TaskStatePending"
    and rd: "le_reader env = get_task d"
    and clean: "\<forall>t \<in> todo. \<not> IsTaskCorrupted t"
    and inv: "\<forall>s \<in> set (virtualSlices q). slice_inv key_ok pos_ok todo s"
    and ptr: "\<forall>s. sliceToRead q = Some (Removed s) \<longrightarrow> slice_inv key_ok pos_ok todo s"
    and dist: "distinct (map sid (virtualSlices q))"
  shows "\<exists>evs q' m'. loadAndSubmitTasks env q m = Some (evs, q', m') \<and>
    (\<forall>s \<in> set (virtualSlices q'). slice_inv key_ok pos_ok todo s) \<and>
    vq_GetState q' = vq_GetState q \<and> map sid (virtualSlices q') = map sid (virtualSlices q) \<and>
    (\<forall>t \<in> todo. \<not> le_ctxDone env \<longrightarrow> waiting (virtualSlices q) t \<longrightarrow>
       waiting (virtualSlices q') t \<or> t \<in> ev_task ` set evs)"
proof -
  define q1 where "q1 = (if MaxPendingTasksCount env \<le> GetTotalPendingTaskCount m
    then vq_Pause (le_pauseNow env) (PollBackoffInterval env) q else q)"
  have q1: "virtualSlices q1 = virtualSlices q" "sliceToRead q1 = sliceToRead q"
    by (simp_all add: q1_def)
  have "loadAndSubmitTasks env q m = Some ([], q, m) \<or> loadAndSubmitTasks env q m = Some ([], q1, m) \<or>
    (\<exists>e s. sliceToRead q = Some e \<and> elem_slice (virtualSlices q) e = Some s \<and>
       loadAndSubmitTasks env q m = load_slice env (GetTotalPendingTaskCount m) e s q1 m)"
    unfolding loadAndSubmitTasks_def Let_def q1_def [symmetric] q1(1) by (auto split: option.splits)
  then consider "loadAndSubmitTasks env q m = Some ([], q, m)" | "loadAndSubmitTasks env q m = Some ([], q1, m)"
    | e s where "sliceToRead q = Some e" "elem_slice (virtualSlices q) e = Some s"
        "loadAndSubmitTasks env q m = load_slice env (GetTotalPendingTaskCount m) e s q1 m"
    by blast
  then show ?thesis
  proof cases
    case (3 e s)
    have s: "slice_inv key_ok pos_ok todo s"
      using 3(1,2) inv ptr by (auto simp: elem_slice_def find_Some_iff split: list_element.splits)
    obtain evs q' m' s' where l: "load_slice env (GetTotalPendingTaskCount m) e s q1 m = Some (evs, q', m')"
      and s': "slice_inv key_ok pos_ok todo s'" "vs_state s' = vs_state s" "sid s' = sid s"
      and vs: "virtualSlices q' = virtualSlices (put_slice e s' q1)"
      and hand: "\<forall>t \<in> todo. \<not> le_ctxDone env \<longrightarrow> Check (vs_pred s) t \<longrightarrow> GetTaskKey t \<in> unread (progress s) \<longrightarrow>
         GetTaskKey t \<in> unread (progress s') \<or> t \<in> ev_task ` set evs"
      using load_slice_ok [OF d(1) s d(2) init rd clean] by blast
    show ?thesis
    proof (cases e)
      case (Elem i)
      have si: "s \<in> set (virtualSlices q)" "sid s = i"
        using 3(2) Elem by (auto simp: elem_slice_def find_Some_iff)
      have uniq: "x = s" if "x \<in> set (virtualSlices q)" "sid x = i" for x
        using dist si that by (auto simp: distinct_map inj_on_def)
      have vs': "virtualSlices q' = map (\<lambda>x. if sid x = i then s' else x) (virtualSlices q)"
        using vs Elem q1 by (simp add: virtualSlices_put)
      have "map vs_state (virtualSlices q') = map vs_state (virtualSlices q)"
        "map sid (virtualSlices q') = map sid (virtualSlices q)"
        using uniq s'(2,3) si(2) unfolding vs' by auto
      moreover have "\<forall>x \<in> set (virtualSlices q'). slice_inv key_ok pos_ok todo x"
        using inv s'(1) unfolding vs' by auto
      moreover have "waiting (virtualSlices q') t \<or> t \<in> ev_task ` set evs"
        if tt: "t \<in> todo" "\<not> le_ctxDone env" "waiting (virtualSlices q) t" for t
      proof -
        have "GetTaskKey t \<in> unread (progress s') \<or> t \<in> ev_task ` set evs"
          if "Check (vs_pred s) t" "GetTaskKey t \<in> unread (progress s)"
          using hand tt(1,2) that by blast
        then show ?thesis
          using waiting_replace [OF tt(3) si uniq, where s' = s'] s'(2) unfolding vs' by blast
      qed
      ultimately show ?thesis using 3(3) l by (simp add: vq_GetState_def)
    next
      case (Removed x)
      then have "virtualSlices q' = virtualSlices q" using vs q1 by (simp add: virtualSlices_put)
      then show ?thesis using 3(3) l inv by (simp add: vq_GetState_def)
    qed
  qed (use inv q1 in \<open>simp_all add: vq_GetState_def\<close>)
qed

end

section \<open>The slice to read is removed\<close>

lemma progress_UpdateAndGetState: "progress (fst (UpdateAndGetState s)) = progress s"
  by (simp add: UpdateAndGetState_def Let_def split: prod.splits if_splits)

text \<open>
  When the slice to read becomes empty, an update removes it and leaves the queue with a pointer to
  a removed element.
\<close>

lemma update_slices_removed: "fst (snd (snd (update_slices ss (Some (Removed s)) m))) = Some (Removed s)"
  by (induction ss arbitrary: m) (simp_all add: unlink_def Let_def split_beta)

lemma update_slices_unlinks:
  assumes "distinct (map sid ss)" and "s \<in> set ss" and "vs_IsEmpty (fst (UpdateAndGetState s))"
  shows "fst (snd (snd (update_slices ss (Some (Elem (sid s))) m))) = Some (Removed (fst (UpdateAndGetState s)))"
  using assms
proof (induction ss arbitrary: m)
  case (Cons x ss)
  obtain x' st where x: "UpdateAndGetState x = (x', st)" by force
  show ?case
  proof (cases "x = s")
    case True
    then show ?thesis
      using Cons.prems x sid_UpdateAndGetState [of s] update_slices_removed
      by (simp add: unlink_def Let_def)
  next
    case False
    then have "s \<in> set ss" "sid x' \<noteq> sid s"
      using Cons.prems(1,2) sid_UpdateAndGetState [of x] x by auto
    then show ?thesis
      using Cons.IH [of "RemoveSlice x' m"] Cons.IH [of "track_slice x' m"] Cons.prems x
      by (simp add: unlink_def Let_def split_beta)
  qed
qed simp

text \<open>Loading from a removed element that has been read finds nothing and follows no next element.\<close>

lemma load_removed:
  assumes "sliceToRead q = Some (Removed s)" "progress s = []" "\<not> le_limiterErr env"
    and "GetTotalPendingTaskCount m < MaxPendingTasksCount env" "\<not> IsPaused (pauseController q)"
  shows "loadAndSubmitTasks env q m = Some ([], q\<lparr>sliceToRead := None\<rparr>, track_slice s m)"
  using assms by (simp add: loadAndSubmitTasks_def load_slice_def elem_slice_def GetTasks_def
      GetTasks_loop.simps HasMoreTasks_def put_slice_def Let_def)

lemma load_nothing: "sliceToRead q = None \<Longrightarrow> loadAndSubmitTasks env q m = Some ([], q, m)"
  by (simp add: loadAndSubmitTasks_def)

end
