(* ===== verification/Queue_Manager.thy ===== *)
theory Queue_Manager
  imports Virtual_Queue_Ops
begin

text \<open>
  The manager of the virtual queues of a queue (\<open>service/history/queuev2/virtual_queue_manager.go\<close>).
  The map of the queues is an association list in the order in which one run iterates over it.
  An operation that allocates slices takes the next free address and returns the one after.
\<close>

definition rootQueueID :: int where
  "rootQueueID = 0"

record queue_manager =
  mgr_status :: daemon_status
  virtualQueues :: "(int, vqueue) gomap"
  nextForceNewSliceTime :: int

fun new_slices :: "nat \<Rightarrow> slice_state list \<Rightarrow> vslice list \<times> nat" where
  "new_slices n [] = ([], n)"
| "new_slices n (state # states) =
     (let (ss, n') = new_slices (Suc n) states in (NewVirtualSlice n state NewPendingTaskTracker # ss, n'))"

fun new_queues :: "nat \<Rightarrow> (int, slice_state list) gomap \<Rightarrow> (int, vqueue) gomap \<times> nat" where
  "new_queues n [] = ([], n)"
| "new_queues n ((queueID, states) # rest) =
     (let (ss, n1) = new_slices n states;
          (qs, n2) = new_queues n1 rest
      in ((queueID, NewVirtualQueue ss) # qs, n2))"

definition NewVirtualQueueManager :: "nat \<Rightarrow> (int, slice_state list) gomap \<Rightarrow> queue_manager \<times> nat" where
  "NewVirtualQueueManager n virtualQueueStates =
     (let (qs, n') = new_queues n virtualQueueStates
      in (\<lparr>mgr_status = DaemonStatusInitialized, virtualQueues = qs, nextForceNewSliceTime = zeroTime\<rparr>, n'))"

definition mgr_Start :: "queue_manager \<Rightarrow> queue_manager" where
  "mgr_Start g =
     (if mgr_status g \<noteq> DaemonStatusInitialized then g
      else g\<lparr>mgr_status := DaemonStatusStarted,
             virtualQueues := map (\<lambda>(k, vq). (k, vq_Start vq)) (virtualQueues g)\<rparr>)"

definition mgr_Stop :: "queue_manager \<Rightarrow> queue_manager \<times> htask list" where
  "mgr_Stop g =
     (if mgr_status g \<noteq> DaemonStatusStarted then (g, [])
      else (g\<lparr>mgr_status := DaemonStatusStopped,
              virtualQueues := map (\<lambda>(k, vq). (k, fst (vq_Stop vq))) (virtualQueues g)\<rparr>,
            concat (map (\<lambda>(k, vq). snd (vq_Stop vq)) (virtualQueues g))))"

definition put_queue :: "int \<Rightarrow> vqueue \<Rightarrow> queue_manager \<Rightarrow> queue_manager" where
  "put_queue k vq g = g\<lparr>virtualQueues := AList.update k vq (virtualQueues g)\<rparr>"

definition GetOrCreateVirtualQueue :: "int \<Rightarrow> queue_manager \<Rightarrow> vqueue \<times> queue_manager" where
  "GetOrCreateVirtualQueue queueID g =
     (case map_of (virtualQueues g) queueID of
        Some vq \<Rightarrow> (vq, g)
      | None \<Rightarrow> let vq = vq_Start (NewVirtualQueue []) in (vq, put_queue queueID vq g))"

fun update_queues ::
  "(int \<times> vqueue) list \<Rightarrow> monitor \<Rightarrow>
   (int, vqueue) gomap \<times> (int, slice_state list) gomap \<times> htask list \<times> monitor" where
  "update_queues [] m = ([], [], [], m)"
| "update_queues ((key, vq) # rest) m =
     (let (vq', state, m1) = vq_UpdateAndGetState vq m;
          (qs, states, cancelled, m2) = update_queues rest m1 in
      if length state > 0 then ((key, vq') # qs, (key, state) # states, cancelled, m2)
      else if key \<noteq> rootQueueID then (qs, states, snd (vq_Stop vq') @ cancelled, m2)
      else ((key, vq') # qs, states, cancelled, m2))"

definition mgr_UpdateAndGetState ::
  "queue_manager \<Rightarrow> monitor \<Rightarrow> queue_manager \<times> (int, slice_state list) gomap \<times> monitor" where
  "mgr_UpdateAndGetState g m =
     (let (qs, states, cancelled, m') = update_queues (virtualQueues g) m
      in (g\<lparr>virtualQueues := qs\<rparr>, states, m'))"

text \<open>\<open>appendOrMergeSlice\<close> of the manager: a new slice is appended every now and then, so that
  the slices do not grow without bound, and merged with the last one otherwise.\<close>

definition mgr_appendOrMergeSlice ::
  "int \<Rightarrow> int \<Rightarrow> nat \<Rightarrow> vqueue \<Rightarrow> vslice \<Rightarrow> queue_manager \<Rightarrow> monitor \<Rightarrow> vqueue \<times> queue_manager \<times> monitor \<times> nat" where
  "mgr_appendOrMergeSlice now VirtualSliceForceAppendInterval n vq s g m =
     (if now > nextForceNewSliceTime g
      then (AppendSlices [s] vq, g\<lparr>nextForceNewSliceTime := now + VirtualSliceForceAppendInterval\<rparr>, m, n)
      else let (vq', m', n') = MergeWithLastSlice n s vq m in (vq', g, m', n'))"

definition AddNewVirtualSliceToRootQueue ::
  "int \<Rightarrow> int \<Rightarrow> nat \<Rightarrow> vslice \<Rightarrow> queue_manager \<Rightarrow> monitor \<Rightarrow> queue_manager \<times> monitor \<times> nat" where
  "AddNewVirtualSliceToRootQueue now interval n s g m =
     (case map_of (virtualQueues g) rootQueueID of
        Some vq \<Rightarrow>
          let (vq', g', m', n') = mgr_appendOrMergeSlice now interval n vq s g m
          in (put_queue rootQueueID vq' g', m', n')
      | None \<Rightarrow> (put_queue rootQueueID (vq_Start (NewVirtualQueue [s])) g, m, n))"

definition GetMinReadLevel :: "queue_manager \<Rightarrow> htask_key" where
  "GetMinReadLevel g =
     fold (\<lambda>(_, vq) lvl.
             fold (\<lambda>s lvl. if Compare (GetReadLevel s) lvl < 0 then GetReadLevel s else lvl)
               (virtualSlices vq) lvl)
       (virtualQueues g) MaximumHistoryTaskKey"

section \<open>What the manager promises\<close>

text \<open>All slices of all queues.\<close>

definition all_slices :: "(int, vqueue) gomap \<Rightarrow> vslice list" where
  "all_slices qs = concat (map (\<lambda>(_, vq). virtualSlices vq) qs)"

lemma all_slices_simps [simp]:
  "all_slices [] = []" "all_slices ((k, vq) # qs) = virtualSlices vq @ all_slices qs"
  by (simp_all add: all_slices_def)

lemma fold_min_slices:
  "fold (\<lambda>s lvl. if GetReadLevel s < lvl then GetReadLevel s else lvl) ss lvl =
     Min (insert lvl (GetReadLevel ` set ss))"
proof (induction ss arbitrary: lvl)
  case (Cons s ss)
  have "Min (insert lvl (insert (GetReadLevel s) (GetReadLevel ` set ss))) =
      Min (insert (min lvl (GetReadLevel s)) (GetReadLevel ` set ss))"
    by (cases "ss = []") (simp_all add: min.assoc)
  then show ?case using Cons by (auto simp: Compare_iff min_def insert_commute)
qed simp

lemma fold_min_queues:
  "fold (\<lambda>(_, vq) lvl.
      fold (\<lambda>s lvl. if GetReadLevel s < lvl then GetReadLevel s else lvl)
        (virtualSlices vq) lvl) qs lvl = Min (insert lvl (GetReadLevel ` set (all_slices qs)))"
proof (induction qs arbitrary: lvl)
  case (Cons e qs)
  obtain k vq where e: "e = (k, vq)" by force
  let ?A = "GetReadLevel ` set (virtualSlices vq)" and ?B = "GetReadLevel ` set (all_slices qs)"
  have "Min (insert (Min (insert lvl ?A)) ?B) = Min (insert lvl ?A \<union> ?B)"
  proof (cases "?B = {}")
    case False
    then show ?thesis
      using Min_insert [of ?B "Min (insert lvl ?A)"] Min_Un [of "insert lvl ?A" ?B]
      by (simp del: Min_insert Un_insert_left)
  qed simp
  then show ?case using Cons by (simp add: e fold_min_slices image_Un)
qed simp

lemma GetMinReadLevel_Min:
  "GetMinReadLevel g = Min (insert MaximumHistoryTaskKey (GetReadLevel ` set (all_slices (virtualQueues g))))"
  by (simp add: GetMinReadLevel_def Compare_iff fold_min_queues)

lemma vq_UpdateAndGetState_eq:
  assumes "vq_UpdateAndGetState q m = (q', states, m')"
  shows "\<exists>e. update_slices (virtualSlices q) (sliceToRead q) m = (virtualSlices q', states, e, m')"
    and "states = map vs_state (virtualSlices q')"
proof -
  obtain ss st e m2 where u: "update_slices (virtualSlices q) (sliceToRead q) m = (ss, st, e, m2)"
    by (metis prod_cases4)
  then show "\<exists>e. update_slices (virtualSlices q) (sliceToRead q) m = (virtualSlices q', states, e, m')"
    using assms by (auto simp: vq_UpdateAndGetState_def)
  show "states = map vs_state (virtualSlices q')"
    using assms u update_slices_eq(2) [OF u] by (auto simp: vq_UpdateAndGetState_def)
qed

text \<open>
  The states the manager reports are those of its queues, and no task that is still to be
  processed leaves the scope of the queues.
\<close>

lemma update_queues_ok:
  assumes rk: "reader_keys key_ok pos_ok"
    and inv: "\<forall>s \<in> set (all_slices qs). slice_inv key_ok pos_ok todo s"
    and r: "update_queues qs m = (qs', states, cancelled, m')"
  shows "\<forall>s \<in> set (all_slices qs'). slice_inv key_ok pos_ok todo s \<and> \<not> vs_IsEmpty s"
    and "concat (map snd states) = map vs_state (all_slices qs')"
    and "t \<in> todo \<Longrightarrow> in_scope (all_slices qs) t \<Longrightarrow> in_scope (all_slices qs') t"
    and "states = filter (\<lambda>(_, ss). ss \<noteq> []) (map (\<lambda>(k, vq). (k, vq_GetState vq)) qs')"
proof -
  have "(\<forall>s \<in> set (all_slices qs'). slice_inv key_ok pos_ok todo s \<and> \<not> vs_IsEmpty s) \<and>
    concat (map snd states) = map vs_state (all_slices qs') \<and>
    (t \<in> todo \<longrightarrow> in_scope (all_slices qs) t \<longrightarrow> in_scope (all_slices qs') t) \<and>
    states = filter (\<lambda>(_, ss). ss \<noteq> []) (map (\<lambda>(k, vq). (k, vq_GetState vq)) qs')"
    using inv r
  proof (induction qs arbitrary: m qs' states cancelled m')
    case (Cons e qs)
    obtain k vq where e: "e = (k, vq)" by force
    obtain vq1 st m1 where u: "vq_UpdateAndGetState vq m = (vq1, st, m1)" by (metis prod_cases3)
    obtain qs2 states2 c2 m2 where r2: "update_queues qs m1 = (qs2, states2, c2, m2)"
      by (metis prod_cases4)
    obtain p where up: "update_slices (virtualSlices vq) (sliceToRead vq) m = (virtualSlices vq1, st, p, m1)"
      and st: "st = map vs_state (virtualSlices vq1)"
      using vq_UpdateAndGetState_eq [OF u] by blast
    have iv: "\<forall>s \<in> set (virtualSlices vq). slice_inv key_ok pos_ok todo s"
      using Cons.prems(1) by (simp add: e)
    note k1 = update_keeps_scope(1) [OF rk iv up] and k2 = update_keeps_scope(2) [OF rk iv up, of t]
    have iq: "\<forall>s \<in> set (all_slices qs). slice_inv key_ok pos_ok todo s"
      using Cons.prems(1) by (simp add: e)
    note IH = Cons.IH [OF iq r2]
    consider "st \<noteq> []" "qs' = (k, vq1) # qs2" "states = (k, st) # states2"
      | "st = []" "qs' = qs2 \<or> qs' = (k, vq1) # qs2" "states = states2"
      using Cons.prems(2) u r2 by (auto simp: e Let_def split: if_splits)
    then show ?case
    proof cases
      case 1
      then show ?thesis using IH k1 k2 st by (auto simp: e vq_GetState_def)
    next
      case 2
      have "virtualSlices vq1 = []" "vq_GetState vq1 = []" using 2(1) st by (simp_all add: vq_GetState_def)
      then show ?thesis using 2 IH k2 by (auto simp: e)
    qed
  qed simp
  then show "\<forall>s \<in> set (all_slices qs'). slice_inv key_ok pos_ok todo s \<and> \<not> vs_IsEmpty s"
    and "concat (map snd states) = map vs_state (all_slices qs')"
    and "t \<in> todo \<Longrightarrow> in_scope (all_slices qs) t \<Longrightarrow> in_scope (all_slices qs') t"
    and "states = filter (\<lambda>(_, ss). ss \<noteq> []) (map (\<lambda>(k, vq). (k, vq_GetState vq)) qs')"
    by blast+
qed

text \<open>A new manager has exactly the slice states it is created from.\<close>

lemma new_slices_states: "map vs_state (fst (new_slices n sts)) = sts"
  by (induction sts arbitrary: n) (auto simp: NewVirtualSlice_def case_prod_unfold Let_def)

lemma new_queues_states:
  "map (\<lambda>(k, vq). (k, vq_GetState vq)) (fst (new_queues n qs)) = qs"
proof (induction qs arbitrary: n)
  case (Cons e qs)
  obtain k sts where e: "e = (k, sts)" by force
  obtain ss n1 where s: "new_slices n sts = (ss, n1)" by force
  obtain vqs n2 where q: "new_queues n1 qs = (vqs, n2)" by force
  show ?case
    using Cons [of n1] new_slices_states [of n sts]
    by (simp add: e s q vq_GetState_def NewVirtualQueue_def)
qed simp

end
