(* ===== verification/Queue_Mitigator.thy ===== *)
theory Queue_Mitigator
  imports Queue_Manager
begin

text \<open>
  The mitigator (\<open>service/history/queuev2/mitigator.go\<close>), which moves the tasks of busy domains
  out of the way when too many tasks are pending, and the priority queue it uses
  (\<open>common/collection/priority_queue.go\<close>, a binary heap by \<open>container/heap\<close>).

  The iteration of \<open>processQueueSplitsAndClear\<close> over the map of the queues is a list of queue
  numbers: the code inserts into the map while it iterates, so the list may also contain the
  queues that are created on the way.
\<close>

section \<open>The priority queue\<close>

definition heap_swap :: "nat \<Rightarrow> nat \<Rightarrow> 'a list \<Rightarrow> 'a list" where
  "heap_swap i j xs = xs[i := xs ! j, j := xs ! i]"

fun heap_up :: "('a \<Rightarrow> 'a \<Rightarrow> bool) \<Rightarrow> nat \<Rightarrow> 'a list \<Rightarrow> 'a list" where
  "heap_up lt j xs =
     (let i = (j - 1) div 2 in
      if i = j \<or> \<not> lt (xs ! j) (xs ! i) then xs else heap_up lt i (heap_swap i j xs))"

function heap_down :: "('a \<Rightarrow> 'a \<Rightarrow> bool) \<Rightarrow> nat \<Rightarrow> nat \<Rightarrow> 'a list \<Rightarrow> 'a list" where
  "heap_down lt i n xs =
     (let j1 = 2 * i + 1 in
      if j1 \<ge> n then xs
      else let j = (if j1 + 1 < n \<and> lt (xs ! (j1 + 1)) (xs ! j1) then j1 + 1 else j1) in
        if \<not> lt (xs ! j) (xs ! i) then xs else heap_down lt j n (heap_swap i j xs))"
  by auto

termination
  by (relation "measure (\<lambda>(_, i, n, _). n - i)") (auto split: if_splits)

declare heap_up.simps [simp del] heap_down.simps [simp del]

definition heap_Init :: "('a \<Rightarrow> 'a \<Rightarrow> bool) \<Rightarrow> 'a list \<Rightarrow> 'a list" where
  "heap_Init lt xs = fold (\<lambda>i. heap_down lt i (length xs)) (rev [0 ..< length xs div 2]) xs"

definition NewPriorityQueue :: "('a \<Rightarrow> 'a \<Rightarrow> bool) \<Rightarrow> 'a list \<Rightarrow> 'a list" where
  "NewPriorityQueue lt items = (if length items > 0 then heap_Init lt items else items)"

definition pq_IsEmpty :: "'a list \<Rightarrow> bool" where
  "pq_IsEmpty items \<longleftrightarrow> length items = 0"

definition pq_Peek :: "'a list \<Rightarrow> 'a result" where
  "pq_Peek items = (if pq_IsEmpty items then Err (InternalServiceError ''queue is empty'' []) else Ok (items ! 0))"

definition pq_Add :: "('a \<Rightarrow> 'a \<Rightarrow> bool) \<Rightarrow> 'a \<Rightarrow> 'a list \<Rightarrow> 'a list" where
  "pq_Add lt item items = heap_up lt (length items) (items @ [item])"

definition pq_Remove :: "('a \<Rightarrow> 'a \<Rightarrow> bool) \<Rightarrow> 'a list \<Rightarrow> ('a \<times> 'a list) result" where
  "pq_Remove lt items =
     (if pq_IsEmpty items then Err (InternalServiceError ''queue is empty'' [])
      else let n = length items - 1;
               xs = heap_down lt 0 n (heap_swap 0 n items)
           in Ok (xs ! n, take n xs))"

lemma mset_heap_swap: "i < length xs \<Longrightarrow> j < length xs \<Longrightarrow> mset (heap_swap i j xs) = mset xs"
  by (simp add: heap_swap_def mset_swap)

lemma length_heap_swap [simp]: "length (heap_swap i j xs) = length xs"
  by (simp add: heap_swap_def)

lemma mset_heap_up: "j < length xs \<Longrightarrow> mset (heap_up lt j xs) = mset xs"
proof (induction lt j xs rule: heap_up.induct)
  case (1 lt j xs)
  have i: "(j - 1) div 2 \<le> j" by linarith
  show ?case
  proof (cases "(j - 1) div 2 = j \<or> \<not> lt (xs ! j) (xs ! ((j - 1) div 2))")
    case False
    have "heap_up lt j xs = heap_up lt ((j - 1) div 2) (heap_swap ((j - 1) div 2) j xs)"
      using False by (subst heap_up.simps) (simp add: Let_def)
    then show ?thesis
      using 1(1) [OF refl False] 1(2) i by (simp add: mset_heap_swap)
  qed (subst heap_up.simps, simp add: Let_def)
qed

lemma mset_heap_down: "i < n \<Longrightarrow> n \<le> length xs \<Longrightarrow> mset (heap_down lt i n xs) = mset xs"
proof (induction lt i n xs rule: heap_down.induct)
  case (1 lt i n xs)
  define j where "j = (if 2 * i + 1 + 1 < n \<and> lt (xs ! (2 * i + 1 + 1)) (xs ! (2 * i + 1))
    then 2 * i + 1 + 1 else 2 * i + 1)"
  show ?case
  proof (cases "2 * i + 1 \<ge> n \<or> \<not> lt (xs ! j) (xs ! i)")
    case True
    then show ?thesis by (subst heap_down.simps) (auto simp: Let_def j_def)
  next
    case False
    then have j: "j < n" by (simp add: j_def)
    have "heap_down lt i n xs = heap_down lt j n (heap_swap i j xs)"
      unfolding heap_down.simps [of lt i n xs] Let_def j_def [symmetric] using False by simp
    then show ?thesis
      using 1(1) [OF refl _ j_def] False j 1(2,3) by (simp add: mset_heap_swap)
  qed
qed

lemma length_heap_down: "i < n \<Longrightarrow> n \<le> length xs \<Longrightarrow> length (heap_down lt i n xs) = length xs"
  using mset_heap_down [of i n xs lt] by (metis size_mset)

text \<open>The queue neither loses nor invents an item.\<close>

lemma pq_Add_mset: "mset (pq_Add lt x items) = add_mset x (mset items)"
  by (simp add: pq_Add_def mset_heap_up)

lemma heap_down_0 [simp]: "heap_down lt i 0 xs = xs"
  by (subst heap_down.simps) simp

lemma pq_Remove_mset:
  assumes "items \<noteq> []"
  shows "\<exists>x rest. pq_Remove lt items = Ok (x, rest) \<and> mset items = add_mset x (mset rest)"
proof -
  define n where "n = length items - 1"
  define xs where "xs = heap_down lt 0 n (heap_swap 0 n items)"
  have n: "n < length items" using assms by (simp add: n_def)
  have m: "mset xs = mset items"
    using n assms by (cases "n = 0") (simp_all add: xs_def mset_heap_down mset_heap_swap)
  then have "length xs = Suc n" using n by (metis Suc_diff_1 length_greater_0_conv assms n_def size_mset)
  then have "xs = take n xs @ [xs ! n]" by (metis lessI order_refl take_Suc_conv_app_nth take_all)
  then have "mset xs = add_mset (xs ! n) (mset (take n xs))"
    by (metis add_mset_add_single mset_append mset_single_iff)
  then show ?thesis
    using assms m by (auto simp: pq_Remove_def pq_IsEmpty_def Let_def n_def xs_def)
qed

lemma mset_heap_Init: "mset (heap_Init lt xs) = mset xs"
proof -
  have "mset (fold (\<lambda>i. heap_down lt i (length xs)) is ys) = mset xs"
    if "\<forall>i \<in> set is. i < length xs" "mset ys = mset xs" for "is" ys
    using that
  proof (induction "is" arbitrary: ys)
    case (Cons i "is")
    have "length ys = length xs" using Cons.prems(2) by (metis size_mset)
    then have "mset (heap_down lt i (length xs) ys) = mset xs"
      using Cons.prems by (simp add: mset_heap_down)
    then show ?case using Cons by simp
  qed simp
  then show ?thesis unfolding heap_Init_def by (rule) auto
qed

section \<open>Statistics\<close>

record pending_task_stats =
  ps_totalPendingTaskCount :: int
  pendingTaskCountPerDomain :: "(string, int) gomap"
  pendingTaskCountPerDomainPerSlice :: "(nat, (string, int) gomap) gomap"
  slicesPerDomain :: "(string, vslice list) gomap"

definition no_stats :: pending_task_stats where
  "no_stats = \<lparr>ps_totalPendingTaskCount = 0, pendingTaskCountPerDomain = [],
     pendingTaskCountPerDomainPerSlice = [], slicesPerDomain = []\<rparr>"

definition add_domain_stats :: "vslice \<Rightarrow> string \<times> int \<Rightarrow> pending_task_stats \<Rightarrow> pending_task_stats" where
  "add_domain_stats slice e st =
     (let (domain, cnt) = e in
      st\<lparr>ps_totalPendingTaskCount := ps_totalPendingTaskCount st + cnt,
         pendingTaskCountPerDomain :=
           AList.update domain (gm_int (pendingTaskCountPerDomain st) domain + cnt)
             (pendingTaskCountPerDomain st),
         slicesPerDomain :=
           AList.update domain (gm_list (slicesPerDomain st) domain @ [slice]) (slicesPerDomain st)\<rparr>)"

definition add_slice_stats :: "vslice \<Rightarrow> pending_task_stats \<Rightarrow> pending_task_stats" where
  "add_slice_stats slice st =
     (let perDomain = PendingTaskStats slice in
      fold (add_domain_stats slice) perDomain
        (st\<lparr>pendingTaskCountPerDomainPerSlice :=
              AList.update (sid slice) perDomain (pendingTaskCountPerDomainPerSlice st)\<rparr>))"

text \<open>The slices of a domain are sorted by decreasing first key; equal keys keep their order.\<close>

definition collectPendingTaskStats :: "queue_manager \<Rightarrow> pending_task_stats" where
  "collectPendingTaskStats g =
     (let st = fold (\<lambda>(_, vq) st. fold add_slice_stats (virtualSlices vq) st) (virtualQueues g) no_stats
      in st\<lparr>slicesPerDomain := map (\<lambda>(domain, ss). (domain, rev (sort_key vs_lo (rev ss)))) (slicesPerDomain st)\<rparr>)"

section \<open>Choosing the domains to clear\<close>

text \<open>\<open>perDomain\<close>, \<open>tot\<close> and \<open>sl\<close> are the fields of the statistics the loop changes.\<close>

function find_domains_loop ::
  "(nat, (string, int) gomap) gomap \<Rightarrow> int \<Rightarrow> string list \<Rightarrow> int \<Rightarrow> (string, int) gomap \<Rightarrow>
   (string, vslice list) gomap \<Rightarrow> (nat, string list) gomap \<Rightarrow> (nat, string list) gomap \<times> int \<times> string list" where
  "find_domains_loop perSlice target pq tot perDomain sl acc =
     (if tot > target \<and> \<not> pq_IsEmpty pq then
        (case pq_Remove (\<lambda>a b. gm_int perDomain a > gm_int perDomain b) pq of
           Inl err \<Rightarrow> (acc, tot, pq)
         | Inr (domain, pq') \<Rightarrow>
             (case map_of sl domain of
                None \<Rightarrow> find_domains_loop perSlice target pq' tot perDomain sl acc
              | Some [] \<Rightarrow> find_domains_loop perSlice target pq' tot perDomain sl acc
              | Some (slice # rest) \<Rightarrow>
                  let taskCount = gm_int (gm_list perSlice (sid slice)) domain;
                      perDomain' = AList.update domain (gm_int perDomain domain - taskCount) perDomain;
                      pq'' = (if gm_int perDomain' domain > 0
                              then pq_Add (\<lambda>a b. gm_int perDomain' a > gm_int perDomain' b) domain pq'
                              else pq')
                  in find_domains_loop perSlice target pq'' (tot - taskCount) perDomain'
                       (AList.update domain rest sl)
                       (AList.update (sid slice) (gm_list acc (sid slice) @ [domain]) acc)))
      else (acc, tot, pq))"
  by pat_completeness auto

lemma length_pq_Remove: "pq_Remove lt pq = Inr (x, pq') \<Longrightarrow> length pq = Suc (length pq')"
proof -
  assume r: "pq_Remove lt pq = Inr (x, pq')"
  then have "pq \<noteq> []" by (auto simp: pq_Remove_def pq_IsEmpty_def)
  then have "mset pq = add_mset x (mset pq')" using pq_Remove_mset [of pq lt] r by auto
  then show ?thesis by (metis size_add_mset size_mset)
qed

lemma length_pq_Add: "length (pq_Add lt x pq) = Suc (length pq)"
  using pq_Add_mset [of lt x pq] by (metis size_add_mset size_mset)

lemma sum_list_update_tl:
  "map_of m k = Some (x # xs) \<Longrightarrow>
     sum_list (map (length \<circ> snd) m) = Suc (sum_list (map (length \<circ> snd) (AList.update k xs m)))"
  by (induction m) auto

text \<open>Every round drops a domain or a slice.\<close>

termination find_domains_loop
proof (relation "measure (\<lambda>(_, _, pq, _, _, sl, _). 2 * sum_list (map (length \<circ> snd) sl) + length pq)",
    goal_cases)
  case 1
  show ?case by simp
next
  case (2 perSlice target pq tot perDomain sl acc y domain pq')
  then show ?case by (auto dest: length_pq_Remove)
next
  case (3 perSlice target pq tot perDomain sl acc y domain pq')
  then show ?case by (auto dest: length_pq_Remove)
next
  case (4 perSlice target pq tot perDomain sl acc y domain pq' ss slice rest)
  then show ?case
    by (auto dest!: length_pq_Remove sum_list_update_tl simp: length_pq_Add)
qed

declare find_domains_loop.simps [simp del]

definition findDomainsToClear :: "pending_task_stats \<Rightarrow> int \<Rightarrow> (nat, string list) gomap" where
  "findDomainsToClear st targetCount =
     fst (find_domains_loop (pendingTaskCountPerDomainPerSlice st) targetCount
       (NewPriorityQueue (\<lambda>a b. gm_int (pendingTaskCountPerDomain st) a > gm_int (pendingTaskCountPerDomain st) b)
          (map fst (pendingTaskCountPerDomain st)))
       (ps_totalPendingTaskCount st) (pendingTaskCountPerDomain st) (slicesPerDomain st) [])"

section \<open>Splitting and clearing\<close>

definition clearSliceThrottleDuration :: int where
  "clearSliceThrottleDuration = 10 * 1000000000"

text \<open>
  The function \<open>processQueueSplitsAndClear\<close> passes to \<open>SplitSlices\<close>; its state is the next free
  address and \<open>slicesToMove\<close>.
\<close>

definition split_domains ::
  "(nat, string list) gomap \<Rightarrow> nat \<times> vslice list \<Rightarrow> vslice \<Rightarrow> vslice list option \<times> nat \<times> vslice list" where
  "split_domains domainsToClear st slice =
     (let (n, slicesToMove) = st; domains = gm_list domainsToClear (sid slice) in
      if length domains = 0 then (None, st)
      else case TrySplitByPredicate n (NewDomainIDPredicate domains False) slice of
          None \<Rightarrow> (Some [], n, slicesToMove @ [fst (Clear slice)])
        | Some (splitSlice, remainingSlice) \<Rightarrow>
            (Some [remainingSlice], n + 2, slicesToMove @ [fst (Clear splitSlice)]))"

definition process_queue ::
  "int \<Rightarrow> int \<Rightarrow> (nat, string list) gomap \<Rightarrow> int \<Rightarrow> vqueue \<Rightarrow> queue_manager \<Rightarrow> monitor \<Rightarrow> nat \<Rightarrow>
   queue_manager \<times> monitor \<times> nat" where
  "process_queue now maxQueueID domainsToClear queueID vq g m n =
     (if queueID \<ge> maxQueueID then
        let (vq', cancelled, m') = ClearSlices (\<lambda>s. map_of domainsToClear (sid s) \<noteq> None) vq m;
            cleared = (\<exists>s \<in> set (virtualSlices vq). map_of domainsToClear (sid s) \<noteq> None);
            vq'' = (if cleared then vq_Pause now clearSliceThrottleDuration vq' else vq')
        in (put_queue queueID vq'' g, m', n)
      else
        let (vq', (n1, slicesToMove), m1) = SplitSlices (split_domains domainsToClear) vq (n, []) m;
            g1 = put_queue queueID vq' g in
        if length slicesToMove > 0 then
          let (nextQueue, g2) = GetOrCreateVirtualQueue (queueID + 1) g1;
              (nextQueue', m2, n2) =
                MergeSlices n1 slicesToMove (vq_Pause now clearSliceThrottleDuration nextQueue) m1
          in (put_queue (queueID + 1) nextQueue' g2, m2, n2)
        else (g1, m1, n1))"

fun process_queues ::
  "int \<Rightarrow> int \<Rightarrow> (nat, string list) gomap \<Rightarrow> int list \<Rightarrow> queue_manager \<Rightarrow> monitor \<Rightarrow> nat \<Rightarrow>
   queue_manager \<times> monitor \<times> nat" where
  "process_queues now maxQueueID domainsToClear [] g m n = (g, m, n)"
| "process_queues now maxQueueID domainsToClear (queueID # order) g m n =
     (case map_of (virtualQueues g) queueID of
        None \<Rightarrow> process_queues now maxQueueID domainsToClear order g m n
      | Some vq \<Rightarrow>
          let (g', m', n') = process_queue now maxQueueID domainsToClear queueID vq g m n
          in process_queues now maxQueueID domainsToClear order g' m' n')"

definition processQueueSplitsAndClear ::
  "int \<Rightarrow> int \<Rightarrow> int list \<Rightarrow> (nat, string list) gomap \<Rightarrow> queue_manager \<Rightarrow> monitor \<Rightarrow> nat \<Rightarrow>
   queue_manager \<times> monitor \<times> nat" where
  "processQueueSplitsAndClear now MaxVirtualQueueCount order domainsToClear g m n =
     process_queues now (MaxVirtualQueueCount - 1) domainsToClear order g m n"

text \<open>
  \<open>targetLoadFactor\<close> is 0.8; the critical count of an alert is positive, so the truncation of the
  product is the integer quotient.
\<close>

definition targetPendingTaskCount :: "int \<Rightarrow> int" where
  "targetPendingTaskCount critical = 4 * critical div 5"

fun update_all :: "(int \<times> vqueue) list \<Rightarrow> monitor \<Rightarrow> (int, vqueue) gomap \<times> monitor" where
  "update_all [] m = ([], m)"
| "update_all ((k, vq) # rest) m =
     (let (vq', states, m1) = vq_UpdateAndGetState vq m; (qs, m2) = update_all rest m1
      in ((k, vq') # qs, m2))"

definition handleQueuePendingTaskCount ::
  "int \<Rightarrow> int \<Rightarrow> int list \<Rightarrow> Alert \<Rightarrow> queue_manager \<Rightarrow> monitor \<Rightarrow> nat \<Rightarrow> queue_manager \<times> monitor \<times> nat" where
  "handleQueuePendingTaskCount now MaxVirtualQueueCount order alert g m n =
     (let (qs, m1) = update_all (virtualQueues g) m;
          g1 = g\<lparr>virtualQueues := qs\<rparr> in
      if GetTotalPendingTaskCount m1 \<le> CriticalPendingTaskCount (alert_Attributes alert) then (g1, m1, n)
      else
        let st = collectPendingTaskStats g1;
            target = targetPendingTaskCount (CriticalPendingTaskCount (alert_Attributes alert));
            domainsToClear = findDomainsToClear st target
        in processQueueSplitsAndClear now MaxVirtualQueueCount order domainsToClear g1 m1 n)"

definition Mitigate ::
  "int \<Rightarrow> int \<Rightarrow> int list \<Rightarrow> Alert \<Rightarrow> queue_manager \<Rightarrow> monitor \<Rightarrow> nat \<Rightarrow> queue_manager \<times> monitor \<times> nat" where
  "Mitigate now MaxVirtualQueueCount order alert g m n =
     (if alert_AlertType alert \<noteq> AlertTypeQueuePendingTaskCount then (g, m, n)
      else
        let (g', m', n') = handleQueuePendingTaskCount now MaxVirtualQueueCount order alert g m n
        in (g', ResolveAlert (alert_AlertType alert) m', n'))"

text \<open>The loop stops when enough is cleared or when there is no domain left to clear.\<close>

lemma find_domains_loop_stops:
  assumes "find_domains_loop perSlice target pq tot perDomain sl acc = (acc', tot', pq')"
  shows "tot' \<le> target \<or> pq' = []"
  using assms
proof (induction perSlice target pq tot perDomain sl acc rule: find_domains_loop.induct)
  case (1 perSlice target pq tot perDomain sl acc)
  show ?case
  proof (cases "tot > target \<and> \<not> pq_IsEmpty pq")
    case True
    then have "pq \<noteq> []" by (auto simp: pq_IsEmpty_def)
    then obtain domain pq1 where r: "pq_Remove (\<lambda>a b. gm_int perDomain a > gm_int perDomain b) pq = Inr (domain, pq1)"
      using pq_Remove_mset by blast
    show ?thesis
      using 1(1-3) [OF True r] 1(4) True r
      by (subst (asm) (4) find_domains_loop.simps) (auto simp: Let_def split: option.splits list.splits)
  next
    case False
    then show ?thesis using 1(4) by (subst (asm) find_domains_loop.simps) (auto simp: pq_IsEmpty_def)
  qed
qed

end
