(* ===== verification/History_Queue.thy ===== *)
theory History_Queue
  imports Queue_Mitigator
begin

text \<open>
  The history queues on top of the virtual queues (\<open>service/history/queuev2/queue_base.go\<close>,
  \<open>queue_immediate.go\<close>, \<open>queue_scheduled.go\<close>): they admit new tasks, compute the level up to
  which all tasks are processed, delete the tasks below it and persist the state of the queue.

  What the shard answers, the configuration and the clock are the record \<open>base_env\<close>; the store of
  the history tasks is a state \<open>'d\<close> with the operation \<open>complete\<close>. One iteration of an event loop
  is a step function over the event that was received.
\<close>

section \<open>The common part\<close>

record queue_base =
  qb_category :: task_category
  qb_manager :: queue_manager
  qb_monitor :: monitor
  exclusiveAckLevel :: htask_key
  newVirtualSliceState :: slice_state
  updateTimerArmed :: bool
  shard_QueueState :: p_QueueState
  qb_free :: nat

record 'd base_env =
  env_maxReadLevel :: htask_key
  env_now :: int
  VirtualSliceForceAppendInterval :: int
  MaxVirtualQueueCount :: int
  env_order :: "int list"
  DeleteBatchSize :: "nat \<Rightarrow> int"
  env_shardID :: int
  env_complete :: "'d \<Rightarrow> RangeCompleteHistoryTaskRequest \<Rightarrow> ('d \<times> int) result"
  env_UpdateQueueState_ok :: bool

definition alertChSize :: nat where
  "alertChSize = 10"

definition getExclusiveAckLevelAndMaxQueueIDFromQueueState :: "queue_state \<Rightarrow> htask_key \<times> int" where
  "getExclusiveAckLevelAndMaxQueueIDFromQueueState state =
     fold (\<lambda>(queueID, virtualQueueState) (newExclusiveAckLevel, maxQueueID).
             (if length virtualQueueState \<noteq> 0
              then MinHistoryTaskKey newExclusiveAckLevel
                     (InclusiveMinTaskKey (ss_Range (hd virtualQueueState)))
              else newExclusiveAckLevel,
              max maxQueueID queueID))
       (VirtualQueueStates state) (ExclusiveMaxReadLevel state, 0)"

definition newQueueBase :: "task_category \<Rightarrow> MonitorOptions \<Rightarrow> nat \<Rightarrow> p_QueueState \<Rightarrow> queue_base result" where
  "newQueueBase category opts n persisted =
     rbind (FromPersistenceQueueState persisted) (\<lambda>queueState.
       let (g, n') = NewVirtualQueueManager n (VirtualQueueStates queueState) in
       Ok \<lparr>qb_category = category, qb_manager = g, qb_monitor = NewMonitor opts,
           exclusiveAckLevel = fst (getExclusiveAckLevelAndMaxQueueIDFromQueueState queueState),
           newVirtualSliceState =
             \<lparr>ss_Range = \<lparr>InclusiveMinTaskKey = ExclusiveMaxReadLevel queueState,
                          ExclusiveMaxTaskKey = MaximumHistoryTaskKey\<rparr>,
              ss_Predicate = NewUniversalPredicate\<rparr>,
           updateTimerArmed = False, shard_QueueState = persisted, qb_free = n'\<rparr>)"

definition qb_Start :: "queue_base \<Rightarrow> queue_base" where
  "qb_Start q =
     q\<lparr>qb_manager := mgr_Start (qb_manager q), updateTimerArmed := True,
       qb_monitor := mon_Subscribe \<lparr>ch_cap = alertChSize, ch_buf = []\<rparr> (qb_monitor q)\<rparr>"

definition qb_Stop :: "queue_base \<Rightarrow> queue_base" where
  "qb_Stop q =
     q\<lparr>qb_monitor := mon_Unsubscribe (qb_monitor q), updateTimerArmed := False,
       qb_manager := fst (mgr_Stop (qb_manager q))\<rparr>"

definition new_max_key :: "task_category \<Rightarrow> htask_key \<Rightarrow> htask_key" where
  "new_max_key category k =
     (if category_Type category = HistoryTaskCategoryTypeImmediate
      then NewImmediateTaskKey (wrap64 (taskID k + 1)) else k)"

definition processNewTasks :: "('d, 'z) base_env_scheme \<Rightarrow> queue_base \<Rightarrow> bool \<times> queue_base" where
  "processNewTasks env q =
     (case state_TrySplitByTaskKey (newVirtualSliceState q) (new_max_key (qb_category q) (env_maxReadLevel env)) of
        None \<Rightarrow> (False, q)
      | Some (newState, remaining) \<Rightarrow>
          let newVirtualSlice = NewVirtualSlice (qb_free q) newState NewPendingTaskTracker;
              (g, m, n) = AddNewVirtualSliceToRootQueue (env_now env) (VirtualSliceForceAppendInterval env)
                (Suc (qb_free q)) newVirtualSlice (qb_manager q) (qb_monitor q)
          in (True, q\<lparr>newVirtualSliceState := remaining, qb_manager := g, qb_monitor := m, qb_free := n\<rparr>))"

text \<open>
  Deleting in batches: the first component is whether the loop ended without an error. The batch
  size is read anew in each iteration, so the request is the one of the iteration.
\<close>

partial_function (option) complete_loop ::
  "('d \<Rightarrow> RangeCompleteHistoryTaskRequest \<Rightarrow> ('d \<times> int) result) \<Rightarrow> (nat \<Rightarrow> RangeCompleteHistoryTaskRequest) \<Rightarrow>
   nat \<Rightarrow> 'd \<Rightarrow> (bool \<times> 'd) option" where
  "complete_loop complete req i d =
     (case complete d (req i) of
        Inl err \<Rightarrow> Some (False, d)
      | Inr (d', TasksCompleted) \<Rightarrow>
          if \<not> HasMoreRowsToDelete TasksCompleted (rc_PageSize (req i)) then Some (True, d')
          else complete_loop complete req (Suc i) d')"

definition complete_request ::
  "('d, 'z) base_env_scheme \<Rightarrow> task_category \<Rightarrow> htask_key \<Rightarrow> htask_key \<Rightarrow> nat \<Rightarrow> RangeCompleteHistoryTaskRequest" where
  "complete_request env category lo hi i =
     (let scheduled = category_Type category = HistoryTaskCategoryTypeScheduled in
      \<lparr>rc_ShardID = Some (env_shardID env), rc_TaskCategory = category,
       rc_InclusiveMinTaskKey = (if scheduled then NewHistoryTaskKey (scheduledTime lo) 0 else lo),
       rc_ExclusiveMaxTaskKey = (if scheduled then NewHistoryTaskKey (scheduledTime hi) 0 else hi),
       rc_PageSize = DeleteBatchSize env i\<rparr>)"

definition store_state :: "('d, 'z) base_env_scheme \<Rightarrow> queue_state \<Rightarrow> queue_base \<Rightarrow> queue_base" where
  "store_state env queueState q =
     (let q' = (if env_UpdateQueueState_ok env
                then q\<lparr>shard_QueueState := ToPersistenceQueueState queueState\<rparr> else q)
      in q'\<lparr>updateTimerArmed := True\<rparr>)"

definition updateQueueState ::
  "('d, 'z) base_env_scheme \<Rightarrow> 'd \<Rightarrow> queue_base \<Rightarrow> ('d \<times> queue_base) option" where
  "updateQueueState env d q =
     (let (g, states, m) = mgr_UpdateAndGetState (qb_manager q) (qb_monitor q);
          q1 = q\<lparr>qb_manager := g, qb_monitor := m\<rparr>;
          queueState = \<lparr>VirtualQueueStates = states,
                        ExclusiveMaxReadLevel = InclusiveMinTaskKey (ss_Range (newVirtualSliceState q))\<rparr>;
          newExclusiveAckLevel = fst (getExclusiveAckLevelAndMaxQueueIDFromQueueState queueState) in
      if Compare newExclusiveAckLevel (exclusiveAckLevel q1) > 0 then
        (case complete_loop (env_complete env)
                (complete_request env (qb_category q1) (exclusiveAckLevel q1) newExclusiveAckLevel) 0 d of
           None \<Rightarrow> None
         | Some (False, d') \<Rightarrow> Some (d', q1\<lparr>updateTimerArmed := True\<rparr>)
         | Some (True, d') \<Rightarrow>
             Some (d', store_state env queueState (q1\<lparr>exclusiveAckLevel := newExclusiveAckLevel\<rparr>)))
      else Some (d, store_state env queueState q1))"

definition handleAlert ::
  "('d, 'z) base_env_scheme \<Rightarrow> Alert option \<Rightarrow> 'd \<Rightarrow> queue_base \<Rightarrow> ('d \<times> queue_base) option" where
  "handleAlert env alert d q =
     (case alert of None \<Rightarrow> Some (d, q)
      | Some a \<Rightarrow>
          let (g, m, n) = Mitigate (env_now env) (MaxVirtualQueueCount env) (env_order env) a
                            (qb_manager q) (qb_monitor q) (qb_free q)
          in updateQueueState env d (q\<lparr>qb_manager := g, qb_monitor := m, qb_free := n\<rparr>))"

text \<open>Receiving from the channel of the alerts.\<close>

definition recv_alert :: "queue_base \<Rightarrow> (Alert \<times> queue_base) option" where
  "recv_alert q =
     (case mon_subscriber (qb_monitor q) of None \<Rightarrow> None
      | Some ch \<Rightarrow>
          map_option (\<lambda>(a, ch'). (a, q\<lparr>qb_monitor := (qb_monitor q)\<lparr>mon_subscriber := Some ch'\<rparr>\<rparr>)) (try_recv ch))"

section \<open>The immediate queue\<close>

record immediate_queue =
  iq_base :: queue_base
  iq_status :: daemon_status
  iq_notified :: bool
  lastPollTime :: int
  pollTimerArmed :: bool
  iq_cancelled :: bool

record 'd iq_env = "'d base_env" +
  iq_PollBackoffInterval :: int

datatype iq_event = NotifyCh | PollTimer | UpdateQueueStateTimer | AlertCh | CtxDone

definition iq_notify :: "immediate_queue \<Rightarrow> immediate_queue" where
  "iq_notify q = q\<lparr>iq_notified := True\<rparr>"

definition newImmediateQueue :: "queue_base \<Rightarrow> immediate_queue" where
  "newImmediateQueue b =
     \<lparr>iq_base = b, iq_status = DaemonStatusInitialized, iq_notified = False, lastPollTime = zeroTime,
      pollTimerArmed = False, iq_cancelled = False\<rparr>"

text \<open>The event loop arms the poll timer before its first iteration.\<close>

definition iq_Start :: "immediate_queue \<Rightarrow> immediate_queue" where
  "iq_Start q =
     (if iq_status q \<noteq> DaemonStatusInitialized then q
      else iq_notify (q\<lparr>iq_status := DaemonStatusStarted, iq_base := qb_Start (iq_base q),
                        pollTimerArmed := True\<rparr>))"

definition iq_Stop :: "immediate_queue \<Rightarrow> immediate_queue" where
  "iq_Stop q =
     (if iq_status q \<noteq> DaemonStatusStarted then q
      else q\<lparr>iq_status := DaemonStatusStopped, iq_cancelled := True, pollTimerArmed := False,
             iq_base := qb_Stop (iq_base q)\<rparr>)"

definition iq_NotifyNewTask :: "ptask list \<Rightarrow> immediate_queue \<Rightarrow> immediate_queue" where
  "iq_NotifyNewTask tasks q = (if length tasks = 0 then q else iq_notify q)"

definition processPollTimer :: "'d iq_env \<Rightarrow> immediate_queue \<Rightarrow> immediate_queue" where
  "processPollTimer env q =
     (let q1 = (if lastPollTime q + iq_PollBackoffInterval env < env_now env
                then q\<lparr>iq_base := snd (processNewTasks env (iq_base q)), lastPollTime := env_now env\<rparr>
                else q)
      in q1\<lparr>pollTimerArmed := True\<rparr>)"

text \<open>An event is received only if it is there.\<close>

definition iq_step :: "'d iq_env \<Rightarrow> iq_event \<Rightarrow> 'd \<Rightarrow> immediate_queue \<Rightarrow> ('d \<times> immediate_queue) option" where
  "iq_step env ev d q =
     (case ev of
        NotifyCh \<Rightarrow>
          if \<not> iq_notified q then None
          else Some (d, q\<lparr>iq_notified := False, iq_base := snd (processNewTasks env (iq_base q)),
                          lastPollTime := env_now env\<rparr>)
      | PollTimer \<Rightarrow>
          if \<not> pollTimerArmed q then None else Some (d, processPollTimer env (q\<lparr>pollTimerArmed := False\<rparr>))
      | UpdateQueueStateTimer \<Rightarrow>
          if \<not> updateTimerArmed (iq_base q) then None
          else map_option (\<lambda>(d', b). (d', q\<lparr>iq_base := b\<rparr>))
                 (updateQueueState env d ((iq_base q)\<lparr>updateTimerArmed := False\<rparr>))
      | AlertCh \<Rightarrow>
          (case recv_alert (iq_base q) of None \<Rightarrow> None
           | Some (a, b) \<Rightarrow>
               map_option (\<lambda>(d', b'). (d', q\<lparr>iq_base := b'\<rparr>)) (handleAlert env (Some a) d b))
      | CtxDone \<Rightarrow> if iq_cancelled q then Some (d, q\<lparr>pollTimerArmed := False\<rparr>) else None)"

section \<open>The scheduled queue\<close>

text \<open>The timer gate of \<open>common/clock\<close> is a parameter, used through \<open>Update\<close>.\<close>

record 'g scheduled_queue =
  sq_base :: queue_base
  sq_status :: daemon_status
  sq_nextTime :: int
  sq_newTimer :: bool
  timerGate :: 'g
  sq_cancelled :: bool

definition newScheduledQueue :: "'g \<Rightarrow> queue_base \<Rightarrow> 'g scheduled_queue" where
  "newScheduledQueue gate b =
     \<lparr>sq_base = b, sq_status = DaemonStatusInitialized, sq_nextTime = zeroTime, sq_newTimer = False,
      timerGate = gate, sq_cancelled = False\<rparr>"

definition sq_notify :: "int \<Rightarrow> 'g scheduled_queue \<Rightarrow> 'g scheduled_queue" where
  "sq_notify t q =
     (if sq_nextTime q = zeroTime \<or> t < sq_nextTime q then q\<lparr>sq_nextTime := t, sq_newTimer := True\<rparr> else q)"

definition sq_Start :: "'g scheduled_queue \<Rightarrow> 'g scheduled_queue" where
  "sq_Start q =
     (if sq_status q \<noteq> DaemonStatusInitialized then q
      else sq_notify zeroTime (q\<lparr>sq_status := DaemonStatusStarted, sq_base := qb_Start (sq_base q)\<rparr>))"

definition sq_Stop :: "('g \<Rightarrow> 'g) \<Rightarrow> 'g scheduled_queue \<Rightarrow> 'g scheduled_queue" where
  "sq_Stop gate_Stop q =
     (if sq_status q \<noteq> DaemonStatusStarted then q
      else q\<lparr>sq_status := DaemonStatusStopped, sq_cancelled := True, timerGate := gate_Stop (timerGate q),
             sq_base := qb_Stop (sq_base q)\<rparr>)"

definition sq_NotifyNewTask :: "ptask list \<Rightarrow> 'g scheduled_queue \<Rightarrow> 'g scheduled_queue" where
  "sq_NotifyNewTask tasks q =
     (case tasks of [] \<Rightarrow> q
      | t # ts \<Rightarrow>
          sq_notify (fold (\<lambda>t next. if task_VisibilityTimestamp t < next then task_VisibilityTimestamp t else next)
                       ts (task_VisibilityTimestamp t)) q)"

definition processNextTime :: "(int \<Rightarrow> 'g \<Rightarrow> 'g) \<Rightarrow> 'g scheduled_queue \<Rightarrow> 'g scheduled_queue" where
  "processNextTime gate_Update q =
     q\<lparr>timerGate := gate_Update (sq_nextTime q) (timerGate q), sq_nextTime := zeroTime\<rparr>"

definition lookAheadTask ::
  "(int \<Rightarrow> 'g \<Rightarrow> 'g) \<Rightarrow> (htask_key \<Rightarrow> LookAHeadResponse result) \<Rightarrow> 'g scheduled_queue \<Rightarrow> 'g scheduled_queue" where
  "lookAheadTask gate_Update LookAHead q =
     (let lo = InclusiveMinTaskKey (ss_Range (newVirtualSliceState (sq_base q))) in
      case LookAHead lo of
        Inl err \<Rightarrow> q\<lparr>timerGate := gate_Update (scheduledTime lo) (timerGate q)\<rparr>
      | Inr resp \<Rightarrow>
          (case la_Task resp of
             Some t \<Rightarrow> q\<lparr>timerGate := gate_Update (task_VisibilityTimestamp t) (timerGate q)\<rparr>
           | None \<Rightarrow> q\<lparr>timerGate := gate_Update (la_LookAheadMaxTime resp) (timerGate q)\<rparr>))"

datatype sq_event = NewTimerCh | TimerGateCh | SqUpdateTimer | SqAlertCh | SqCtxDone

definition sq_step ::
  "('d, 'z) base_env_scheme \<Rightarrow> (int \<Rightarrow> 'g \<Rightarrow> 'g) \<Rightarrow> (htask_key \<Rightarrow> LookAHeadResponse result) \<Rightarrow> sq_event \<Rightarrow> 'd \<Rightarrow>
   'g scheduled_queue \<Rightarrow> ('d \<times> 'g scheduled_queue) option" where
  "sq_step env gate_Update LookAHead ev d q =
     (case ev of
        NewTimerCh \<Rightarrow>
          if \<not> sq_newTimer q then None else Some (d, processNextTime gate_Update (q\<lparr>sq_newTimer := False\<rparr>))
      | TimerGateCh \<Rightarrow>
          Some (d, lookAheadTask gate_Update LookAHead (q\<lparr>sq_base := snd (processNewTasks env (sq_base q))\<rparr>))
      | SqUpdateTimer \<Rightarrow>
          if \<not> updateTimerArmed (sq_base q) then None
          else map_option (\<lambda>(d', b). (d', q\<lparr>sq_base := b\<rparr>))
                 (updateQueueState env d ((sq_base q)\<lparr>updateTimerArmed := False\<rparr>))
      | SqAlertCh \<Rightarrow>
          (case recv_alert (sq_base q) of None \<Rightarrow> None
           | Some (a, b) \<Rightarrow>
               map_option (\<lambda>(d', b'). (d', q\<lparr>sq_base := b'\<rparr>)) (handleAlert env (Some a) d b))
      | SqCtxDone \<Rightarrow> if sq_cancelled q then Some (d, q) else None)"

end
