(* ===== verification/History_Queue_Inv.thy ===== *)
theory History_Queue_Inv
  imports History_Queue
begin

text \<open>
  The acknowledgement level of a history queue: it never passes a task that is still to be
  processed, so the range deletion of \<open>updateQueueState\<close> deletes processed tasks only, and the
  deletion loop ends.
\<close>

section \<open>The acknowledgement level\<close>

lemma Min_insert_min:
  fixes a x :: "'a :: linorder"
  shows "finite A \<Longrightarrow> Min (insert (min a x) A) = Min (insert a (insert x A))"
  by (cases "A = {}") (simp_all add: min.assoc)

lemma ack_fold:
  "fst (fold (\<lambda>(queueID, ss) (lvl, maxID).
      (if length ss \<noteq> 0 then MinHistoryTaskKey lvl (InclusiveMinTaskKey (ss_Range (hd ss))) else lvl,
       max maxID queueID)) states (lvl, i)) =
     Min (insert lvl {InclusiveMinTaskKey (ss_Range (hd ss)) | ss. ss \<in> snd ` set states \<and> ss \<noteq> []})"
proof (induction states arbitrary: lvl i)
  case (Cons e states)
  obtain k ss where e: "e = (k, ss)" by force
  let ?lo = "\<lambda>ss. InclusiveMinTaskKey (ss_Range (hd ss))"
  let ?A = "{?lo ss | ss. ss \<in> snd ` set states \<and> ss \<noteq> []}"
  have fin: "finite ?A" by simp
  have eq: "{?lo ss | ss. ss \<in> snd ` set (e # states) \<and> ss \<noteq> []} =
      (if ss \<noteq> [] then insert (?lo ss) ?A else ?A)"
    by (auto simp: e)
  have m: "MinHistoryTaskKey lvl x = min lvl x" for x
    by (simp add: MinHistoryTaskKey_def Compare_iff min_def)
  have "Min (insert (min lvl x) ?A) = Min (insert lvl (insert x ?A))" for x
    by (rule Min_insert_min [OF fin])
  then show ?case
    using Cons [of _ "max i k"] unfolding eq by (auto simp: e m)
qed simp

lemma ack_level_Min:
  "fst (getExclusiveAckLevelAndMaxQueueIDFromQueueState st) =
     Min (insert (ExclusiveMaxReadLevel st)
       {InclusiveMinTaskKey (ss_Range (hd ss)) | ss. ss \<in> snd ` set (VirtualQueueStates st) \<and> ss \<noteq> []})"
  unfolding getExclusiveAckLevelAndMaxQueueIDFromQueueState_def by (rule ack_fold)

lemma ack_level_bounds:
  shows "fst (getExclusiveAckLevelAndMaxQueueIDFromQueueState st) \<le> ExclusiveMaxReadLevel st"
    and "(k, ss) \<in> set (VirtualQueueStates st) \<Longrightarrow> ss \<noteq> [] \<Longrightarrow>
      fst (getExclusiveAckLevelAndMaxQueueIDFromQueueState st) \<le> InclusiveMinTaskKey (ss_Range (hd ss))"
    and "fst (getExclusiveAckLevelAndMaxQueueIDFromQueueState st) = ExclusiveMaxReadLevel st \<or>
      (\<exists>k ss. (k, ss) \<in> set (VirtualQueueStates st) \<and> ss \<noteq> [] \<and>
        fst (getExclusiveAckLevelAndMaxQueueIDFromQueueState st) = InclusiveMinTaskKey (ss_Range (hd ss)))"
proof -
  let ?A = "{InclusiveMinTaskKey (ss_Range (hd ss)) | ss. ss \<in> snd ` set (VirtualQueueStates st) \<and> ss \<noteq> []}"
  have fin: "finite (insert (ExclusiveMaxReadLevel st) ?A)" by simp
  show "fst (getExclusiveAckLevelAndMaxQueueIDFromQueueState st) \<le> ExclusiveMaxReadLevel st"
    unfolding ack_level_Min using fin by (intro Min_le) auto
  show "fst (getExclusiveAckLevelAndMaxQueueIDFromQueueState st) \<le> InclusiveMinTaskKey (ss_Range (hd ss))"
    if "(k, ss) \<in> set (VirtualQueueStates st)" "ss \<noteq> []"
    unfolding ack_level_Min using fin that by (intro Min_le) force+
  have "Min (insert (ExclusiveMaxReadLevel st) ?A) \<in> insert (ExclusiveMaxReadLevel st) ?A"
    using fin by (intro Min_in) auto
  then show "fst (getExclusiveAckLevelAndMaxQueueIDFromQueueState st) = ExclusiveMaxReadLevel st \<or>
      (\<exists>k ss. (k, ss) \<in> set (VirtualQueueStates st) \<and> ss \<noteq> [] \<and>
        fst (getExclusiveAckLevelAndMaxQueueIDFromQueueState st) = InclusiveMinTaskKey (ss_Range (hd ss)))"
    unfolding ack_level_Min by force
qed

section \<open>The slices after an update\<close>

text \<open>An update moves the first keys up and keeps the last ones, so sorted slices stay sorted.\<close>

lemma sorted_update:
  assumes rk: "reader_keys key_ok pos_ok" and inv: "\<forall>s \<in> set ss. slice_inv key_ok pos_ok todo s"
    and srt: "slices_sorted ss" and r: "update_slices ss e m = (ss', states, e', m')"
  shows "slices_sorted ss'"
proof -
  have up: "vs_hi (fst (UpdateAndGetState s)) = vs_hi s \<and> vs_lo s \<le> vs_lo (fst (UpdateAndGetState s))"
    if "s \<in> set ss" for s
    using inv that UpdateAndGetState_simps [of key_ok pos_ok todo s] new_lo_bounds(1) [OF _ _ rk, of s todo]
    by (auto simp: slice_inv_def)
  have "sorted_wrt (\<lambda>x y. vs_hi (fst (UpdateAndGetState x)) \<le> vs_lo (fst (UpdateAndGetState y))) ss"
  proof (rule sorted_wrt_mono_rel [OF _ srt [unfolded slices_sorted_def]])
    fix x y assume "x \<in> set ss" "y \<in> set ss" "vs_hi x \<le> vs_lo y"
    then show "vs_hi (fst (UpdateAndGetState x)) \<le> vs_lo (fst (UpdateAndGetState y))"
      using up [of x] up [of y] order_trans by auto
  qed
  then show ?thesis
    unfolding update_slices_eq(1) [OF r] slices_sorted_def
    by (intro sorted_wrt_filter) (simp add: sorted_wrt_map)
qed

lemma sorted_first_least:
  assumes "slices_sorted ss" "\<forall>s \<in> set ss. vs_lo s \<le> vs_hi s" "s \<in> set ss"
  shows "vs_lo (hd ss) \<le> vs_lo s"
proof (cases ss)
  case (Cons x xs)
  then show ?thesis
    using assms order_trans [of "vs_lo x" "vs_hi x" "vs_lo s"]
    by (auto simp: slices_sorted_behind behind_def)
qed (use assms in simp)

lemma update_queues_sorted:
  assumes rk: "reader_keys key_ok pos_ok"
    and inv: "\<forall>s \<in> set (all_slices qs). slice_inv key_ok pos_ok todo s"
    and srt: "\<forall>(k, vq) \<in> set qs. slices_sorted (virtualSlices vq)"
    and r: "update_queues qs m = (qs', states, cancelled, m')"
  shows "\<forall>(k, vq) \<in> set qs'. slices_sorted (virtualSlices vq)"
  using inv srt r
proof (induction qs arbitrary: m qs' states cancelled m')
  case (Cons e qs)
  obtain k vq where e: "e = (k, vq)" by force
  obtain vq1 st m1 where u: "vq_UpdateAndGetState vq m = (vq1, st, m1)" by (metis prod_cases3)
  obtain qs2 states2 c2 m2 where r2: "update_queues qs m1 = (qs2, states2, c2, m2)"
    by (metis prod_cases4)
  obtain p where up: "update_slices (virtualSlices vq) (sliceToRead vq) m = (virtualSlices vq1, st, p, m1)"
    using vq_UpdateAndGetState_eq(1) [OF u] by blast
  have iv: "\<forall>s \<in> set (virtualSlices vq). slice_inv key_ok pos_ok todo s"
    and iq: "\<forall>s \<in> set (all_slices qs). slice_inv key_ok pos_ok todo s"
    and sv: "slices_sorted (virtualSlices vq)" and sq: "\<forall>(k, vq) \<in> set qs. slices_sorted (virtualSlices vq)"
    using Cons.prems(1,2) by (auto simp: e)
  have "qs' = (k, vq1) # qs2 \<or> qs' = qs2"
    using Cons.prems(3) u r2 by (auto simp: e Let_def split: if_splits)
  then show ?case
    using Cons.IH [OF iq sq r2] sorted_update [OF rk iv sv up] by auto
qed simp

section \<open>The deletion loop\<close>

lemma length_delete_rows:
  assumes "r \<in> set table" "row_ShardID r = shard" "row_Task r \<in> set ts"
  shows "length (delete_rows shard ts table) < length table"
  unfolding delete_rows_def using assms by (intro length_filter_less [of r]) auto

lemma RangeDelete_progress:
  assumes "RangeDeleteFromTransferTasks db f = Inr (db', n)" "0 < n"
  shows "length (transfer_tasks db') < length (transfer_tasks db)"
proof -
  define hit where "hit = (if tf_PageSize f > 0
    then take (nat (tf_PageSize f)) (select_rows (transfer_tasks db) f) else select_rows (transfer_tasks db) f)"
  have eq: "transfer_tasks db' = delete_rows (tf_ShardID f) hit (transfer_tasks db)" "n = int (length hit)"
    using assms(1) by (auto simp: RangeDeleteFromTransferTasks_def Let_def hit_def)
  obtain t where t: "t \<in> set hit" using eq(2) assms(2) by (cases hit) auto
  then have "t \<in> set (select_rows (transfer_tasks db) f)"
    by (auto simp: hit_def dest: in_set_takeD split: if_splits)
  then obtain r where "r \<in> set (transfer_tasks db)" "row_ShardID r = tf_ShardID f" "row_Task r = t"
    by (auto simp: set_select_rows shard_tasks_def)
  then show ?thesis unfolding eq(1) using t by (intro length_delete_rows) auto
qed

text \<open>
  The loop ends, with an error only if a deletion failed, and keeps every task at or above the
  upper bound of its requests.
\<close>

lemma complete_loop_transfer:
  assumes req: "\<And>i. rc_ShardID (req i) = Some shard" "\<And>i. rc_TaskCategory (req i) = HistoryTaskCategoryTransfer"
    "\<And>i. rc_ExclusiveMaxTaskKey (req i) = hi"
  shows "\<exists>done d'. complete_loop (RangeCompleteHistoryTask sch) req i d = Some (done, d') \<and>
    (db_deletes d \<longrightarrow> done) \<and>
    (\<forall>t \<in> shard_tasks (transfer_tasks d) shard. taskID hi \<le> task_TaskID t \<longrightarrow> t \<in> shard_tasks (transfer_tasks d') shard) \<and>
    shard_tasks (transfer_tasks d') shard \<subseteq> shard_tasks (transfer_tasks d) shard"
proof (induction "length (transfer_tasks d)" arbitrary: i d rule: less_induct)
  case less
  define f where "f = \<lparr>tf_ShardID = shard, tf_InclusiveMinTaskID = taskID (rc_InclusiveMinTaskKey (req i)),
    tf_ExclusiveMaxTaskID = taskID hi, tf_PageSize = rc_PageSize (req i)\<rparr>"
  have c: "RangeCompleteHistoryTask sch d (req i) = RangeDeleteFromTransferTasks d f"
    using req by (simp add: RangeCompleteHistoryTask_def effectiveShardID_def resolveShardID_def
        rangeCompleteImmediateHistoryTask_def f_def)
  show ?case
  proof (cases "RangeDeleteFromTransferTasks d f")
    case (Inl e)
    then have "\<not> db_deletes d"
      by (auto simp: RangeDeleteFromTransferTasks_def db_deletes_def db_result_def Let_def split: option.splits)
    then show ?thesis
      using Inl by (subst complete_loop.simps) (auto simp: c)
  next
    case (Inr x)
    then obtain d1 n where r: "RangeDeleteFromTransferTasks d f = Inr (d1, n)" by (cases x) auto
    have keep: "t \<in> shard_tasks (transfer_tasks d1) shard"
      if "t \<in> shard_tasks (transfer_tasks d) shard" "taskID hi \<le> task_TaskID t" for t
      using RangeDeleteFromTransferTasks_keeps [OF r that(1)] that(2) by (simp add: f_def)
    have sub: "shard_tasks (transfer_tasks d1) shard \<subseteq> shard_tasks (transfer_tasks d) shard"
      and del: "db_deletes d1 = db_deletes d"
      using r by (auto simp: RangeDeleteFromTransferTasks_def Let_def delete_rows_def shard_tasks_def db_deletes_def)
    show ?thesis
    proof (cases "HasMoreRowsToDelete n (rc_PageSize (req i))")
      case True
      then have "0 < n" by (auto simp: HasMoreRowsToDelete_def)
      then have "length (transfer_tasks d1) < length (transfer_tasks d)" using RangeDelete_progress [OF r] by simp
      from less [OF this, of "Suc i"] show ?thesis
        using True keep sub unfolding del by (subst complete_loop.simps) (fastforce simp: c r)
    next
      case False
      then show ?thesis using keep sub by (subst complete_loop.simps) (auto simp: c r)
    qed
  qed
qed

section \<open>The invariant of the queue\<close>

abbreviation qb_slices :: "queue_base \<Rightarrow> vslice list" where
  "qb_slices q \<equiv> all_slices (virtualQueues (qb_manager q))"

abbreviation qb_new_lo :: "queue_base \<Rightarrow> htask_key" where
  "qb_new_lo q \<equiv> InclusiveMinTaskKey (ss_Range (newVirtualSliceState q))"

text \<open>
  Every task to be processed is in the scope of a slice or not yet admitted, and the
  acknowledgement level has not passed it.
\<close>

definition queue_inv ::
  "(htask_key \<Rightarrow> bool) \<Rightarrow> (get_task_progress \<Rightarrow> bool) \<Rightarrow> ptask set \<Rightarrow> queue_base \<Rightarrow> bool" where
  "queue_inv key_ok pos_ok todo q \<longleftrightarrow>
     (\<forall>s \<in> set (qb_slices q). slice_inv key_ok pos_ok todo s) \<and>
     (\<forall>(k, vq) \<in> set (virtualQueues (qb_manager q)). slices_sorted (virtualSlices vq)) \<and>
     key_ok (qb_new_lo q) \<and>
     (\<forall>t \<in> todo. in_scope (qb_slices q) t \<or> qb_new_lo q \<le> GetTaskKey t) \<and>
     (\<forall>t \<in> todo. exclusiveAckLevel q \<le> GetTaskKey t)"

text \<open>The level computed from the updated queues does not pass a task to be processed.\<close>

lemma new_ack_level:
  assumes rk: "reader_keys key_ok pos_ok" and inv: "queue_inv key_ok pos_ok todo q"
    and u: "mgr_UpdateAndGetState (qb_manager q) (qb_monitor q) = (g, states, m)"
    and st: "st = \<lparr>VirtualQueueStates = states, ExclusiveMaxReadLevel = qb_new_lo q\<rparr>"
    and lvl: "lvl = fst (getExclusiveAckLevelAndMaxQueueIDFromQueueState st)"
  shows "\<forall>t \<in> todo. lvl \<le> GetTaskKey t" "key_ok lvl"
    "queue_inv key_ok pos_ok todo (q\<lparr>qb_manager := g, qb_monitor := m\<rparr>)"
    "\<forall>s \<in> set (all_slices (virtualQueues g)). lvl \<le> vs_lo s"
proof -
  obtain qs c where r: "update_queues (virtualQueues (qb_manager q)) (qb_monitor q) = (qs, states, c, m)"
    and g: "virtualQueues g = qs"
    using u by (auto simp: mgr_UpdateAndGetState_def split: prod.splits)
  have iv: "\<forall>s \<in> set (qb_slices q). slice_inv key_ok pos_ok todo s"
    and srt: "\<forall>(k, vq) \<in> set (virtualQueues (qb_manager q)). slices_sorted (virtualSlices vq)"
    using inv by (auto simp: queue_inv_def)
  note ok = update_queues_ok [OF rk iv r] and so = update_queues_sorted [OF rk iv srt r]
  have first: "lvl \<le> vs_lo s" if "(k, vq) \<in> set qs" "s \<in> set (virtualSlices vq)" for k vq s
  proof -
    have "(k, vq_GetState vq) \<in> set states" "vq_GetState vq \<noteq> []"
      using that unfolding ok(4) by (force simp: vq_GetState_def)+
    then have "lvl \<le> vs_lo (hd (virtualSlices vq))"
      using ack_level_bounds(2) [of k "vq_GetState vq" st] that(2)
      by (cases "virtualSlices vq") (auto simp: lvl st vq_GetState_def)
    moreover have "\<forall>x \<in> set (virtualSlices vq). x \<in> set (all_slices qs)"
      using that(1) by (force simp: all_slices_def)
    then have "\<forall>x \<in> set (virtualSlices vq). vs_lo x \<le> vs_hi x"
      using ok(1) by (auto simp: slice_inv_def slice_shape_def)
    then have "vs_lo (hd (virtualSlices vq)) \<le> vs_lo s"
      using so that by (intro sorted_first_least) auto
    ultimately show ?thesis by simp
  qed
  have cov: "in_scope (all_slices qs) t \<or> qb_new_lo q \<le> GetTaskKey t" if "t \<in> todo" for t
    using inv that ok(3) [OF that] by (auto simp: queue_inv_def)
  show "\<forall>t \<in> todo. lvl \<le> GetTaskKey t"
  proof
    fix t assume t: "t \<in> todo"
    show "lvl \<le> GetTaskKey t"
    proof (cases "qb_new_lo q \<le> GetTaskKey t")
      case True
      then show ?thesis using ack_level_bounds(1) [of st] by (simp add: lvl st)
    next
      case False
      then obtain s where s: "s \<in> set (all_slices qs)" "state_Contains (vs_state s) t"
        using cov [OF t] by (auto simp: in_scope_def)
      then obtain k vq where "(k, vq) \<in> set qs" "s \<in> set (virtualSlices vq)" by (auto simp: all_slices_def)
      then show ?thesis using first s(2) by (force simp: state_Contains_iff)
    qed
  qed
  show "key_ok lvl"
  proof (cases "lvl = qb_new_lo q")
    case False
    then obtain k ss where ss: "(k, ss) \<in> set states" "ss \<noteq> []" "lvl = InclusiveMinTaskKey (ss_Range (hd ss))"
      using ack_level_bounds(3) [of st] by (auto simp: lvl st)
    then obtain vq where "(k, vq) \<in> set qs" "ss = vq_GetState vq" unfolding ok(4) by auto
    then have "hd (virtualSlices vq) \<in> set (all_slices qs)" "lvl = vs_lo (hd (virtualSlices vq))"
      using ss by (auto simp: vq_GetState_def all_slices_def hd_map intro!: bexI [of _ "(k, vq)"])
    then show ?thesis using ok(1) by (auto simp: slice_inv_def slice_shape_def)
  qed (use inv in \<open>simp add: queue_inv_def\<close>)
  show "queue_inv key_ok pos_ok todo (q\<lparr>qb_manager := g, qb_monitor := m\<rparr>)"
    using inv ok(1) so cov by (auto simp: queue_inv_def g)
  show "\<forall>s \<in> set (all_slices (virtualQueues g)). lvl \<le> vs_lo s"
    using first by (auto simp: g all_slices_def)
qed

lemma store_state_simps [simp]:
  "qb_manager (store_state env st q) = qb_manager q"
  "newVirtualSliceState (store_state env st q) = newVirtualSliceState q"
  "exclusiveAckLevel (store_state env st q) = exclusiveAckLevel q"
  "updateTimerArmed (store_state env st q)"
  by (simp_all add: store_state_def Let_def)

lemma queue_inv_cong:
  "qb_manager q' = qb_manager q \<Longrightarrow> newVirtualSliceState q' = newVirtualSliceState q \<Longrightarrow>
   \<forall>t \<in> todo. exclusiveAckLevel q' \<le> GetTaskKey t \<Longrightarrow> queue_inv key_ok pos_ok todo q \<Longrightarrow>
   queue_inv key_ok pos_ok todo q'"
  by (simp add: queue_inv_def)

text \<open>
  Only tasks below every slice are deleted, and none that is still to be processed. Unless a
  deletion fails they are below the acknowledgement level.
\<close>

lemma updateQueueState_deletes:
  assumes env: "env_complete env = RangeCompleteHistoryTask sch"
    and cat: "qb_category q = HistoryTaskCategoryTransfer"
    and d: "sql_store_ok (d, env_shardID env)" "todo \<subseteq> shard_tasks (transfer_tasks d) (env_shardID env)"
    and inv: "queue_inv immediate_key sql_pos_ok todo q"
  shows "\<exists>d' q'. updateQueueState env d q = Some (d', q') \<and>
    todo \<subseteq> shard_tasks (transfer_tasks d') (env_shardID env) \<and>
    queue_inv immediate_key sql_pos_ok todo q' \<and> updateTimerArmed q' \<and>
    exclusiveAckLevel q \<le> exclusiveAckLevel q' \<and>
    shard_tasks (transfer_tasks d') (env_shardID env) \<subseteq> shard_tasks (transfer_tasks d) (env_shardID env) \<and>
    (\<forall>t \<in> shard_tasks (transfer_tasks d) (env_shardID env) - shard_tasks (transfer_tasks d') (env_shardID env).
       (db_deletes d \<longrightarrow> GetTaskKey t < exclusiveAckLevel q') \<and> (\<forall>s \<in> set (qb_slices q'). GetTaskKey t < vs_lo s)) \<and>
    (exclusiveAckLevel q' = exclusiveAckLevel q \<or> immediate_key (exclusiveAckLevel q'))"
proof -
  obtain g states m where u: "mgr_UpdateAndGetState (qb_manager q) (qb_monitor q) = (g, states, m)"
    by (metis prod_cases3)
  define st where "st = \<lparr>VirtualQueueStates = states, ExclusiveMaxReadLevel = qb_new_lo q\<rparr>"
  define lvl where "lvl = fst (getExclusiveAckLevelAndMaxQueueIDFromQueueState st)"
  define q1 where "q1 = q\<lparr>qb_manager := g, qb_monitor := m\<rparr>"
  define req where "req = complete_request env (qb_category q1) (exclusiveAckLevel q1) lvl"
  note lv = new_ack_level [OF sql_reader.reader_keys inv u st_def lvl_def, folded q1_def]
  let ?st = "\<lambda>d. shard_tasks (transfer_tasks d) (env_shardID env)"
  have rq: "rc_ShardID (req i) = Some (env_shardID env)" "rc_TaskCategory (req i) = HistoryTaskCategoryTransfer"
    "rc_ExclusiveMaxTaskKey (req i) = lvl" for i
    by (simp_all add: req_def complete_request_def q1_def cat Let_def)
  obtain ended d' where c: "complete_loop (env_complete env) req 0 d = Some (ended, d')" "db_deletes d \<longrightarrow> ended"
    and keep: "\<forall>t \<in> ?st d. taskID lvl \<le> task_TaskID t \<longrightarrow> t \<in> ?st d'" and sub: "?st d' \<subseteq> ?st d"
    using complete_loop_transfer [where req = req and sch = sch and i = 0 and d = d, OF rq] unfolding env by blast
  let ?q2 = "if ended then store_state env st (q1\<lparr>exclusiveAckLevel := lvl\<rparr>) else q1\<lparr>updateTimerArmed := True\<rparr>"
  have eq: "updateQueueState env d q =
      (if lvl > exclusiveAckLevel q1 then Some (d', ?q2) else Some (d, store_state env st q1))"
    unfolding updateQueueState_def u using c(1)
    by (simp add: Let_def q1_def st_def lvl_def req_def Compare_iff)
  have ack1: "exclusiveAckLevel q1 = exclusiveAckLevel q" by (simp add: q1_def)
  show ?thesis
  proof (cases "lvl > exclusiveAckLevel q1")
    case True
    have key: "taskID lvl \<le> task_TaskID t \<longleftrightarrow> lvl \<le> GetTaskKey t" if "t \<in> ?st d" for t
      using that lv(2) d(1) sql_stored_key [of "(d, env_shardID env)" t] immediate_key_less(2) [of lvl "GetTaskKey t"]
      by simp
    then have "todo \<subseteq> ?st d'" using keep lv(1) d(2) by blast
    moreover have "queue_inv immediate_key sql_pos_ok todo ?q2"
      using lv(1,3) by (intro queue_inv_cong [OF _ _ _ lv(3)]) (auto simp: queue_inv_def)
    moreover have below: "GetTaskKey t < lvl" if "t \<in> ?st d - ?st d'" for t
      using keep key that by (auto simp: not_less [symmetric])
    moreover have "\<forall>s \<in> set (qb_slices q1). lvl \<le> vs_lo s" using lv(4) by (simp add: q1_def)
    ultimately show ?thesis using eq True ack1 sub lv(2) c(2) by (auto intro: less_le_trans)
  next
    case False
    moreover have "queue_inv immediate_key sql_pos_ok todo (store_state env st q1)"
      using lv(3) by (intro queue_inv_cong [OF _ _ _ lv(3)]) (simp_all add: queue_inv_def)
    ultimately show ?thesis using eq d(2) ack1 by simp
  qed
qed

lemma updateQueueState_safe:
  assumes "env_complete env = RangeCompleteHistoryTask sch" "qb_category q = HistoryTaskCategoryTransfer"
    "sql_store_ok (d, env_shardID env)" "todo \<subseteq> shard_tasks (transfer_tasks d) (env_shardID env)"
    "queue_inv immediate_key sql_pos_ok todo q"
  shows "\<exists>d' q'. updateQueueState env d q = Some (d', q') \<and>
    todo \<subseteq> shard_tasks (transfer_tasks d') (env_shardID env) \<and>
    queue_inv immediate_key sql_pos_ok todo q' \<and> updateTimerArmed q' \<and>
    exclusiveAckLevel q \<le> exclusiveAckLevel q'"
  using updateQueueState_deletes [OF assms] by blast

end
