(* ===== verification/Cached_Queue.thy ===== *)
theory Cached_Queue
  imports Scheduled_Cache History_Queue_Inv
begin

text \<open>
  A queue with a caching reader (\<open>queue_cached.go\<close>): after every update of the queue's state the
  cache learns the read level, and new tasks go to the cache before the queue is notified.
  The acknowledgement never deletes a task the cache would still return.
\<close>

section \<open>The operations\<close>

definition cq_updateQueueState ::
  "('d, 'z) base_env_scheme \<Rightarrow> 'd \<Rightarrow> queue_base \<Rightarrow> 'y cached_reader_scheme \<Rightarrow>
   ('d \<times> queue_base \<times> 'y cached_reader_scheme) option" where
  "cq_updateQueueState env d q reader =
     (case updateQueueState env d q of None \<Rightarrow> None
      | Some (d', q') \<Rightarrow>
          let readLevel = GetMinReadLevel (qb_manager q');
              readLevel = (if key_Equal readLevel MaximumHistoryTaskKey then exclusiveAckLevel q' else readLevel)
          in Some (d', q', UpdateReadLevel readLevel reader))"

text \<open>Of a notification the caches and queues use the tasks and the error flag.\<close>

record NotifyTaskInfo =
  info_Tasks :: "ptask list"
  info_PersistenceError :: bool

text \<open>The transfer queue with the immediate reader.\<close>

definition cq_NotifyNewTask ::
  "'e reader_env_scheme \<Rightarrow> NotifyTaskInfo \<Rightarrow> immediate_queue \<times> cached_reader \<Rightarrow>
   (immediate_queue \<times> cached_reader) result" where
  "cq_NotifyNewTask env info qr =
     (case qr of (q, reader) \<Rightarrow>
        rbind (if info_PersistenceError info then Ok (cr_Clear no_hooks reader)
               else ir_Inject env (info_Tasks info) reader)
          (\<lambda>reader'. Ok (iq_NotifyNewTask (info_Tasks info) q, reader')))"

definition cq_Start :: "immediate_queue \<times> cached_reader \<Rightarrow> immediate_queue \<times> cached_reader" where
  "cq_Start qr = (iq_Start (fst qr), ir_Start (snd qr))"

definition cq_Stop :: "immediate_queue \<times> cached_reader \<Rightarrow> immediate_queue \<times> cached_reader" where
  "cq_Stop qr = (iq_Stop (fst qr), ir_Stop (snd qr))"

text \<open>The timer queue with the scheduled reader.\<close>

definition csq_NotifyNewTask ::
  "scheduled_env \<Rightarrow> NotifyTaskInfo \<Rightarrow> 'g scheduled_queue \<times> scheduled_reader \<Rightarrow>
   'g scheduled_queue \<times> scheduled_reader" where
  "csq_NotifyNewTask env info qr =
     (sq_NotifyNewTask (info_Tasks info) (fst qr),
      if info_PersistenceError info then cr_Clear sr_hooks (snd qr) else sr_Inject env (info_Tasks info) (snd qr))"

definition csq_Start :: "'g scheduled_queue \<times> scheduled_reader \<Rightarrow> 'g scheduled_queue \<times> scheduled_reader" where
  "csq_Start qr = (sq_Start (fst qr), sr_Start (snd qr))"

definition csq_Stop ::
  "('g \<Rightarrow> 'g) \<Rightarrow> 'g scheduled_queue \<times> scheduled_reader \<Rightarrow> 'g scheduled_queue \<times> scheduled_reader" where
  "csq_Stop gate_Close qr = (sq_Stop gate_Close (fst qr), sr_Stop (snd qr))"

section \<open>The read level is behind everything that was deleted\<close>

lemma GetReadLevel_lo: "slice_shape key_ok pos_ok s \<Longrightarrow> vs_lo s \<le> GetReadLevel s"
  by (cases "progress s") (auto simp: slice_shape_def GetReadLevel_def)

lemma read_level_behind:
  assumes inv: "queue_inv key_ok pos_ok todo q" and del: "\<forall>s \<in> set (qb_slices q). k < vs_lo s"
    and max: "k < MaximumHistoryTaskKey"
  shows "k < GetMinReadLevel (qb_manager q)"
proof -
  have "k < GetReadLevel s" if "s \<in> set (qb_slices q)" for s
  proof -
    have "slice_shape key_ok pos_ok s" using inv that by (simp add: queue_inv_def slice_inv_def)
    then show ?thesis using del that by (blast intro: less_le_trans GetReadLevel_lo)
  qed
  then show ?thesis using max by (simp add: GetMinReadLevel_Min)
qed

lemma immediate_key_max: "immediate_key k \<Longrightarrow> k < MaximumHistoryTaskKey"
  by (auto simp: immediate_key_def MaximumHistoryTaskKey_def less_htask_key_def NewHistoryTaskKey_def
      MaxInt64_def)

lemma read_level_below_max:
  assumes inv: "queue_inv immediate_key sql_pos_ok todo q" and "qb_slices q \<noteq> []"
  shows "GetMinReadLevel (qb_manager q) < MaximumHistoryTaskKey"
proof -
  obtain s where s: "s \<in> set (qb_slices q)" using assms(2) by (meson hd_in_set)
  then have "slice_shape immediate_key sql_pos_ok s" using inv by (simp add: queue_inv_def slice_inv_def)
  then have "immediate_key (GetReadLevel s)"
    by (cases "progress s") (auto simp: slice_shape_def GetReadLevel_def sql_pos_ok_def)
  then have "GetReadLevel s < MaximumHistoryTaskKey" by (rule immediate_key_max)
  moreover have "GetMinReadLevel (qb_manager q) \<le> GetReadLevel s"
    using s by (auto simp: GetMinReadLevel_Min)
  ultimately show ?thesis by simp
qed

text \<open>
  A failed deletion leaves the acknowledgement level behind the tasks that were deleted before the
  failure. Only when there is no slice is that level the one the cache gets.
\<close>

lemma cq_updateQueueState_exact:
  assumes env: "env_complete env = RangeCompleteHistoryTask sch"
    and cat: "qb_category q = HistoryTaskCategoryTransfer"
    and d: "sql_store_ok (d, env_shardID env)" "todo \<subseteq> shard_tasks (transfer_tasks d) (env_shardID env)"
    and inv: "queue_inv immediate_key sql_pos_ok todo q" and ack: "exclusiveAckLevel q < MaximumHistoryTaskKey"
    and ok: "ir_ok (shard_tasks (transfer_tasks d) (env_shardID env)) reader"
  shows "\<exists>d' q' reader'. cq_updateQueueState env d q reader = Some (d', q', reader') \<and>
    (db_deletes d \<or> qb_slices q' \<noteq> [] \<longrightarrow> ir_ok (shard_tasks (transfer_tasks d') (env_shardID env)) reader') \<and>
    todo \<subseteq> shard_tasks (transfer_tasks d') (env_shardID env) \<and>
    queue_inv immediate_key sql_pos_ok todo q' \<and> exclusiveAckLevel q' < MaximumHistoryTaskKey"
proof -
  let ?st = "\<lambda>d. shard_tasks (transfer_tasks d) (env_shardID env)"
  obtain d' q' where u: "updateQueueState env d q = Some (d', q')" and r: "todo \<subseteq> ?st d'"
    "queue_inv immediate_key sql_pos_ok todo q'" "?st d' \<subseteq> ?st d"
    and del: "\<forall>t \<in> ?st d - ?st d'. (db_deletes d \<longrightarrow> GetTaskKey t < exclusiveAckLevel q') \<and>
      (\<forall>s \<in> set (qb_slices q'). GetTaskKey t < vs_lo s)"
    and a: "exclusiveAckLevel q' = exclusiveAckLevel q \<or> immediate_key (exclusiveAckLevel q')"
    using updateQueueState_deletes [OF env cat d inv] by blast
  have a': "exclusiveAckLevel q' < MaximumHistoryTaskKey" using a ack immediate_key_max by auto
  define lvl where "lvl = (if key_Equal (GetMinReadLevel (qb_manager q')) MaximumHistoryTaskKey
    then exclusiveAckLevel q' else GetMinReadLevel (qb_manager q'))"
  have "ir_ok (?st d') (UpdateReadLevel lvl reader)" if c: "db_deletes d \<or> qb_slices q' \<noteq> []"
  proof -
    have "GetTaskKey t < lvl" if t: "t \<in> ?st d - ?st d'" for t
    proof -
      have "immediate_key (GetTaskKey t)" using sql_stored_key [OF d(1)] t by simp
      then have "GetTaskKey t < GetMinReadLevel (qb_manager q')"
        using read_level_behind [OF r(2)] del t immediate_key_max by blast
      then show ?thesis
        using c del t read_level_below_max [OF r(2)] by (auto simp: lvl_def)
    qed
    then have "cache_ok (?st d') (advanceInclusiveLowerBound lvl reader)"
      using ok r(3) by (intro cache_ok_advance) (auto simp: ir_ok_def)
    moreover have "lvl \<noteq> MaximumHistoryTaskKey" using a' by (auto simp: lvl_def)
    ultimately show ?thesis using ok by (simp add: ir_ok_def UpdateReadLevel_def)
  qed
  then show ?thesis
    using u r a' by (simp add: cq_updateQueueState_def Let_def lvl_def)
qed

lemma cq_NotifyNewTask_exact:
  assumes ok: "ir_ok st reader" and st: "inj_on GetTaskKey st" "\<forall>t \<in> st. MinimumHistoryTaskKey < GetTaskKey t"
    and new: "new_tasks st (info_Tasks info)"
    and st': "info_PersistenceError info \<or> st' = st \<union> set (info_Tasks info)"
  shows "\<exists>q' reader'. cq_NotifyNewTask env info (q, reader) = Ok (q', reader') \<and> ir_ok st' reader' \<and>
    (info_Tasks info \<noteq> [] \<longrightarrow> iq_notified q')"
proof (cases "info_PersistenceError info")
  case True
  then show ?thesis
    using cache_ok_clear [of no_hooks st' reader]
    by (simp add: cq_NotifyNewTask_def ir_ok_def cr_Clear_def clearLocked_window iq_NotifyNewTask_def iq_notify_def)
next
  case False
  then show ?thesis
    using ir_Inject_ok [OF ok st(1) new st(2), of env] st'
    by (auto simp: cq_NotifyNewTask_def iq_NotifyNewTask_def iq_notify_def)
qed

end
