(* ===== verification/Sample_Data.thy ===== *)
theory Sample_Data
  imports Slice_Split
begin

text \<open>
  A concrete shard with three transfer tasks of two domains, and a slice over them: the inputs at
  which the properties are exercised.
\<close>

definition sample_task :: "string \<Rightarrow> int \<Rightarrow> ptask" where
  "sample_task d i =
     \<lparr>task_kind = DecisionTask, task_DomainID = d, task_WorkflowID = ''w'', task_RunID = ''r'',
      task_Version = 0, task_TaskID = i, task_VisibilityTimestamp = 7\<rparr>"

definition sample_db :: "sql_db \<times> int" where
  "sample_db =
     (\<lparr>transfer_tasks =
         [\<lparr>row_ShardID = 1, row_Task = sample_task ''a'' 10\<rparr>,
          \<lparr>row_ShardID = 1, row_Task = sample_task ''b'' 20\<rparr>,
          \<lparr>row_ShardID = 1, row_Task = sample_task ''a'' 30\<rparr>],
       replication_tasks = [], select_error = (\<lambda>_. None), decode_error = (\<lambda>_. None),
       delete_error = (\<lambda>_ _. None)\<rparr>, 1)"

text \<open>The same shard when every query times out.\<close>

definition failing_db :: "sql_db \<times> int" where
  "failing_db = ((fst sample_db)\<lparr>select_error := (\<lambda>_. Some ''timeout'')\<rparr>, 1)"

definition sample_state :: slice_state where
  "sample_state =
     \<lparr>ss_Range = \<lparr>InclusiveMinTaskKey = NewImmediateTaskKey 0, ExclusiveMaxTaskKey = NewImmediateTaskKey 100\<rparr>,
      ss_Predicate = UniversalPredicate\<rparr>"

definition sample_slice :: vslice where
  "sample_slice = NewVirtualSlice 0 sample_state NewPendingTaskTracker"

abbreviation no_scheduled :: "GetHistoryTasksRequest \<Rightarrow> int \<Rightarrow> GetHistoryTasksResponse result" where
  "no_scheduled \<equiv> \<lambda>_ _. Err (PersistenceError ''not available'')"

lemma sample_tasks:
  "shard_tasks (transfer_tasks (fst sample_db)) (snd sample_db) =
     {sample_task ''a'' 10, sample_task ''b'' 20, sample_task ''a'' 30}"
  by (force simp: shard_tasks_def sample_db_def)

lemma sample_key [simp]: "GetTaskKey (sample_task d i) = NewImmediateTaskKey i"
  by (simp add: sample_task_def GetTaskKey_def)

lemma immediate_key_New: "immediate_key (NewImmediateTaskKey i) \<longleftrightarrow> 0 \<le> i \<and> i \<le> MaxInt64"
  by (simp add: immediate_key_def NewImmediateTaskKey_def)

lemma NewImmediateTaskKey_order [simp]:
  "NewImmediateTaskKey i \<le> NewImmediateTaskKey j \<longleftrightarrow> i \<le> j"
  "NewImmediateTaskKey i < NewImmediateTaskKey j \<longleftrightarrow> i < j"
  "NewImmediateTaskKey i = NewImmediateTaskKey j \<longleftrightarrow> i = j"
  by (auto simp: NewImmediateTaskKey_def less_eq_htask_key_def less_htask_key_def)

lemma sample_db_ok: "sql_store_ok sample_db"
  unfolding sql_store_ok_def sample_tasks
  by (auto simp: sample_db_def table_wf_def sample_task_def GetTaskCategory_def MaxInt64_def)

lemma sample_db_reads: "db_reads (fst sample_db)"
  by (simp add: db_reads_def sample_db_def)

lemma sample_db_deletes: "db_deletes (fst sample_db)"
  by (simp add: db_deletes_def sample_db_def)

lemma failing_db_simps:
  "shard_tasks (transfer_tasks (fst failing_db)) (snd failing_db) =
     shard_tasks (transfer_tasks (fst sample_db)) (snd sample_db)"
  "sql_store_ok failing_db" "\<not> db_reads (fst failing_db)"
  using sample_db_ok by (simp_all add: failing_db_def sql_store_ok_def db_reads_def sample_db_def)

lemma sample_slice_inv: "slice_inv immediate_key sql_pos_ok todo sample_slice"
  unfolding sample_slice_def
  by (rule slice_inv_NewVirtualSlice [OF _ _ _ _ sql_reader.reader_keys])
    (simp_all add: sample_state_def immediate_key_New MaxInt64_def)

lemma sample_slice_aligned: "aligned sample_slice"
  by (simp add: aligned_def sample_slice_def NewVirtualSlice_def)

lemma sample_slice_simps:
  "vs_state sample_slice = sample_state" "sid sample_slice = 0"
  "pendingTaskTracker sample_slice = NewPendingTaskTracker"
  "progress sample_slice = [mk_progress (NewImmediateTaskKey 0) (NewImmediateTaskKey 100)]"
  by (simp_all add: sample_slice_def NewVirtualSlice_def sample_state_def)

end
