(* ===== verification/Sample_Queue.thy ===== *)
theory Sample_Queue
  imports History_Queue_Inv Sample_Data
begin

text \<open>
  A concrete history queue over the shard of \<open>Sample_Data\<close>, with one virtual queue of one slice,
  and a second slice that is to be merged into it.
\<close>

definition sample_slice2 :: vslice where
  "sample_slice2 =
     NewVirtualSlice 1
       \<lparr>ss_Range = \<lparr>InclusiveMinTaskKey = NewImmediateTaskKey 50, ExclusiveMaxTaskKey = NewImmediateTaskKey 200\<rparr>,
        ss_Predicate = DomainIDPredicate {|''a''|} False\<rparr> NewPendingTaskTracker"

text \<open>A slice of which everything is read and acknowledged, and a queue that is to read it next.\<close>

definition sample_read_slice :: vslice where
  "sample_read_slice = sample_slice\<lparr>progress := []\<rparr>"

definition sample_gap_vq :: vqueue where
  "sample_gap_vq = NewVirtualQueue [sample_read_slice, sample_slice2]"

definition sample_monitor :: monitor where
  "sample_monitor = NewMonitor \<lparr>EnablePendingTaskCountAlert = True, opt_CriticalPendingTaskCount = 2\<rparr>"

definition sample_vq :: vqueue where
  "sample_vq = NewVirtualQueue [sample_slice]"

definition sample_base :: queue_base where
  "sample_base =
     \<lparr>qb_category = HistoryTaskCategoryTransfer,
      qb_manager = \<lparr>mgr_status = DaemonStatusStarted, virtualQueues = [(0, sample_vq)],
                    nextForceNewSliceTime = zeroTime\<rparr>,
      qb_monitor = sample_monitor, exclusiveAckLevel = NewImmediateTaskKey 0,
      newVirtualSliceState =
        \<lparr>ss_Range = \<lparr>InclusiveMinTaskKey = NewImmediateTaskKey 100, ExclusiveMaxTaskKey = MaximumHistoryTaskKey\<rparr>,
         ss_Predicate = UniversalPredicate\<rparr>,
      updateTimerArmed = True,
      shard_QueueState = \<lparr>pq_VirtualQueueStates = [], pq_ExclusiveMaxReadLevel = ToPersistenceTaskKey (NewImmediateTaskKey 0)\<rparr>,
      qb_free = 2\<rparr>"

definition sample_env :: "sql_db base_env" where
  "sample_env =
     \<lparr>env_maxReadLevel = NewImmediateTaskKey 150, env_now = 9, VirtualSliceForceAppendInterval = 60,
      MaxVirtualQueueCount = 2, env_order = [0], DeleteBatchSize = (\<lambda>_. 2), env_shardID = 1,
      env_complete = RangeCompleteHistoryTask (\<lambda>_ _ _. Err (PersistenceError ''not available'')),
      env_UpdateQueueState_ok = True\<rparr>"

definition sample_load_env :: load_env where
  "sample_load_env =
     \<lparr>PageSize = 2, MaxPendingTasksCount = 10, PollBackoffInterval = 5, le_limiterErr = False,
      le_ctxDone = False, le_pauseNow = 9, le_now = 9, le_throttleNow = (\<lambda>_. 9),
      le_reader = sql_get_task no_scheduled sample_db, le_taskInitializer = NewHistoryTaskV2 9,
      TrySubmit = (\<lambda>t. (ht_domain t = ''a'', False))\<rparr>"

lemma sample_mergeable: "mergeable immediate_key sql_pos_ok todo sample_slice"
  by (simp add: mergeable_def sample_slice_inv sample_slice_aligned range_IsEmpty_def
      sample_slice_simps sample_state_def)

lemma sample_mergeable2: "mergeable immediate_key sql_pos_ok todo sample_slice2"
proof -
  have "slice_inv immediate_key sql_pos_ok todo sample_slice2"
    unfolding sample_slice2_def
    by (rule slice_inv_NewVirtualSlice [OF _ _ _ _ sql_reader.reader_keys])
      (simp_all add: immediate_key_New MaxInt64_def pred_normal_def)
  then show ?thesis
    by (simp add: mergeable_def aligned_def range_IsEmpty_def sample_slice2_def NewVirtualSlice_def)
qed

lemma sample_slices_ok:
  "slices_ok immediate_key sql_pos_ok todo 2 [sample_slice]"
  "slices_ok immediate_key sql_pos_ok todo 2 [sample_slice2]"
  using sample_mergeable [of todo] sample_mergeable2 [of todo]
  by (simp_all add: slices_ok_Cons sample_slice_simps) (simp add: sample_slice2_def NewVirtualSlice_def)

lemma sample_contains: "state_Contains (vs_state sample_slice) (sample_task d i) \<longleftrightarrow> 0 \<le> i \<and> i < 100"
  by (simp add: sample_slice_simps sample_state_def state_Contains_iff)

lemma sample_base_simps [simp]:
  "qb_slices sample_base = [sample_slice]"
  "virtualQueues (qb_manager sample_base) = [(0, sample_vq)]"
  "virtualSlices sample_vq = [sample_slice]"
  "newVirtualSliceState sample_base = \<lparr>ss_Range = \<lparr>InclusiveMinTaskKey = NewImmediateTaskKey 100,
     ExclusiveMaxTaskKey = MaximumHistoryTaskKey\<rparr>, ss_Predicate = UniversalPredicate\<rparr>"
  "exclusiveAckLevel sample_base = NewImmediateTaskKey 0"
  "qb_category sample_base = HistoryTaskCategoryTransfer"
  by (simp_all add: sample_base_def sample_vq_def NewVirtualQueue_def)

lemma sample_queue_inv: "queue_inv immediate_key sql_pos_ok {sample_task ''a'' 10} sample_base"
  by (simp add: queue_inv_def sample_slice_inv slices_sorted_def immediate_key_New MaxInt64_def sample_contains)

end
