(* ===== verification/Sample_Cache.thy ===== *)
theory Sample_Cache
  imports Cache_Gaps Cached_Queue Sample_Queue
begin

text \<open>
  Concrete caches: one over the transfer tasks of \<open>Sample_Data\<close>, and a run of the timer cache in
  which a first prefetch opens the window and a timer is then stored in it.
\<close>

section \<open>The transfer queue\<close>

definition sample_cache :: cached_reader where
  "sample_cache =
     \<lparr>cr_queue = [sample_task ''a'' 10, sample_task ''b'' 20, sample_task ''a'' 30],
      inclusiveLowerBound = NewImmediateTaskKey 5, exclusiveUpperBound = MaximumHistoryTaskKey, lastRangeID = 1,
      lastShadowSampleUnixNano = 0, cr_status = DaemonStatusStarted\<rparr>"

definition sample_cache_env :: reader_env where
  "sample_cache_env =
     \<lparr>Mode = ''enabled'', MaxSize = 3, ShadowSampleInterval = 0, re_now = 9, re_rangeID = 1, re_swapped = False,
      RangeSizeBits = 20\<rparr>"

definition sample_cache_req :: GetTaskRequest where
  "sample_cache_req =
     \<lparr>req_Progress = mk_progress (NewImmediateTaskKey 10) (NewImmediateTaskKey 100),
      req_Predicate = UniversalPredicate, req_PageSize = 2\<rparr>"

definition sample_cache_resp :: GetTaskResponse where
  "sample_cache_resp =
     \<lparr>resp_Tasks = [sample_task ''a'' 10, sample_task ''b'' 20],
      resp_Progress = \<lparr>InclusiveMinTaskKey = NewImmediateTaskKey 21, ExclusiveMaxTaskKey = NewImmediateTaskKey 100,
        NextPageToken = None, NextTaskKey = NewImmediateTaskKey 21\<rparr>\<rparr>"

lemma immediate_lt_max [simp]: "NewImmediateTaskKey i < MaximumHistoryTaskKey"
  by (simp add: NewImmediateTaskKey_def MaximumHistoryTaskKey_def less_htask_key_def NewHistoryTaskKey_def MaxInt64_def)

lemma sample_cache_ok:
  "ir_ok (shard_tasks (transfer_tasks (fst sample_db)) (snd sample_db)) sample_cache"
  unfolding sample_tasks
  by (auto simp: ir_ok_def cache_ok_def sample_cache_def less_imp_le)

lemma sample_cache_answer:
  "cached_GetTask no_hooks sample_cache_env (sql_get_task no_scheduled sample_db) sample_cache_req sample_cache =
     (Ok sample_cache_resp, None, sample_cache)"
  by code_simp

section \<open>The timer queue\<close>

definition sample_timer :: "int \<Rightarrow> int \<Rightarrow> ptask" where
  "sample_timer at i =
     \<lparr>task_kind = UserTimerTask, task_DomainID = ''a'', task_WorkflowID = ''w'', task_RunID = ''r'',
      task_Version = 0, task_TaskID = i, task_VisibilityTimestamp = at\<rparr>"

definition sample_timer_env :: "int \<Rightarrow> int \<Rightarrow> scheduled_env" where
  "sample_timer_env now sz =
     \<lparr>Mode = ''enabled'', MaxSize = sz, ShadowSampleInterval = 0, re_now = now, re_rangeID = 1, re_swapped = False,
      RangeSizeBits = 20, MaxLookAheadWindow = 100, PrefetchTriggerWindow = 10, PrefetchPageSize = 5,
      TimeEvictionWindow = 50, MinPrefetchInterval = 1, JitDuration = (\<lambda>d. d)\<rparr>"

definition sample_flight :: "int \<Rightarrow> prefetch_flight" where
  "sample_flight n =
     \<lparr>pf_upperBound = MinimumHistoryTaskKey, pf_inclusiveMin = NewHistoryTaskKey 950 0,
      pf_exclusiveMax = NewHistoryTaskKey 1100 0, pf_pageSize = n\<rparr>"

definition sample_page :: "ptask list \<Rightarrow> GetTaskResponse" where
  "sample_page ts =
     \<lparr>resp_Tasks = ts,
      resp_Progress = \<lparr>InclusiveMinTaskKey = NewHistoryTaskKey 950 0, ExclusiveMaxTaskKey = NewHistoryTaskKey 1100 0,
        NextPageToken = None, NextTaskKey = NewHistoryTaskKey 1100 0\<rparr>\<rparr>"

definition sample_reader0 :: scheduled_reader where
  "sample_reader0 = newCachedScheduledQueueReader 1"

definition sample_reader1 :: scheduled_reader where
  "sample_reader1 = sample_reader0\<lparr>prefetchTargetUpper := NewHistoryTaskKey 1100 0\<rparr>"

definition sample_reader2 :: scheduled_reader where
  "sample_reader2 = sample_reader0\<lparr>inclusiveLowerBound := NewHistoryTaskKey 950 0,
     exclusiveUpperBound := NewHistoryTaskKey 1100 0, prefetchCh := True\<rparr>"

definition sample_reader3 :: scheduled_reader where
  "sample_reader3 = sample_reader2\<lparr>cr_queue := [sample_timer 1000 7]\<rparr>"

definition sample_timer_sys :: timer_sys where
  "sample_timer_sys = \<lparr>sys_hist = {sample_timer 1000 7}, sys_db = {sample_timer 1000 7},
     sys_reader = sample_reader3, sys_flight = None\<rparr>"

lemma sample_run:
  "prefetch_begin (sample_timer_env 1000 10) sample_reader0 = (Some (sample_flight 5), sample_reader1)"
  "prefetch_finish (sample_timer_env 1001 10) (sample_flight 5) (Ok (sample_page [])) sample_reader1 = (Ok (), sample_reader2)"
  "sr_Inject (sample_timer_env 1002 10) [sample_timer 1000 7] sample_reader2 = sample_reader3"
  by code_simp+

lemma sample_timer_key [simp]: "GetTaskKey (sample_timer at i) = NewHistoryTaskKey at i"
  by (simp add: sample_timer_def GetTaskKey_def)

lemma sample_key_order [simp]:
  "NewHistoryTaskKey a i < NewHistoryTaskKey b j \<longleftrightarrow> a < b \<or> a = b \<and> i < j"
  "NewHistoryTaskKey a i \<le> NewHistoryTaskKey b j \<longleftrightarrow> a < b \<or> a = b \<and> i \<le> j"
  by (auto simp: NewHistoryTaskKey_def less_htask_key_def less_eq_htask_key_def)

lemma min_key_less [simp]: "0 \<le> a \<Longrightarrow> MinimumHistoryTaskKey < NewHistoryTaskKey a i"
  by (simp add: NewHistoryTaskKey_def MinimumHistoryTaskKey_def zeroTime_def less_htask_key_def)

lemma sample_page_reads:
  assumes "\<forall>t \<in> st. GetTaskKey t < NewHistoryTaskKey 950 0 \<or> t \<in> set ts"
    "set ts \<subseteq> {t \<in> st. NewHistoryTaskKey 950 0 \<le> GetTaskKey t \<and> GetTaskKey t < NewHistoryTaskKey 1100 0}"
    "int (length ts) \<le> n" "sorted_wrt (<) (map GetTaskKey ts)"
  shows "reads_page st (pf_request (sample_flight n)) (sample_page ts)"
  using assms
  by (auto simp: reads_page_def pf_request_def sample_flight_def sample_page_def NewUniversalPredicate_def not_le [symmetric])

lemma sample_timer_reachable: "timer_step\<^sup>*\<^sup>* (timer_start 1) sample_timer_sys"
proof -
  let ?s0 = "timer_start 1"
  let ?s1 = "?s0\<lparr>sys_reader := sample_reader1, sys_flight := Some (sample_flight 5, None)\<rparr>"
  let ?s2 = "?s1\<lparr>sys_flight := Some (sample_flight 5, Some (Ok (sample_page [])))\<rparr>"
  let ?s3 = "?s2\<lparr>sys_reader := sample_reader2, sys_flight := None\<rparr>"
  have "timer_step ?s0 ?s1"
    by (rule timer_step.begin_prefetch [where env = "sample_timer_env 1000 10"])
      (simp_all add: timer_start_def sample_run sample_reader0_def [symmetric], simp add: sample_flight_def)
  moreover have "timer_step ?s1 ?s2"
    by (rule timer_step.read_page) (simp_all add: timer_start_def sample_page_reads)
  moreover have "timer_step ?s2 ?s3"
    by (rule timer_step.end_prefetch [where env = "sample_timer_env 1001 10" and res = "Ok ()"])
      (use sample_run(2) in \<open>simp_all add: sample_page_def sample_timer_env_def\<close>)
  moreover have "timer_step ?s3 (?s3\<lparr>sys_hist := sys_hist ?s3 \<union> set [sample_timer 1000 7],
      sys_db := sys_db ?s3 \<union> set [sample_timer 1000 7],
      sys_reader := sr_Inject (sample_timer_env 1002 10) [sample_timer 1000 7] (sys_reader ?s3)\<rparr>)"
    by (rule timer_step.store)
      (simp_all add: timer_start_def hist_ok_def first_flight_def, simp_all add: valid_key_def sample_timer_def
        NewHistoryTaskKey_def MaxInt64_def)
  ultimately show ?thesis
    by (simp add: sample_run sample_timer_sys_def timer_start_def)
qed

end
