(* ===== verification/Cache_Properties.thy ===== *)
theory Cache_Properties
  imports Sample_Cache
begin

text \<open>
  The properties of the caching readers and of the queues that use them, each applied at a concrete
  cache of \<open>Sample_Cache\<close>.
\<close>

section \<open>The transfer queue\<close>

text \<open>
  C22: Reading through the cache refines reading from the store. If the window of the cache is exact,
  then in every mode (disabled, shadow, enabled) and after every change of the shard's range id, an
  answer is a page of the stored tasks as the contract of the wrapped reader demands, and the window
  is still exact afterwards.
\<close>

theorem cached_read_refines_reader:
  assumes "sql_store_ok d" "cache_ok (shard_tasks (transfer_tasks (fst d)) (snd d)) q"
    "progress_wf (req_Progress req)" "sql_pos_ok (req_Progress req)" "0 < req_PageSize req"
    "cached_GetTask no_hooks env (sql_get_task gs d) req q = (Ok r, rep, q')"
  shows "reads_page (shard_tasks (transfer_tasks (fst d)) (snd d)) req r \<and>
    cache_ok (shard_tasks (transfer_tasks (fst d)) (snd d)) q'"
  using sql_cacheable.cached_answer(1) [OF hooks_ok_instances(1) assms]
    cache_ok_cached_GetTask [OF hooks_ok_instances(1) assms(2,6)] by blast

theorem cached_read_refines_reader_witness:
  "cached_GetTask no_hooks sample_cache_env (sql_get_task no_scheduled sample_db) sample_cache_req sample_cache =
     (Ok sample_cache_resp, None, sample_cache) \<and>
   reads_page (shard_tasks (transfer_tasks (fst sample_db)) (snd sample_db)) sample_cache_req sample_cache_resp"
proof -
  have "cache_ok (shard_tasks (transfer_tasks (fst sample_db)) (snd sample_db)) sample_cache"
    using sample_cache_ok by (simp add: ir_ok_def)
  moreover have "progress_wf (req_Progress sample_cache_req)" "sql_pos_ok (req_Progress sample_cache_req)"
    "0 < req_PageSize sample_cache_req"
    by (simp_all add: sample_cache_req_def sql_pos_ok_def immediate_key_New MaxInt64_def)
  ultimately show ?thesis
    using cached_read_refines_reader [OF sample_db_ok _ _ _ _ sample_cache_answer] sample_cache_answer by blast
qed

text \<open>
  C23: Notifying a cached transfer queue of tasks that were stored keeps the window exact, never
  fails, and wakes the queue up. If the store reported an error, so that it is not known which of the
  tasks were stored, the window is exact for every outcome.
\<close>

theorem cached_notify_exact:
  assumes "ir_ok st reader" "inj_on GetTaskKey st" "\<forall>t \<in> st. MinimumHistoryTaskKey < GetTaskKey t"
    "new_tasks st (info_Tasks info)" "info_PersistenceError info \<or> st' = st \<union> set (info_Tasks info)"
  shows "\<exists>q' reader'. cq_NotifyNewTask env info (q, reader) = Ok (q', reader') \<and> ir_ok st' reader' \<and>
    (info_Tasks info \<noteq> [] \<longrightarrow> iq_notified q')"
  using assms by (rule cq_NotifyNewTask_exact)

theorem cached_notify_exact_witness:
  "\<exists>q' reader'. cq_NotifyNewTask sample_cache_env
     \<lparr>info_Tasks = [sample_task ''b'' 40], info_PersistenceError = False\<rparr>
     (newImmediateQueue sample_base, sample_cache) = Ok (q', reader') \<and>
   ir_ok {sample_task ''a'' 10, sample_task ''b'' 20, sample_task ''a'' 30, sample_task ''b'' 40} reader' \<and>
   iq_notified q'"
proof -
  let ?st = "{sample_task ''a'' 10, sample_task ''b'' 20, sample_task ''a'' 30}"
  let ?info = "\<lparr>info_Tasks = [sample_task ''b'' 40], info_PersistenceError = False\<rparr>"
  have ok: "ir_ok ?st sample_cache" using sample_cache_ok unfolding sample_tasks .
  have gt: "MinimumHistoryTaskKey < NewImmediateTaskKey i" for i
    by (simp add: MinimumHistoryTaskKey_def zeroTime_def NewImmediateTaskKey_def less_htask_key_def)
  have new: "new_tasks ?st (info_Tasks ?info)" using gt by (simp add: new_tasks_def) (simp add: sample_task_def)
  have inj: "inj_on GetTaskKey ?st" by (auto simp: inj_on_def)
  have "insert (sample_task ''b'' 40) ?st = ?st \<union> set (info_Tasks ?info)" by auto
  then show ?thesis
    using cached_notify_exact [OF ok inj _ new, of _ sample_cache_env "newImmediateQueue sample_base"] gt
    by (simp add: insert_commute)
qed

text \<open>
  C21: Updating the state of a cached transfer queue ends, deletes no task that is still to be
  processed, and passes on a read level at which the window of the cache is exact for what is left in
  the store: the cache returns no deleted task and misses none that is left. The last part needs that
  no deletion fails, or that a slice is left: after a failed deletion a queue without slices passes on
  the old acknowledgement level, which is behind the tasks deleted before the failure.
\<close>

theorem cached_update_exact:
  assumes "env_complete env = RangeCompleteHistoryTask sch" "qb_category q = HistoryTaskCategoryTransfer"
    "sql_store_ok (d, env_shardID env)" "todo \<subseteq> shard_tasks (transfer_tasks d) (env_shardID env)"
    "queue_inv immediate_key sql_pos_ok todo q" "exclusiveAckLevel q < MaximumHistoryTaskKey"
    "ir_ok (shard_tasks (transfer_tasks d) (env_shardID env)) reader"
  shows "\<exists>d' q' reader'. cq_updateQueueState env d q reader = Some (d', q', reader') \<and>
    (db_deletes d \<or> qb_slices q' \<noteq> [] \<longrightarrow> ir_ok (shard_tasks (transfer_tasks d') (env_shardID env)) reader') \<and>
    todo \<subseteq> shard_tasks (transfer_tasks d') (env_shardID env) \<and>
    queue_inv immediate_key sql_pos_ok todo q' \<and> exclusiveAckLevel q' < MaximumHistoryTaskKey"
  using assms by (rule cq_updateQueueState_exact)

theorem cached_update_exact_witness:
  "\<exists>d' q' reader'. cq_updateQueueState sample_env (fst sample_db) sample_base sample_cache = Some (d', q', reader') \<and>
    ir_ok (shard_tasks (transfer_tasks d') 1) reader' \<and> sample_task ''a'' 10 \<in> shard_tasks (transfer_tasks d') 1"
proof -
  have sh: "env_shardID sample_env = 1" "snd sample_db = 1" by (simp_all add: sample_env_def sample_db_def)
  have db: "sql_store_ok (fst sample_db, env_shardID sample_env)" using sample_db_ok sh by (metis prod.collapse)
  have td: "{sample_task ''a'' 10} \<subseteq> shard_tasks (transfer_tasks (fst sample_db)) (env_shardID sample_env)"
    using sample_tasks sh by simp
  have ec: "env_complete sample_env = RangeCompleteHistoryTask (\<lambda>_ _ _. Err (PersistenceError ''not available''))"
    by (simp add: sample_env_def)
  have ok: "ir_ok (shard_tasks (transfer_tasks (fst sample_db)) (env_shardID sample_env)) sample_cache"
    using sample_cache_ok sh by simp
  show ?thesis
    using cached_update_exact [OF ec sample_base_simps(6) db td sample_queue_inv _ ok] sh sample_db_deletes by auto
qed

section \<open>The timer queue\<close>



text \<open>
  In every such state, a look-ahead into the window finds a task before which no stored task of
  the window lies, or finds none if the window has no stored task from there on, and reports the end
  of the window as the time up to which this is known.
\<close>

theorem timer_look_ahead_exact:
  assumes "timer_step\<^sup>*\<^sup>* (timer_start n) s" "\<not> isDisabled env" "\<not> isShadow env" "isTaskCovered k (sys_reader s)"
    "re_rangeID env = lastRangeID (sys_reader s)" "sr_LookAHead env base k (sys_reader s) = (Ok la, q')"
  shows "la_LookAheadMaxTime la = scheduledTime (exclusiveUpperBound (sys_reader s)) \<and>
    (case la_Task la of
       None \<Rightarrow> {t \<in> sys_db s. k \<le> GetTaskKey t \<and> GetTaskKey t < exclusiveUpperBound (sys_reader s)} = {}
     | Some u \<Rightarrow> u \<in> sys_hist s \<and> k \<le> GetTaskKey u \<and> GetTaskKey u < exclusiveUpperBound (sys_reader s) \<and>
         {t \<in> sys_db s. k \<le> GetTaskKey t \<and> GetTaskKey t < GetTaskKey u} = {})"
  using timer_look_complete [OF timer_reachable_inv [OF assms(1)] assms(2-6)] .

theorem timer_look_ahead_exact_witness:
  "sr_LookAHead (sample_timer_env 1003 10) (\<lambda>_. Err (PersistenceError ''down'')) (NewHistoryTaskKey 960 0) sample_reader3 =
     (Ok \<lparr>la_Task = Some (sample_timer 1000 7), la_LookAheadMaxTime = 1100\<rparr>, sample_reader3) \<and>
   {t \<in> sys_db sample_timer_sys. NewHistoryTaskKey 960 0 \<le> GetTaskKey t \<and> GetTaskKey t < NewHistoryTaskKey 1000 7} = {}"
proof -
  let ?base = "\<lambda>_ :: htask_key. Err (PersistenceError ''down'') :: LookAHeadResponse result"
  let ?env = "sample_timer_env 1003 10" and ?k = "NewHistoryTaskKey 960 0"
  have e: "sr_LookAHead ?env ?base ?k sample_reader3 =
      (Ok \<lparr>la_Task = Some (sample_timer 1000 7), la_LookAheadMaxTime = 1100\<rparr>, sample_reader3)" by code_simp
  have s: "sys_reader sample_timer_sys = sample_reader3" by (simp add: sample_timer_sys_def)
  have g: "\<not> isDisabled ?env" "\<not> isShadow ?env" "isTaskCovered ?k sample_reader3" "re_rangeID ?env = lastRangeID sample_reader3"
    by code_simp+
  show ?thesis
    using timer_look_ahead_exact [OF sample_timer_reachable g(1,2), of ?k, unfolded s, OF g(3,4) e] e by simp
qed

text \<open>
  C25: The prefetch timer is armed with at least the minimal interval, and, where that interval allows
  it, so that it fires no later than the trigger window before the end of the window, whatever the
  jitter is.
\<close>

theorem nextPrefetchDelay_bounds:
  "MinPrefetchInterval env \<le> nextPrefetchDelay env q \<and>
   nextPrefetchDelay env q \<le> max (MinPrefetchInterval env)
     (scheduledTime (exclusiveUpperBound q) - PrefetchTriggerWindow env - re_now env)"
  using nextPrefetchDelay_between by blast

text \<open>
  C24: The memory queue refines a set of tasks with different keys: putting tasks adds them, trimming
  keeps those from the bound on, a page is the part of the set before the key at which it says to
  continue, and the sorted order is kept.
\<close>

theorem mem_queue_refines_set:
  assumes "mq_wf q" "inj_on GetTaskKey (set ts \<union> set q)" "\<forall>t \<in> set q. valid_key (GetTaskKey t)" "0 < n"
    "mq_GetTasks lo hi p n q = (page, nxt)"
  shows "mq_wf (PutTasks ts q) \<and> set (PutTasks ts q) = set ts \<union> set q \<and>
    mq_wf (LTrim k q) \<and> set (LTrim k q) = {t \<in> set q. k \<le> GetTaskKey t} \<and>
    set page = {t \<in> set q. lo \<le> GetTaskKey t \<and> GetTaskKey t < nxt \<and> Check p t} \<and> nxt \<le> hi"
  using mq_wf_PutTasks [OF assms(1)] set_PutTasks [OF assms(1,2)] LTrim_eq [OF assms(1)] mq_wf_filter [OF assms(1)]
    mq_GetTasks_page [OF assms(1,3-5)] by simp

theorem mem_queue_refines_set_witness:
  "set (PutTasks [sample_timer 3 1] [sample_timer 2 1, sample_timer 4 1]) =
     {sample_timer 2 1, sample_timer 3 1, sample_timer 4 1}"
proof -
  let ?q = "[sample_timer 2 1, sample_timer 4 1]"
  have k: "NewHistoryTaskKey a i = NewHistoryTaskKey b j \<longleftrightarrow> a = b \<and> i = j" for a b i j
    by (simp add: NewHistoryTaskKey_def)
  have "mq_wf ?q" "inj_on GetTaskKey (set [sample_timer 3 1] \<union> set ?q)" "\<forall>t \<in> set ?q. valid_key (GetTaskKey t)"
    by (auto simp: inj_on_def k) (simp_all add: valid_key_def NewHistoryTaskKey_def MaxInt64_def)
  moreover have "mq_GetTasks (NewHistoryTaskKey 0 0) (NewHistoryTaskKey 3 0) UniversalPredicate 5 ?q =
      ([sample_timer 2 1], NewHistoryTaskKey 3 0)" by code_simp
  ultimately show ?thesis
    using mem_queue_refines_set [of ?q "[sample_timer 3 1]" 5 "NewHistoryTaskKey 0 0" "NewHistoryTaskKey 3 0"
        UniversalPredicate "[sample_timer 2 1]" "NewHistoryTaskKey 3 0"] by auto
qed

section \<open>Where the timer cache falls short\<close>

text \<open>
  C40: If the cache is cleared while its first prefetch is under way, the prefetch is not recognized
  as outdated, since the upper bound is the minimum before and after; a timer that is stored and
  injected after the page was read is then neither in the window nor buffered, and the window that
  the prefetch opens covers it without holding it.
\<close>

theorem clear_during_first_prefetch_loses_timer:
  assumes "\<not> isDisabled env" "\<not> isDisabled env'" "prefetch_begin env q = (Some pf, q1)"
    "exclusiveUpperBound q = MinimumHistoryTaskKey" "MinimumHistoryTaskKey < pf_inclusiveMin pf"
    "pf_inclusiveMin pf \<le> GetTaskKey t" "GetTaskKey t < NextTaskKey (resp_Progress r)" "resp_Tasks r = []"
    "prefetch_finish env' pf (Ok r) (sr_Inject env [t] (cr_Clear sr_hooks q1)) = (res, q2)"
  shows "res = Ok () \<and> isTaskCovered (GetTaskKey t) q2 \<and> t \<notin> set (cr_queue q2)"
  using assms by (rule clear_gap)

theorem clear_during_first_prefetch_loses_timer_witness:
  "\<exists>res q2. prefetch_finish (sample_timer_env 1001 10) (sample_flight 5) (Ok (sample_page []))
     (sr_Inject (sample_timer_env 1000 10) [sample_timer 1000 7] (cr_Clear sr_hooks sample_reader1)) = (res, q2) \<and>
   isTaskCovered (GetTaskKey (sample_timer 1000 7)) q2 \<and> sample_timer 1000 7 \<notin> set (cr_queue q2)"
proof -
  obtain res q2 where f: "prefetch_finish (sample_timer_env 1001 10) (sample_flight 5) (Ok (sample_page []))
     (sr_Inject (sample_timer_env 1000 10) [sample_timer 1000 7] (cr_Clear sr_hooks sample_reader1)) = (res, q2)"
    by (metis prod.exhaust)
  have e: "\<not> isDisabled (sample_timer_env 1000 10)" "\<not> isDisabled (sample_timer_env 1001 10)"
    "exclusiveUpperBound sample_reader0 = MinimumHistoryTaskKey" by code_simp+
  show ?thesis
    using clear_during_first_prefetch_loses_timer [OF e(1,2) sample_run(1) e(3) _ _ _ _ f] f
    by (simp add: sample_flight_def sample_page_def)
qed

text \<open>
  If the first page fills the cache, making room for it resets the lower bound of the window to
  the minimum, because the upper bound still is the minimum; the window then covers the timers before
  the page, which were never read.
\<close>

theorem full_first_page_covers_unread:
  assumes "hist_ok st" "\<not> isDisabled env'" "cr_queue q = []" "inclusiveLowerBound q = MinimumHistoryTaskKey"
    "exclusiveUpperBound q = MinimumHistoryTaskKey" "pendingInjectBuffer q = []"
    "prefetch_begin env q = (Some pf, q1)"
    "pf_inclusiveMin pf < NewHistoryTaskKey (re_now env' - TimeEvictionWindow env') 0"
    "MinimumHistoryTaskKey < pf_inclusiveMin pf" "reads_page st (pf_request pf) r"
    "int (length (resp_Tasks r)) = MaxSize env'" "resp_Tasks r \<noteq> []"
    "t \<in> st" "GetTaskKey t < pf_inclusiveMin pf" "prefetch_finish env' pf (Ok r) q1 = (res, q2)"
  shows "res = Ok () \<and> isTaskCovered (GetTaskKey t) q2 \<and> t \<notin> set (cr_queue q2)"
  using assms by (rule full_first_page_gap)

theorem full_first_page_covers_unread_witness:
  "\<exists>res q2. prefetch_finish (sample_timer_env 1001 1) (sample_flight 1) (Ok (sample_page [sample_timer 1000 7]))
     sample_reader1 = (res, q2) \<and>
   isTaskCovered (GetTaskKey (sample_timer 900 6)) q2 \<and> sample_timer 900 6 \<notin> set (cr_queue q2)"
proof -
  let ?st = "{sample_timer 900 6, sample_timer 1000 7}"
  obtain res q2 where f: "prefetch_finish (sample_timer_env 1001 1) (sample_flight 1)
     (Ok (sample_page [sample_timer 1000 7])) sample_reader1 = (res, q2)" by (metis prod.exhaust)
  have "inj_on GetTaskKey ?st" by (auto simp: inj_on_def) (simp_all add: NewHistoryTaskKey_def)
  then have h: "hist_ok ?st"
    by (simp add: hist_ok_def) (simp add: valid_key_def NewHistoryTaskKey_def MaxInt64_def)
  have e: "\<not> isDisabled (sample_timer_env 1001 1)" "cr_queue sample_reader0 = []"
    "inclusiveLowerBound sample_reader0 = MinimumHistoryTaskKey" "exclusiveUpperBound sample_reader0 = MinimumHistoryTaskKey"
    "pendingInjectBuffer sample_reader0 = []"
    "prefetch_begin (sample_timer_env 1000 1) sample_reader0 = (Some (sample_flight 1), sample_reader1)" by code_simp+
  have r: "reads_page ?st (pf_request (sample_flight 1)) (sample_page [sample_timer 1000 7])"
    by (rule sample_page_reads) simp_all
  show ?thesis
    using full_first_page_covers_unread [OF h e _ _ r _ _ _ _ f, of "sample_timer 900 6"] f
    by (simp add: sample_flight_def sample_page_def sample_timer_env_def)
qed

end
