(* ===== verification/Ack_Manager.thy ===== *)
theory Ack_Manager
  imports Cadence_Prelude
begin

text \<open>
  The acknowledgement manager (\<open>common/messaging/ackManager.go\<close>) that a matching task list
  uses to know up to which task ID everything has been processed. \<open>outstandingMessages\<close> maps the
  ID of an item that was read to whether it was acknowledged; \<open>readLevel\<close> is the last ID read and
  \<open>ackLevel\<close> an ID up to which every item that was read is acknowledged. The log lines (and with
  them \<open>logIncontinuousErr\<close>) are left out.

  The locale \<open>ack_tracker\<close> is the contract a reader of items relies on; it is interpreted on the
  code's functions. The last sections follow the partition manager of the Kafka consumer through any
  sequence of additions and completions.
\<close>

section \<open>State and operations\<close>

text \<open>The two errors of \<open>ReadItem\<close>, with the values of their messages.\<close>

datatype item_error =
    ItemNotAfterReadLevel int int
  | ItemAlreadyOutstanding int

record ackManager =
  am_outstandingMessages :: "(int, bool) gomap"
  am_readLevel :: int
  am_ackLevel :: int
  am_backlogCounter :: int

definition newAckManager :: ackManager where
  "newAckManager = \<lparr>am_outstandingMessages = [], am_readLevel = -1, am_ackLevel = -1,
     am_backlogCounter = 0\<rparr>"

definition ReadItem :: "int \<Rightarrow> ackManager \<Rightarrow> ackManager \<times> item_error option" where
  "ReadItem itemID m0 =
     (let m = m0\<lparr>am_backlogCounter := am_backlogCounter m0 + 1\<rparr> in
      if am_readLevel m \<ge> itemID then
        (m, Some (ItemNotAfterReadLevel itemID (am_readLevel m)))
      else if map_of (am_outstandingMessages m) itemID \<noteq> None then
        (m, Some (ItemAlreadyOutstanding itemID))
      else
        (let m1 = m\<lparr>am_readLevel := itemID\<rparr>;
             m2 = (if am_ackLevel m1 = -1 then m1\<lparr>am_ackLevel := itemID - 1\<rparr> else m1)
         in (m2\<lparr>am_outstandingMessages :=
               AList.update itemID False (am_outstandingMessages m2)\<rparr>, None)))"

text \<open>The loop of \<open>AckItem\<close> that moves the ack level over acknowledged items.\<close>

function advanceAckLevel :: "int \<Rightarrow> ackManager \<Rightarrow> ackManager" where
  "advanceAckLevel current m =
     (if current \<le> am_readLevel m then
        (case map_of (am_outstandingMessages m) current of
           Some acked \<Rightarrow>
             if acked then
               advanceAckLevel (current + 1)
                 (m\<lparr>am_ackLevel := current,
                    am_outstandingMessages := AList.delete current (am_outstandingMessages m)\<rparr>)
             else m
         | None \<Rightarrow> advanceAckLevel (current + 1) m)
      else m)"
  by pat_completeness auto
termination
  by (relation "measure (\<lambda>(current, m). nat (am_readLevel m + 1 - current))") auto

declare advanceAckLevel.simps [simp del]

definition AckItem :: "int \<Rightarrow> ackManager \<Rightarrow> ackManager \<times> int" where
  "AckItem itemID m =
     (let m1 = (if map_of (am_outstandingMessages m) itemID = Some False then
                  m\<lparr>am_outstandingMessages :=
                       AList.update itemID True (am_outstandingMessages m),
                     am_backlogCounter := am_backlogCounter m - 1\<rparr>
                else m);
          m2 = advanceAckLevel (am_ackLevel m1 + 1) m1
      in (m2, am_ackLevel m2))"

definition am_GetReadLevel :: "ackManager \<Rightarrow> int" where
  "am_GetReadLevel m = am_readLevel m"

definition SetReadLevel :: "int \<Rightarrow> ackManager \<Rightarrow> ackManager" where
  "SetReadLevel level m = m\<lparr>am_readLevel := level\<rparr>"

definition am_GetAckLevel :: "ackManager \<Rightarrow> int" where
  "am_GetAckLevel m = am_ackLevel m"

definition SetAckLevel :: "int \<Rightarrow> ackManager \<Rightarrow> ackManager" where
  "SetAckLevel level m =
     (let m1 = (if level > am_ackLevel m then m\<lparr>am_ackLevel := level\<rparr> else m)
      in if level > am_readLevel m1 then m1\<lparr>am_readLevel := level\<rparr> else m1)"

definition GetBacklogCount :: "ackManager \<Rightarrow> int" where
  "GetBacklogCount m = am_backlogCounter m"

section \<open>Invariant\<close>

text \<open>The items that were read and not acknowledged, and the acknowledged ones still kept.\<close>

definition unacked :: "ackManager \<Rightarrow> int set" where
  "unacked m = {k. map_of (am_outstandingMessages m) k = Some False}"

definition acked_kept :: "ackManager \<Rightarrow> int set" where
  "acked_kept m = {k. map_of (am_outstandingMessages m) k = Some True}"

text \<open>
  Every outstanding item is above the ack level and not above the read level, nothing is
  outstanding while the ack level has its initial value, and the backlog counter is the number of
  items read and not yet acknowledged.
\<close>

definition ack_inv :: "ackManager \<Rightarrow> bool" where
  "ack_inv m \<longleftrightarrow>
     gm_wf (am_outstandingMessages m) \<and>
     (\<forall>k \<in> fst ` set (am_outstandingMessages m). am_ackLevel m < k \<and> k \<le> am_readLevel m) \<and>
     -1 \<le> am_ackLevel m \<and> am_ackLevel m \<le> am_readLevel m \<and>
     (am_ackLevel m = -1 \<longrightarrow> am_outstandingMessages m = []) \<and>
     am_backlogCounter m = int (card (unacked m))"

lemma unacked_subset: "unacked m \<subseteq> fst ` set (am_outstandingMessages m)"
  by (auto simp: unacked_def dest: map_of_SomeD intro: rev_image_eqI)

lemma acked_kept_subset: "acked_kept m \<subseteq> fst ` set (am_outstandingMessages m)"
  by (auto simp: acked_kept_def dest: map_of_SomeD intro: rev_image_eqI)

lemma finite_unacked [simp]: "finite (unacked m)"
  by (rule finite_subset [OF unacked_subset]) simp

lemma outstanding_split:
  "fst ` set (am_outstandingMessages m) = unacked m \<union> acked_kept m"
proof (rule set_eqI)
  fix k
  have "k \<in> fst ` set (am_outstandingMessages m) \<longleftrightarrow> map_of (am_outstandingMessages m) k \<noteq> None"
    by (simp add: map_of_eq_None_iff)
  then show "k \<in> fst ` set (am_outstandingMessages m) \<longleftrightarrow> k \<in> unacked m \<union> acked_kept m"
    by (auto simp: unacked_def acked_kept_def)
qed

lemma ack_inv_bounds:
  assumes "ack_inv m" and "k \<in> unacked m \<union> acked_kept m"
  shows "am_ackLevel m < k" and "k \<le> am_readLevel m"
  using assms outstanding_split [of m] by (auto simp: ack_inv_def)

lemma ack_inv_newAckManager: "ack_inv newAckManager"
  by (simp add: ack_inv_def newAckManager_def unacked_def)

section \<open>Acknowledging an item\<close>

text \<open>
  Where the loop of \<open>AckItem\<close> must stop: at the last acknowledged item below every
  unacknowledged one, or where it started when there is none.
\<close>

definition ack_target :: "ackManager \<Rightarrow> int" where
  "ack_target m = Max (insert (am_ackLevel m) {j \<in> acked_kept m. \<forall>u \<in> unacked m. j < u})"

lemma finite_acked_kept [simp]: "finite (acked_kept m)"
  by (rule finite_subset [OF acked_kept_subset]) simp

lemma ack_target_None:
  assumes "\<And>j. j \<in> acked_kept m \<Longrightarrow> \<exists>u \<in> unacked m. u \<le> j"
  shows "ack_target m = am_ackLevel m"
proof -
  have "\<not> (\<forall>u \<in> unacked m. j < u)" if j: "j \<in> acked_kept m" for j
    using assms [OF j] by (auto simp: not_less)
  then have none: "{j \<in> acked_kept m. \<forall>u \<in> unacked m. j < u} = {}"
    by blast
  show ?thesis
    unfolding ack_target_def none by simp
qed

definition ack_step :: "int \<Rightarrow> ackManager \<Rightarrow> ackManager" where
  "ack_step j m = m\<lparr>am_ackLevel := j,
     am_outstandingMessages := AList.delete j (am_outstandingMessages m)\<rparr>"

lemma ack_step_simps [simp]:
  "am_readLevel (ack_step j m) = am_readLevel m"
  "am_ackLevel (ack_step j m) = j"
  "am_backlogCounter (ack_step j m) = am_backlogCounter m"
  "fst ` set (am_outstandingMessages (ack_step j m)) = fst ` set (am_outstandingMessages m) - {j}"
  by (simp_all add: ack_step_def)

lemma ack_step_sets:
  "unacked (ack_step j m) = unacked m - {j}"
  "acked_kept (ack_step j m) = acked_kept m - {j}"
  by (auto simp: unacked_def acked_kept_def ack_step_def delete_conv')

lemma ack_target_step:
  assumes low: "\<And>k. k \<in> unacked m \<union> acked_kept m \<Longrightarrow> j \<le> k" and j: "j \<in> acked_kept m"
    and al: "am_ackLevel m < j"
  shows "ack_target (ack_step j m) = ack_target m"
proof -
  let ?S = "\<lambda>X. {i \<in> X. \<forall>u \<in> unacked m. i < u}"
  have nj: "j \<notin> unacked m"
    using j by (simp add: unacked_def acked_kept_def)
  have "j < u" if "u \<in> unacked m" for u
    using low [of u] that nj by (cases "u = j") auto
  then have in_S: "?S (acked_kept m) = insert j (?S (acked_kept m - {j}))"
    using j by blast
  have "Max (insert (am_ackLevel m) (insert j (?S (acked_kept m - {j})))) =
        max (am_ackLevel m) (Max (insert j (?S (acked_kept m - {j}))))"
    by (rule Max_insert) simp_all
  also have "\<dots> = Max (insert j (?S (acked_kept m - {j})))"
    using al by (intro max_absorb2 order_trans [OF less_imp_le [OF al]] Max_ge) simp_all
  finally show ?thesis
    using nj by (simp add: ack_target_def ack_step_sets in_S)
qed

lemma advanceAckLevel_spec:
  assumes "gm_wf (am_outstandingMessages m)" and "am_ackLevel m < current"
    and "\<And>k. k \<in> unacked m \<union> acked_kept m \<Longrightarrow> current \<le> k \<and> k \<le> am_readLevel m"
  shows "unacked (advanceAckLevel current m) = unacked m \<and>
    acked_kept (advanceAckLevel current m) = {j \<in> acked_kept m. ack_target m < j} \<and>
    am_ackLevel (advanceAckLevel current m) = ack_target m \<and>
    am_readLevel (advanceAckLevel current m) = am_readLevel m \<and>
    am_backlogCounter (advanceAckLevel current m) = am_backlogCounter m \<and>
    gm_wf (am_outstandingMessages (advanceAckLevel current m))"
  using assms
proof (induction current m rule: advanceAckLevel.induct)
  case (1 current m)
  note wf = "1.prems"(1) and al = "1.prems"(2) and bounds = "1.prems"(3)
  consider (end_) "am_readLevel m < current"
    | (acked) "current \<le> am_readLevel m" "map_of (am_outstandingMessages m) current = Some True"
    | (open_) "current \<le> am_readLevel m" "map_of (am_outstandingMessages m) current = Some False"
    | (gap) "current \<le> am_readLevel m" "map_of (am_outstandingMessages m) current = None"
    by (cases "map_of (am_outstandingMessages m) current") force+
  then show ?case
  proof cases
    case end_
    then have "unacked m = {}" "acked_kept m = {}"
      using bounds by fastforce+
    then show ?thesis
      using end_ wf by (simp add: advanceAckLevel.simps [of current m] ack_target_def)
  next
    case open_
    then have c: "current \<in> unacked m"
      by (simp add: unacked_def)
    have t: "ack_target m = am_ackLevel m"
      using bounds c by (intro ack_target_None) blast
    have "{j \<in> acked_kept m. am_ackLevel m < j} = acked_kept m"
      using bounds al by fastforce
    then show ?thesis
      using open_ wf by (simp add: advanceAckLevel.simps [of current m] t)
  next
    case gap
    have "current + 1 \<le> k \<and> k \<le> am_readLevel m" if k: "k \<in> unacked m \<union> acked_kept m" for k
    proof -
      have "k \<noteq> current"
        using k gap by (auto simp: unacked_def acked_kept_def)
      then show ?thesis
        using bounds [OF k] by simp
    qed
    note IH = "1.IH"(1) [OF gap(1,2) wf _ this]
    have eq: "advanceAckLevel current m = advanceAckLevel (current + 1) m"
      using gap by (simp add: advanceAckLevel.simps [of current m])
    show ?thesis
      unfolding eq by (rule IH) (use al in simp)
  next
    case acked
    have c: "current \<in> acked_kept m" and nc: "current \<notin> unacked m"
      using acked by (simp_all add: acked_kept_def unacked_def)
    have t: "ack_target (ack_step current m) = ack_target m"
      by (rule ack_target_step) (use bounds c al in auto)
    have "current \<le> ack_target (ack_step current m)"
      unfolding ack_target_def by (rule Max_ge) simp_all
    then have ge: "current \<le> ack_target m"
      by (simp add: t)
    have bounds': "current + 1 \<le> k \<and> k \<le> am_readLevel (ack_step current m)"
      if k: "k \<in> unacked (ack_step current m) \<union> acked_kept (ack_step current m)" for k
      using k bounds [of k] by (auto simp: ack_step_sets)
    have sets: "{j \<in> acked_kept m - {current}. ack_target m < j} = {j \<in> acked_kept m. ack_target m < j}"
      using ge by auto
    have "gm_wf (am_outstandingMessages (ack_step current m))"
      using wf by (simp add: ack_step_def)
    note IH = "1.IH"(2) [of True, OF acked(1,2), folded ack_step_def, OF TrueI this _ bounds']
    have eq: "advanceAckLevel current m = advanceAckLevel (current + 1) (ack_step current m)"
      using acked by (simp add: advanceAckLevel.simps [of current m] ack_step_def)
    show ?thesis
      unfolding eq using IH sets nc by (simp add: ack_step_sets t)
  qed
qed

text \<open>What \<open>AckItem\<close> marks before its loop runs.\<close>

definition mark_acked :: "int \<Rightarrow> ackManager \<Rightarrow> ackManager" where
  "mark_acked k m =
     (if map_of (am_outstandingMessages m) k = Some False then
        m\<lparr>am_outstandingMessages := AList.update k True (am_outstandingMessages m),
          am_backlogCounter := am_backlogCounter m - 1\<rparr>
      else m)"

lemma mark_acked_simps [simp]:
  "am_readLevel (mark_acked k m) = am_readLevel m"
  "am_ackLevel (mark_acked k m) = am_ackLevel m"
  by (simp_all add: mark_acked_def)

lemma mark_acked_sets:
  "unacked (mark_acked k m) = unacked m - {k}"
  "acked_kept (mark_acked k m) = acked_kept m \<union> (unacked m \<inter> {k})"
  by (auto simp: mark_acked_def unacked_def acked_kept_def update_conv')

lemma mark_acked_backlog:
  assumes "ack_inv m"
  shows "am_backlogCounter (mark_acked k m) = int (card (unacked (mark_acked k m)))"
proof (cases "k \<in> unacked m")
  case True
  then have "0 < card (unacked m)"
    by (auto simp: card_gt_0_iff)
  then show ?thesis
    using assms True
    by (simp add: mark_acked_sets card_Diff_singleton) (simp add: mark_acked_def unacked_def ack_inv_def)
next
  case False
  then show ?thesis
    using assms by (simp add: mark_acked_sets) (simp add: mark_acked_def unacked_def ack_inv_def)
qed

lemma gm_wf_mark_acked: "ack_inv m \<Longrightarrow> gm_wf (am_outstandingMessages (mark_acked k m))"
  by (simp add: mark_acked_def ack_inv_def)

lemma AckItem_eq:
  "AckItem k m = (let m' = advanceAckLevel (am_ackLevel m + 1) (mark_acked k m)
                  in (m', am_ackLevel m'))"
  by (simp add: AckItem_def mark_acked_def Let_def)

lemma AckItem_spec:
  assumes "ack_inv m"
  shows "unacked (fst (AckItem k m)) = unacked m - {k}"
    and "acked_kept (fst (AckItem k m)) =
           {j \<in> acked_kept m \<union> (unacked m \<inter> {k}). ack_target (mark_acked k m) < j}"
    and "am_ackLevel (fst (AckItem k m)) = ack_target (mark_acked k m)"
    and "snd (AckItem k m) = ack_target (mark_acked k m)"
    and "am_readLevel (fst (AckItem k m)) = am_readLevel m"
    and "am_backlogCounter (fst (AckItem k m)) = int (card (unacked m - {k}))"
    and "gm_wf (am_outstandingMessages (fst (AckItem k m)))"
proof -
  have "am_ackLevel m + 1 \<le> j \<and> j \<le> am_readLevel (mark_acked k m)"
    if "j \<in> unacked (mark_acked k m) \<union> acked_kept (mark_acked k m)" for j
    using that ack_inv_bounds [OF assms, of j] by (auto simp: mark_acked_sets)
  note spec = advanceAckLevel_spec [OF gm_wf_mark_acked [OF assms] _ this, simplified]
  show "unacked (fst (AckItem k m)) = unacked m - {k}"
    and "acked_kept (fst (AckItem k m)) =
           {j \<in> acked_kept m \<union> (unacked m \<inter> {k}). ack_target (mark_acked k m) < j}"
    and "am_ackLevel (fst (AckItem k m)) = ack_target (mark_acked k m)"
    and "snd (AckItem k m) = ack_target (mark_acked k m)"
    and "am_readLevel (fst (AckItem k m)) = am_readLevel m"
    and "am_backlogCounter (fst (AckItem k m)) = int (card (unacked m - {k}))"
    and "gm_wf (am_outstandingMessages (fst (AckItem k m)))"
    using spec mark_acked_backlog [OF assms, of k]
    by (simp_all add: AckItem_eq Let_def mark_acked_sets)
qed

lemma ack_target_bounds:
  assumes "ack_inv m"
  shows "am_ackLevel m \<le> ack_target (mark_acked k m)"
    and "ack_target (mark_acked k m) \<le> am_readLevel m"
    and "u \<in> unacked m - {k} \<Longrightarrow> ack_target (mark_acked k m) < u"
proof -
  let ?S = "{j \<in> acked_kept (mark_acked k m). \<forall>u \<in> unacked (mark_acked k m). j < u}"
  show "am_ackLevel m \<le> ack_target (mark_acked k m)"
    unfolding ack_target_def by (rule Max_ge) simp_all
  have "ack_target (mark_acked k m) \<in> insert (am_ackLevel m) ?S"
    unfolding ack_target_def mark_acked_simps by (rule Max_in) simp_all
  then consider "ack_target (mark_acked k m) = am_ackLevel m" | "ack_target (mark_acked k m) \<in> ?S"
    by blast
  note cases = this
  show "ack_target (mark_acked k m) \<le> am_readLevel m"
    by (cases rule: cases) (use assms ack_inv_bounds [OF assms] in
        \<open>auto simp: ack_inv_def mark_acked_sets\<close>)
  show "ack_target (mark_acked k m) < u" if "u \<in> unacked m - {k}"
    by (cases rule: cases) (use that ack_inv_bounds [OF assms, of u] in
        \<open>auto simp: mark_acked_sets\<close>)
qed

lemma ack_inv_AckItem:
  assumes "ack_inv m"
  shows "ack_inv (fst (AckItem k m))"
proof -
  note spec = AckItem_spec [OF assms, of k] and b = ack_target_bounds [OF assms, where k = k]
  have bounds: "am_ackLevel (fst (AckItem k m)) < j \<and> j \<le> am_readLevel (fst (AckItem k m))"
    if "j \<in> fst ` set (am_outstandingMessages (fst (AckItem k m)))" for j
    using that b(3) [of j] ack_inv_bounds [OF assms, of j]
    by (auto simp: outstanding_split spec)
  have "am_outstandingMessages (fst (AckItem k m)) = []" if "am_ackLevel (fst (AckItem k m)) = -1"
  proof -
    have "am_ackLevel m = -1"
      using b(1) that assms by (simp add: spec ack_inv_def)
    then have "unacked m = {}" "acked_kept m = {}"
      using assms by (simp_all add: ack_inv_def unacked_def acked_kept_def)
    then have "fst ` set (am_outstandingMessages (fst (AckItem k m))) = {}"
      unfolding outstanding_split by (simp add: spec)
    then show ?thesis
      by simp
  qed
  moreover have "-1 \<le> am_ackLevel m"
    using assms by (simp add: ack_inv_def)
  ultimately show ?thesis
    using spec b bounds by (simp add: ack_inv_def)
qed


section \<open>The other operations\<close>

lemma ReadItem_ok:
  assumes "ack_inv m" and "am_readLevel m < k" and "k \<noteq> 0 \<or> am_ackLevel m \<noteq> -1"
  shows "snd (ReadItem k m) = None" and "ack_inv (fst (ReadItem k m))"
    and "unacked (fst (ReadItem k m)) = insert k (unacked m)"
    and "am_readLevel (fst (ReadItem k m)) = k"
    and "am_ackLevel (fst (ReadItem k m)) = (if am_ackLevel m = -1 then k - 1 else am_ackLevel m)"
proof -
  have notin: "map_of (am_outstandingMessages m) k = None"
    using assms(1,2) by (fastforce simp: ack_inv_def map_of_eq_None_iff)
  then have k: "k \<notin> unacked m"
    by (simp add: unacked_def)
  show "snd (ReadItem k m) = None"
    and un: "unacked (fst (ReadItem k m)) = insert k (unacked m)"
    and "am_readLevel (fst (ReadItem k m)) = k"
    and "am_ackLevel (fst (ReadItem k m)) = (if am_ackLevel m = -1 then k - 1 else am_ackLevel m)"
    using assms(2) notin by (auto simp: ReadItem_def unacked_def update_conv' Let_def)
  have "am_backlogCounter (fst (ReadItem k m)) = int (card (insert k (unacked m)))"
    using assms notin k by (simp add: ReadItem_def ack_inv_def Let_def)
  then show "ack_inv (fst (ReadItem k m))"
    using assms notin un by (fastforce simp: ReadItem_def ack_inv_def Let_def)
qed

lemma ReadItem_stale:
  assumes "k \<le> am_readLevel m"
  shows "ReadItem k m = (m\<lparr>am_backlogCounter := am_backlogCounter m + 1\<rparr>,
    Some (ItemNotAfterReadLevel k (am_readLevel m)))"
  using assms by (simp add: ReadItem_def)

lemma SetReadLevel_ok:
  assumes "ack_inv m" and "am_readLevel m \<le> r"
  shows "ack_inv (SetReadLevel r m)" and "unacked (SetReadLevel r m) = unacked m"
    and "am_readLevel (SetReadLevel r m) = r" and "am_ackLevel (SetReadLevel r m) = am_ackLevel m"
  using assms by (fastforce simp: SetReadLevel_def ack_inv_def unacked_def)+

lemma levels_equal_empty:
  assumes "ack_inv m" and "am_ackLevel m = am_readLevel m"
  shows "am_outstandingMessages m = []"
  using assms by (cases "am_outstandingMessages m") (auto simp: ack_inv_def)

lemma SetAckLevel_ok:
  assumes "ack_inv m" and "am_outstandingMessages m = []"
  shows "ack_inv (SetAckLevel a m)" and "unacked (SetAckLevel a m) = {}"
    and "am_readLevel (SetAckLevel a m) = max a (am_readLevel m)"
    and "am_ackLevel (SetAckLevel a m) = max a (am_ackLevel m)"
  using assms by (auto simp: SetAckLevel_def ack_inv_def unacked_def Let_def)

section \<open>The contract of an item tracker\<close>

text \<open>
  \<open>tracks D C r P\<close>: of the items \<open>C\<close> that exist, those up to the read level \<open>r\<close> are done
  (\<open>D\<close>) or pending (\<open>P\<close>).
\<close>

definition tracks :: "int set \<Rightarrow> int set \<Rightarrow> int \<Rightarrow> int set \<Rightarrow> bool" where
  "tracks D C r P \<longleftrightarrow> (\<forall>k \<in> C. k \<le> r \<longrightarrow> k \<in> D \<or> k \<in> P)"

lemma tracks_more_done: "tracks D C r P \<Longrightarrow> D \<subseteq> D' \<Longrightarrow> tracks D' C r P"
  by (auto simp: tracks_def)

lemma tracks_created:
  "tracks D C r P \<Longrightarrow> (\<And>k. k \<in> N \<Longrightarrow> r < k) \<Longrightarrow> tracks D (C \<union> N) r P"
  by (force simp: tracks_def)

locale ack_tracker =
  fixes inv :: "'m \<Rightarrow> bool" and pending :: "'m \<Rightarrow> int set"
    and rl :: "'m \<Rightarrow> int" and al :: "'m \<Rightarrow> int"
    and read :: "int \<Rightarrow> 'm \<Rightarrow> 'm \<times> 'e option" and ack :: "int \<Rightarrow> 'm \<Rightarrow> 'm \<times> int"
    and set_rl :: "int \<Rightarrow> 'm \<Rightarrow> 'm" and set_al :: "int \<Rightarrow> 'm \<Rightarrow> 'm"
  assumes pending_bounds: "inv m \<Longrightarrow> k \<in> pending m \<Longrightarrow> al m < k \<and> k \<le> rl m"
    and levels: "inv m \<Longrightarrow> al m \<le> rl m"
    and read_next: "inv m \<Longrightarrow> rl m < k \<Longrightarrow> 0 < k \<Longrightarrow>
      snd (read k m) = None \<and> inv (fst (read k m)) \<and>
      pending (fst (read k m)) = insert k (pending m) \<and> rl (fst (read k m)) = k \<and>
      al m \<le> al (fst (read k m))"
    and ack_any: "inv m \<Longrightarrow>
      inv (fst (ack k m)) \<and> pending (fst (ack k m)) = pending m - {k} \<and>
      rl (fst (ack k m)) = rl m \<and> al m \<le> al (fst (ack k m)) \<and>
      snd (ack k m) = al (fst (ack k m))"
    and skip: "inv m \<Longrightarrow> rl m \<le> r \<Longrightarrow>
      inv (set_rl r m) \<and> pending (set_rl r m) = pending m \<and> rl (set_rl r m) = r \<and>
      al (set_rl r m) = al m"
    and jump: "inv m \<Longrightarrow> al m = rl m \<Longrightarrow>
      inv (set_al a m) \<and> pending (set_al a m) = {} \<and> rl (set_al a m) = max a (rl m) \<and>
      al (set_al a m) = max a (al m)"
    and skip_jump: "inv m \<Longrightarrow> al m = rl m \<Longrightarrow> rl m \<le> r \<Longrightarrow>
      inv (set_al r (set_rl r m)) \<and> pending (set_al r (set_rl r m)) = {} \<and>
      rl (set_al r (set_rl r m)) = r \<and> al (set_al r (set_rl r m)) = r"
begin

lemma acked_are_done:
  assumes "inv m" and "tracks D C (rl m) (pending m)" and "k \<in> C" and "k \<le> al m"
  shows "k \<in> D"
proof -
  have "k \<notin> pending m"
    using pending_bounds [OF assms(1), of k] assms(4) by auto
  then show ?thesis
    using assms levels [OF assms(1)] by (force simp: tracks_def)
qed

lemma tracks_ack:
  assumes "inv m" and "tracks D C (rl m) (pending m)"
  shows "tracks (insert k D) C (rl (fst (ack k m))) (pending (fst (ack k m)))"
  using assms ack_any [OF assms(1), of k] by (auto simp: tracks_def)

lemma tracks_read:
  assumes "inv m" and "tracks D C (rl m) (pending m)" and "rl m < k" and "0 < k"
    and "\<And>j. j \<in> C \<Longrightarrow> rl m < j \<Longrightarrow> j < k \<Longrightarrow> j \<in> D"
  shows "tracks D C (rl (fst (read k m))) (pending (fst (read k m)))"
  using assms(2,5) read_next [OF assms(1,3,4)] by (fastforce simp: tracks_def)

lemma tracks_skip:
  assumes "inv m" and "tracks D C (rl m) (pending m)" and "rl m \<le> r"
    and "\<And>j. j \<in> C \<Longrightarrow> rl m < j \<Longrightarrow> j \<le> r \<Longrightarrow> j \<in> D"
  shows "tracks D C (rl (set_rl r m)) (pending (set_rl r m))"
  using assms(2,4) skip [OF assms(1,3)] by (fastforce simp: tracks_def)

lemma tracks_jump:
  assumes "inv m" and "al m = rl m" and "\<And>j. j \<in> C \<Longrightarrow> j \<le> max a (rl m) \<Longrightarrow> j \<in> D"
  shows "tracks D C (rl (set_al a m)) (pending (set_al a m))"
  using assms(3) jump [OF assms(1,2), of a] by (auto simp: tracks_def)

lemma tracks_skip_jump:
  assumes "inv m" and "tracks D C (rl m) (pending m)" and "al m = rl m" and "rl m \<le> r"
    and "\<And>j. j \<in> C \<Longrightarrow> rl m < j \<Longrightarrow> j \<le> r \<Longrightarrow> j \<in> D"
  shows "tracks D C (rl (set_al r (set_rl r m))) (pending (set_al r (set_rl r m)))"
proof -
  have "j \<in> D" if "j \<in> C" "j \<le> r" for j
    using acked_are_done [OF assms(1,2) that(1)] assms(3,5) that by force
  then show ?thesis
    using skip_jump [OF assms(1,3,4)] by (auto simp: tracks_def)
qed

end

interpretation am: ack_tracker ack_inv unacked am_readLevel am_ackLevel ReadItem AckItem
  SetReadLevel SetAckLevel
proof unfold_locales
  fix m k r a
  assume inv: "ack_inv m"
  show "am_ackLevel m < k \<and> k \<le> am_readLevel m" if "k \<in> unacked m"
    using ack_inv_bounds [OF inv, of k] that by simp
  show "am_ackLevel m \<le> am_readLevel m"
    using inv by (simp add: ack_inv_def)
  show "snd (ReadItem k m) = None \<and> ack_inv (fst (ReadItem k m)) \<and>
      unacked (fst (ReadItem k m)) = insert k (unacked m) \<and> am_readLevel (fst (ReadItem k m)) = k \<and>
      am_ackLevel m \<le> am_ackLevel (fst (ReadItem k m))" if "am_readLevel m < k" and "0 < k"
    using ReadItem_ok [OF inv that(1)] that by simp
  show "ack_inv (fst (AckItem k m)) \<and> unacked (fst (AckItem k m)) = unacked m - {k} \<and>
      am_readLevel (fst (AckItem k m)) = am_readLevel m \<and>
      am_ackLevel m \<le> am_ackLevel (fst (AckItem k m)) \<and>
      snd (AckItem k m) = am_ackLevel (fst (AckItem k m))"
    using ack_inv_AckItem [OF inv] AckItem_spec [OF inv] ack_target_bounds(1) [OF inv] by simp
  show "ack_inv (SetReadLevel r m) \<and> unacked (SetReadLevel r m) = unacked m \<and>
      am_readLevel (SetReadLevel r m) = r \<and> am_ackLevel (SetReadLevel r m) = am_ackLevel m"
    if "am_readLevel m \<le> r"
    using SetReadLevel_ok [OF inv that] by simp
  show "ack_inv (SetAckLevel a m) \<and> unacked (SetAckLevel a m) = {} \<and>
      am_readLevel (SetAckLevel a m) = max a (am_readLevel m) \<and>
      am_ackLevel (SetAckLevel a m) = max a (am_ackLevel m)" if "am_ackLevel m = am_readLevel m"
    using SetAckLevel_ok [OF inv levels_equal_empty [OF inv that]] by simp
  show "ack_inv (SetAckLevel r (SetReadLevel r m)) \<and> unacked (SetAckLevel r (SetReadLevel r m)) = {} \<and>
      am_readLevel (SetAckLevel r (SetReadLevel r m)) = r \<and>
      am_ackLevel (SetAckLevel r (SetReadLevel r m)) = r"
    if "am_ackLevel m = am_readLevel m" and "am_readLevel m \<le> r"
  proof -
    have "am_outstandingMessages (SetReadLevel r m) = []"
      using levels_equal_empty [OF inv that(1)] by (simp add: SetReadLevel_def)
    then show ?thesis
      using SetAckLevel_ok [OF SetReadLevel_ok(1) [OF inv that(2)], of r] SetReadLevel_ok(3,4) [OF inv that(2)] that
      by simp
  qed
qed


section \<open>The Kafka partition manager\<close>

text \<open>
  \<open>common/messaging/kafka/partition_ack_manager.go\<close>: one ack manager per partition, created by
  the first message of the partition. The consumer commits \<open>ackLevel + 1\<close> as the next offset to
  read, so a message up to the ack level is never delivered again.
\<close>

type_synonym partitionAckManager = "(int, ackManager) gomap"

definition AddMessage :: "int \<Rightarrow> int \<Rightarrow> partitionAckManager \<Rightarrow> partitionAckManager" where
  "AddMessage partitionID messageID pam =
     (case map_of pam partitionID of
        Some am \<Rightarrow> AList.update partitionID (fst (ReadItem messageID am)) pam
      | None \<Rightarrow> AList.update partitionID (fst (ReadItem messageID newAckManager)) pam)"

definition CompleteMessage ::
  "int \<Rightarrow> int \<Rightarrow> partitionAckManager \<Rightarrow> partitionAckManager \<times> string option \<times> int" where
  "CompleteMessage partitionID messageID pam =
     (case map_of pam partitionID of
        Some am \<Rightarrow> (case AckItem messageID am of
            (am', ackLevel) \<Rightarrow> (AList.update partitionID am' pam, None, ackLevel))
      | None \<Rightarrow>
          (pam, Some ''Failed to complete an message that hasn't been added to the partition'', -1))"

section \<open>Runs of the partition manager\<close>

text \<open>The consumer adds and completes messages of its partitions in any order.\<close>

datatype pam_op = Add int int | Complete int int

fun pam_step :: "pam_op \<Rightarrow> partitionAckManager \<Rightarrow> partitionAckManager" where
  "pam_step (Add p k) pam = AddMessage p k pam"
| "pam_step (Complete p k) pam = fst (CompleteMessage p k pam)"

definition pam_run :: "pam_op list \<Rightarrow> partitionAckManager \<Rightarrow> partitionAckManager" where
  "pam_run ops pam = fold pam_step ops pam"

text \<open>The offsets added to a partition, in order, and those added and not completed since.\<close>

definition offsets :: "int \<Rightarrow> pam_op list \<Rightarrow> int list" where
  "offsets p ops = concat (map (\<lambda>op. case op of Add p' k \<Rightarrow> if p' = p then [k] else [] | Complete p' k \<Rightarrow> []) ops)"

fun open_step :: "int \<Rightarrow> pam_op \<Rightarrow> int set \<Rightarrow> int set" where
  "open_step p (Add p' k) S = (if p' = p then insert k S else S)"
| "open_step p (Complete p' k) S = (if p' = p then S - {k} else S)"

definition open_messages :: "int \<Rightarrow> pam_op list \<Rightarrow> int set" where
  "open_messages p ops = fold (open_step p) ops {}"

lemma run_snoc [simp]:
  "pam_run (ops @ [op]) pam = pam_step op (pam_run ops pam)"
  "open_messages p (ops @ [op]) = open_step p op (open_messages p ops)"
  "offsets p (ops @ [Add p' k]) = offsets p ops @ (if p' = p then [k] else [])"
  "offsets p (ops @ [Complete p' k]) = offsets p ops"
  by (simp_all add: pam_run_def open_messages_def offsets_def)

lemma map_of_AddMessage:
  "map_of (AddMessage p' k pam) p = (if p' = p
     then Some (fst (ReadItem k (case map_of pam p of Some m \<Rightarrow> m | None \<Rightarrow> newAckManager))) else map_of pam p)"
  by (simp add: AddMessage_def update_conv' split: option.splits)

lemma map_of_CompleteMessage:
  "map_of (fst (CompleteMessage p' k pam)) p = (if p' = p
     then map_option (\<lambda>m. fst (AckItem k m)) (map_of pam p) else map_of pam p)"
  by (auto simp: CompleteMessage_def update_conv' split: option.splits prod.splits)

text \<open>
  What the manager of a partition knows after a run: the open messages are the unacknowledged
  items, and every offset that was added is covered by the ack level or still outstanding.
\<close>

definition partition_inv :: "int \<Rightarrow> pam_op list \<Rightarrow> ackManager \<Rightarrow> bool" where
  "partition_inv p ops m \<longleftrightarrow> ack_inv m \<and> unacked m = open_messages p ops \<and>
     am_readLevel m = (if offsets p ops = [] then -1 else last (offsets p ops)) \<and>
     (\<forall>j \<in> set (offsets p ops). j \<le> am_ackLevel m \<or> j \<in> unacked m \<union> acked_kept m)"

lemma partition_inv_read:
  assumes inv: "partition_inv p ops m" and ord: "sorted_wrt (<) (offsets p ops @ [k])" and pos: "0 < k"
  shows "partition_inv p (ops @ [Add p k]) (fst (ReadItem k m))"
proof -
  have m: "ack_inv m" using inv by (simp add: partition_inv_def)
  have k: "am_readLevel m < k"
    using inv ord pos by (auto simp: partition_inv_def sorted_wrt_append)
  note r = ReadItem_ok [OF m k] and lv = am.levels [OF m]
  have "acked_kept m \<subseteq> acked_kept (fst (ReadItem k m))"
    using ack_inv_bounds(2) [OF m] k by (force simp: ReadItem_def acked_kept_def Let_def update_conv')
  then show ?thesis
    using inv r pos k lv by (fastforce simp: partition_inv_def split: if_splits)
qed

lemma AckItem_covers:
  assumes m: "ack_inv m" and j: "j \<le> am_ackLevel m \<or> j \<in> unacked m \<union> acked_kept m"
  shows "j \<le> am_ackLevel (fst (AckItem k m)) \<or> j \<in> unacked (fst (AckItem k m)) \<union> acked_kept (fst (AckItem k m))"
  using j ack_target_bounds(1) [OF m, of k] by (auto simp: AckItem_spec [OF m])

lemma partition_inv_ack:
  assumes inv: "partition_inv p ops m"
  shows "partition_inv p (ops @ [Complete p k]) (fst (AckItem k m))"
proof -
  have m: "ack_inv m" using inv by (simp add: partition_inv_def)
  have "\<forall>j \<in> set (offsets p ops). j \<le> am_ackLevel (fst (AckItem k m)) \<or>
      j \<in> unacked (fst (AckItem k m)) \<union> acked_kept (fst (AckItem k m))"
    using inv AckItem_covers [OF m] unfolding partition_inv_def by blast
  then show ?thesis
    using inv am.ack_any [OF m, of k] by (simp add: partition_inv_def)
qed

lemma partition_inv_other:
  "p' \<noteq> p \<Longrightarrow> partition_inv p (ops @ [Add p' k]) m = partition_inv p ops m"
  "p' \<noteq> p \<Longrightarrow> partition_inv p (ops @ [Complete p' k]) m = partition_inv p ops m"
  by (simp_all add: partition_inv_def)

lemma partition_inv_run:
  assumes "sorted_wrt (<) (offsets p ops)" and "\<forall>k \<in> set (offsets p ops). 0 < k"
  shows "(case map_of (pam_run ops []) p of None \<Rightarrow> offsets p ops = [] | Some m \<Rightarrow> offsets p ops \<noteq> []) \<and>
    partition_inv p ops (case map_of (pam_run ops []) p of None \<Rightarrow> newAckManager | Some m \<Rightarrow> m)"
  using assms
proof (induction ops rule: rev_induct)
  case Nil
  then show ?case
    by (simp add: pam_run_def partition_inv_def ack_inv_newAckManager open_messages_def offsets_def)
       (simp add: newAckManager_def unacked_def)
next
  case (snoc op ops)
  show ?case
  proof (cases op)
    case (Add p' k)
    have "sorted_wrt (<) (offsets p ops)" "\<forall>k \<in> set (offsets p ops). 0 < k"
      using snoc.prems Add by (auto simp: sorted_wrt_append split: if_splits)
    note IH = snoc.IH [OF this]
    show ?thesis
    proof (cases "p' = p")
      case True
      then have "sorted_wrt (<) (offsets p ops @ [k])" "0 < k"
        using snoc.prems Add by auto
      then show ?thesis
        using IH partition_inv_read [of p ops _ k] True Add
        by (auto simp: map_of_AddMessage split: option.splits)
    next
      case False
      then show ?thesis
        using IH Add by (auto simp: map_of_AddMessage partition_inv_other split: option.splits)
    qed
  next
    case (Complete p' k)
    then have IH: "(case map_of (pam_run ops []) p of None \<Rightarrow> offsets p ops = [] | Some m \<Rightarrow> offsets p ops \<noteq> []) \<and>
        partition_inv p ops (case map_of (pam_run ops []) p of None \<Rightarrow> newAckManager | Some m \<Rightarrow> m)"
      using snoc by simp
    have new: "partition_inv p (ops @ [Complete p k]) newAckManager" if "partition_inv p ops newAckManager"
      using that by (simp add: partition_inv_def) (simp add: newAckManager_def unacked_def)
    show ?thesis
      using IH Complete partition_inv_ack [of p ops _ k] new
      by (cases "p' = p") (auto simp: map_of_CompleteMessage partition_inv_other split: option.splits)
  qed
qed

text \<open>A completion reports a level that covers exactly the messages before the first open one.\<close>

lemma AckItem_level_exact:
  assumes inv: "partition_inv p ops m" and j: "j \<in> set (offsets p ops)"
  shows "j \<le> snd (AckItem c m) \<longleftrightarrow> (\<forall>u \<in> open_messages p ops - {c}. j < u)"
proof -
  have m: "ack_inv m" and un: "unacked m = open_messages p ops"
    and cov: "j \<le> am_ackLevel m \<or> j \<in> unacked m \<union> acked_kept m"
    using inv j by (auto simp: partition_inv_def)
  let ?S = "{j \<in> acked_kept (mark_acked c m). \<forall>u \<in> unacked (mark_acked c m). j < u}"
  have T: "snd (AckItem c m) = Max (insert (am_ackLevel m) ?S)"
    by (simp add: AckItem_spec [OF m] ack_target_def)
  show ?thesis
  proof
    assume "j \<le> snd (AckItem c m)"
    then show "\<forall>u \<in> open_messages p ops - {c}. j < u"
      using ack_target_bounds(3) [OF m, of _ c] un by (auto simp: AckItem_spec [OF m] intro: le_less_trans)
  next
    assume less: "\<forall>u \<in> open_messages p ops - {c}. j < u"
    show "j \<le> snd (AckItem c m)"
    proof (cases "j \<le> am_ackLevel m")
      case True
      then show ?thesis
        using ack_target_bounds(1) [OF m, of c] by (simp add: AckItem_spec [OF m])
    next
      case False
      then have "j \<in> ?S"
        using cov less un by (auto simp: mark_acked_sets)
      then show ?thesis
        unfolding T by (intro Max_ge) auto
    qed
  qed
qed

section \<open>Offset 0\<close>

text \<open>
  Once the ack level has passed item 0 while it is open, it stays there: whatever is read and
  acknowledged, item 0 apart, the item is outstanding and the level does not fall.
\<close>

definition zero_passed :: "int \<Rightarrow> ackManager \<Rightarrow> bool" where
  "zero_passed l m \<longleftrightarrow> l \<le> am_ackLevel m \<and> map_of (am_outstandingMessages m) 0 = Some False"

lemma advanceAckLevel_above:
  assumes "0 < current" and "am_ackLevel m < current"
  shows "am_ackLevel m \<le> am_ackLevel (advanceAckLevel current m) \<and>
    map_of (am_outstandingMessages (advanceAckLevel current m)) 0 = map_of (am_outstandingMessages m) 0"
  using assms
proof (induction current m rule: advanceAckLevel.induct)
  case (1 current m)
  let ?m = "m\<lparr>am_ackLevel := current, am_outstandingMessages := AList.delete current (am_outstandingMessages m)\<rparr>"
  show ?case
    using 1 by (subst (1 2) advanceAckLevel.simps) (force simp: delete_conv' split: option.splits)
qed

lemma zero_passed_AckItem:
  assumes "zero_passed l m" and "0 \<le> l" and "c \<noteq> 0"
  shows "zero_passed l (fst (AckItem c m))" and "l \<le> snd (AckItem c m)"
  using assms advanceAckLevel_above [of "am_ackLevel m + 1" "mark_acked c m"]
  by (auto simp: zero_passed_def AckItem_eq Let_def) (auto simp: mark_acked_def update_conv')

lemma zero_passed_ReadItem: "zero_passed l m \<Longrightarrow> 0 \<le> l \<Longrightarrow> zero_passed l (fst (ReadItem k m))"
  by (auto simp: zero_passed_def ReadItem_def Let_def update_conv')

lemma zero_passed_start:
  "0 < k \<Longrightarrow> zero_passed (k - 1) (fst (ReadItem k (fst (ReadItem 0 newAckManager))))"
  by (simp add: zero_passed_def ReadItem_def newAckManager_def Let_def)

lemma zero_passed_run:
  assumes "map_of pam p = Some m" and "zero_passed l m" and "0 \<le> l" and "Complete p 0 \<notin> set ops"
  shows "\<exists>m'. map_of (pam_run ops pam) p = Some m' \<and> zero_passed l m'"
  using assms(4)
proof (induction ops rule: rev_induct)
  case Nil
  then show ?case using assms by (simp add: pam_run_def)
next
  case (snoc op ops)
  then obtain m' where "map_of (pam_run ops pam) p = Some m'" "zero_passed l m'" by auto
  then show ?case
    using snoc.prems zero_passed_ReadItem [OF _ assms(3)] zero_passed_AckItem(1) [OF _ assms(3)]
    by (cases op) (auto simp: map_of_AddMessage map_of_CompleteMessage)
qed

end
