(* ===== verification/Tasklist_Store.thy ===== *)
theory Tasklist_Store
  imports Cadence_Prelude
begin

text \<open>
  The SQL store of matching task lists: \<open>common/persistence/sql/sql_task_store.go\<close> over the
  MySQL queries of \<open>common/persistence/sql/sqlplugin/mysql/task.go\<close>. Two tables: \<open>task_lists\<close>
  with one row per task list (its range ID, the fencing token of the host that owns it, and its ack
  level), and \<open>tasks\<close> with primary key (domain, task list, type, task ID). MySQL has no TTL,
  so the branches for databases that support it are not taken. Blobs are kept as the values they
  encode; the zero time, which the encoding turns into a wrapped nanosecond count, is the one
  value that changes on the way (\<open>zeroTimeNanos\<close>). A transaction is one atomic operation, and so is
  a lease, of which the code reads or inserts the row before the transaction begins.
\<close>

section \<open>Data\<close>

text \<open>Domain ID, task list name and task type.\<close>

type_synonym tl_key = "string \<times> string \<times> int"

datatype tl_error =
    ConditionFailedError
  | InternalServiceErr
  | ServiceBusyErr
  | TimeoutErr
  | DBUnavailableErr
  | EntityNotExistsErr
  | OtherErr
  | ErrShutdown
  | InvalidBlockState int int

text \<open>\<open>persistence.IsTransientError\<close>.\<close>

definition IsTransientError :: "tl_error \<Rightarrow> bool" where
  "IsTransientError e \<longleftrightarrow> e \<in> {InternalServiceErr, ServiceBusyErr, TimeoutErr, DBUnavailableErr}"

record TaskInfo =
  ti_DomainID :: string
  ti_WorkflowID :: string
  ti_RunID :: string
  ti_TaskID :: int
  ti_ScheduleID :: int
  ti_ScheduleToStartTimeoutSeconds :: int
  ti_Expiry :: int
  ti_CreatedTime :: int
  ti_PartitionConfig :: "(string, string) gomap"

record tasks_row =
  tkr_List :: tl_key
  tkr_TaskID :: int
  tkr_WorkflowID :: string
  tkr_RunID :: string
  tkr_ScheduleID :: int
  tkr_ExpiryTimestamp :: int
  tkr_CreatedTimestamp :: int
  tkr_PartitionConfig :: "(string, string) gomap"

text \<open>Version, read partitions and write partitions, each with its isolation groups.\<close>

type_synonym partition_config =
  "int \<times> (int, string list) gomap \<times> (int, string list) gomap"

record task_lists_row =
  tlr_RangeID :: int
  tlr_AckLevel :: int
  tlr_Kind :: int
  tlr_ExpiryTimestamp :: int
  tlr_LastUpdated :: int
  tlr_AdaptivePartitionConfig :: "partition_config option"

record tl_store =
  st_task_lists :: "(tl_key, task_lists_row) gomap"
  st_tasks :: "tasks_row list"

record TaskListInfo =
  tli_RangeID :: int
  tli_AckLevel :: int
  tli_Kind :: int
  tli_AdaptivePartitionConfig :: "partition_config option"

section \<open>Task lists\<close>

definition taskListTTL :: int where
  "taskListTTL = 24 * 3600 * 1000000000"

text \<open>\<open>TaskListKindSticky\<close> is 1 and \<open>TaskListKindEphemeral\<close> 2.\<close>

definition TaskListKindHasTTL :: "int \<Rightarrow> bool" where
  "TaskListKindHasTTL kind \<longleftrightarrow> kind = 1 \<or> kind = 2"

definition lockTaskList :: "tl_store \<Rightarrow> tl_key \<Rightarrow> int \<Rightarrow> tl_error option" where
  "lockTaskList s key oldRangeID =
     (case map_of (st_task_lists s) key of
        Some row \<Rightarrow> if tlr_RangeID row \<noteq> oldRangeID then Some ConditionFailedError else None
      | None \<Rightarrow> Some ConditionFailedError)"

definition put_task_list :: "tl_key \<Rightarrow> task_lists_row \<Rightarrow> tl_store \<Rightarrow> tl_store" where
  "put_task_list key row s = s\<lparr>st_task_lists := AList.update key row (st_task_lists s)\<rparr>"

definition lease_row :: "int \<Rightarrow> int \<Rightarrow> task_lists_row" where
  "lease_row now kind = \<lparr>tlr_RangeID = 0, tlr_AckLevel = 0, tlr_Kind = kind,
     tlr_ExpiryTimestamp = 0, tlr_LastUpdated = now, tlr_AdaptivePartitionConfig = None\<rparr>"

text \<open>
  A missing row is inserted before the range ID of the request is looked at, outside the
  transaction that takes the lease.
\<close>

definition LeaseTaskList ::
  "int \<Rightarrow> tl_key \<Rightarrow> int \<Rightarrow> int \<Rightarrow> tl_store \<Rightarrow> tl_store \<times> (tl_error + TaskListInfo)" where
  "LeaseTaskList now key kind rangeID s0 =
     (let s = (case map_of (st_task_lists s0) key of
                 None \<Rightarrow> put_task_list key (lease_row now kind) s0
               | Some _ \<Rightarrow> s0)
      in case map_of (st_task_lists s) key of
           None \<Rightarrow> (s, Inl OtherErr)
         | Some row \<Rightarrow>
             if rangeID > 0 \<and> rangeID \<noteq> tlr_RangeID row then (s, Inl ConditionFailedError)
             else (case lockTaskList s key (tlr_RangeID row) of
                 Some e \<Rightarrow> (s, Inl e)
               | None \<Rightarrow>
                   (put_task_list key
                      (row\<lparr>tlr_RangeID := tlr_RangeID row + 1, tlr_LastUpdated := now\<rparr>) s,
                    Inr \<lparr>tli_RangeID = tlr_RangeID row + 1, tli_AckLevel = tlr_AckLevel row,
                         tli_Kind = kind,
                         tli_AdaptivePartitionConfig = tlr_AdaptivePartitionConfig row\<rparr>)))"

definition GetTaskList :: "tl_key \<Rightarrow> tl_store \<Rightarrow> tl_error + TaskListInfo" where
  "GetTaskList key s =
     (case map_of (st_task_lists s) key of
        None \<Rightarrow> Inl EntityNotExistsErr
      | Some row \<Rightarrow> Inr \<lparr>tli_RangeID = tlr_RangeID row, tli_AckLevel = tlr_AckLevel row,
          tli_Kind = tlr_Kind row,
          tli_AdaptivePartitionConfig = tlr_AdaptivePartitionConfig row\<rparr>)"

definition UpdateTaskList ::
  "int \<Rightarrow> tl_key \<Rightarrow> TaskListInfo \<Rightarrow> tl_store \<Rightarrow> tl_store \<times> tl_error option" where
  "UpdateTaskList now key info s =
     (let row = \<lparr>tlr_RangeID = tli_RangeID info, tlr_AckLevel = tli_AckLevel info,
                 tlr_Kind = tli_Kind info,
                 tlr_ExpiryTimestamp =
                   (if TaskListKindHasTTL (tli_Kind info) then now + taskListTTL else 0),
                 tlr_LastUpdated = now,
                 tlr_AdaptivePartitionConfig = tli_AdaptivePartitionConfig info\<rparr>
      in case lockTaskList s key (tli_RangeID info) of
           Some e \<Rightarrow> (s, Some e)
         | None \<Rightarrow> (put_task_list key row s, None))"

definition DeleteTaskList :: "tl_key \<Rightarrow> int \<Rightarrow> tl_store \<Rightarrow> tl_store \<times> tl_error option" where
  "DeleteTaskList key rangeID s =
     (case map_of (st_task_lists s) key of
        Some row \<Rightarrow>
          if tlr_RangeID row = rangeID
          then (s\<lparr>st_task_lists := AList.delete key (st_task_lists s)\<rparr>, None)
          else (s, Some InternalServiceErr)
      | None \<Rightarrow> (s, Some InternalServiceErr))"

section \<open>Tasks\<close>

text \<open>
  The zero \<open>time.Time\<close> (1 January of year 1) does not fit in 64 bits of nanoseconds:
  \<open>UnixNano\<close> wraps, and reading it back gives an instant of the year 1754.
\<close>

definition tl_zeroTime :: int where
  "tl_zeroTime = -62135596800 * 1000000000"

definition zeroTimeNanos :: int where
  "zeroTimeNanos = wrap64 tl_zeroTime"

definition create_row :: "int \<Rightarrow> tl_key \<Rightarrow> int \<times> TaskInfo \<Rightarrow> tasks_row" where
  "create_row now key t = (case t of (taskID, data) \<Rightarrow>
     \<lparr>tkr_List = (ti_DomainID data, snd key), tkr_TaskID = taskID,
      tkr_WorkflowID = ti_WorkflowID data, tkr_RunID = ti_RunID data,
      tkr_ScheduleID = ti_ScheduleID data,
      tkr_ExpiryTimestamp =
        (if ti_ScheduleToStartTimeoutSeconds data > 0
         then now + ti_ScheduleToStartTimeoutSeconds data * 1000000000
         else zeroTimeNanos),
      tkr_CreatedTimestamp = now, tkr_PartitionConfig = ti_PartitionConfig data\<rparr>)"

definition row_id :: "tasks_row \<Rightarrow> tl_key \<times> int" where
  "row_id r = (tkr_List r, tkr_TaskID r)"

definition InsertIntoTasks :: "tasks_row list \<Rightarrow> tl_store \<Rightarrow> tl_error + tl_store" where
  "InsertIntoTasks rows s =
     (if distinct (map row_id (st_tasks s @ rows))
      then Inr (s\<lparr>st_tasks := st_tasks s @ rows\<rparr>) else Inl OtherErr)"

definition CreateTasks ::
  "int \<Rightarrow> tl_key \<Rightarrow> int \<Rightarrow> (int \<times> TaskInfo) list \<Rightarrow> tl_store \<Rightarrow> tl_store \<times> tl_error option" where
  "CreateTasks now key rangeID tasks s =
     (case InsertIntoTasks (map (create_row now key) tasks) s of
        Inl _ \<Rightarrow> (s, Some InternalServiceErr)
      | Inr s' \<Rightarrow> (case lockTaskList s' key rangeID of
            Some e \<Rightarrow> (s, Some e)
          | None \<Rightarrow> (s', None)))"

definition SelectFromTasks ::
  "tl_key \<Rightarrow> int \<Rightarrow> int \<Rightarrow> int \<Rightarrow> tl_store \<Rightarrow> tl_error + tasks_row list" where
  "SelectFromTasks key minTaskID maxTaskID pageSize s =
     (if pageSize < 0 then Inl OtherErr
      else Inr (take (nat pageSize) (sort_key tkr_TaskID
        (filter (\<lambda>r. tkr_List r = key \<and> minTaskID < tkr_TaskID r \<and> tkr_TaskID r \<le> maxTaskID)
           (st_tasks s)))))"

definition task_of_row :: "tasks_row \<Rightarrow> TaskInfo" where
  "task_of_row r = \<lparr>ti_DomainID = fst (tkr_List r), ti_WorkflowID = tkr_WorkflowID r,
     ti_RunID = tkr_RunID r, ti_TaskID = tkr_TaskID r, ti_ScheduleID = tkr_ScheduleID r,
     ti_ScheduleToStartTimeoutSeconds = 0, ti_Expiry = tkr_ExpiryTimestamp r,
     ti_CreatedTime = tkr_CreatedTimestamp r, ti_PartitionConfig = tkr_PartitionConfig r\<rparr>"

definition tl_GetTasks ::
  "tl_key \<Rightarrow> int \<Rightarrow> int \<Rightarrow> int \<Rightarrow> tl_store \<Rightarrow> tl_error + TaskInfo list" where
  "tl_GetTasks key readLevel maxReadLevel batchSize s =
     (case SelectFromTasks key readLevel maxReadLevel batchSize s of
        Inl _ \<Rightarrow> Inl InternalServiceErr
      | Inr rows \<Rightarrow> Inr (map task_of_row rows))"

text \<open>The first rows of a task list up to a task ID, in the order of the primary key.\<close>

definition oldest_rows :: "tl_key \<Rightarrow> int \<Rightarrow> int \<Rightarrow> tl_store \<Rightarrow> tasks_row list" where
  "oldest_rows key maxID limit s = take (nat limit) (sort_key tkr_TaskID
     (filter (\<lambda>r. tkr_List r = key \<and> tkr_TaskID r \<le> maxID) (st_tasks s)))"

definition DeleteFromTasks ::
  "tl_key \<Rightarrow> int \<Rightarrow> int \<Rightarrow> tl_store \<Rightarrow> tl_store \<times> (tl_error + int)" where
  "DeleteFromTasks key maxID limit s =
     (if limit = 0 then (s, Inl OtherErr)
      else if limit < 0 then (s, Inl OtherErr)
      else (s\<lparr>st_tasks := filter (\<lambda>r. row_id r \<notin> row_id ` set (oldest_rows key maxID limit s))
                (st_tasks s)\<rparr>,
            Inr (int (length (oldest_rows key maxID limit s)))))"

definition CompleteTasksLessThan ::
  "tl_key \<Rightarrow> int \<Rightarrow> int \<Rightarrow> tl_store \<Rightarrow> tl_store \<times> (tl_error + int)" where
  "CompleteTasksLessThan key taskID limit s =
     (case DeleteFromTasks key taskID limit s of
        (s', Inl _) \<Rightarrow> (s', Inl InternalServiceErr)
      | (s', Inr nRows) \<Rightarrow> (s', Inr nRows))"

definition CompleteTask :: "tl_key \<Rightarrow> int \<Rightarrow> tl_store \<Rightarrow> tl_store" where
  "CompleteTask key taskID s =
     s\<lparr>st_tasks := filter (\<lambda>r. row_id r \<noteq> (key, taskID)) (st_tasks s)\<rparr>"

definition GetTaskListSize :: "tl_key \<Rightarrow> int \<Rightarrow> tl_store \<Rightarrow> int" where
  "GetTaskListSize key ackLevel s =
     int (length (filter (\<lambda>r. tkr_List r = key \<and> ackLevel < tkr_TaskID r) (st_tasks s)))"


section \<open>What the operations do to the task IDs of a list\<close>

definition list_ids :: "tl_key \<Rightarrow> tl_store \<Rightarrow> int set" where
  "list_ids key s = {tkr_TaskID r |r. r \<in> set (st_tasks s) \<and> tkr_List r = key}"

definition store_wf :: "tl_store \<Rightarrow> bool" where
  "store_wf s \<longleftrightarrow> distinct (map row_id (st_tasks s))"

definition list_range :: "tl_key \<Rightarrow> tl_store \<Rightarrow> int option" where
  "list_range key s = map_option tlr_RangeID (map_of (st_task_lists s) key)"

definition list_ack :: "tl_key \<Rightarrow> tl_store \<Rightarrow> int option" where
  "list_ack key s = map_option tlr_AckLevel (map_of (st_task_lists s) key)"

lemma put_task_list_simps [simp]:
  "st_tasks (put_task_list key row s) = st_tasks s"
  "list_ids k (put_task_list key row s) = list_ids k s"
  "store_wf (put_task_list key row s) = store_wf s"
  "map_of (st_task_lists (put_task_list key row s)) =
     (map_of (st_task_lists s))(key \<mapsto> row)"
  by (simp_all add: put_task_list_def list_ids_def store_wf_def update_conv')

lemma lockTaskList_None:
  "lockTaskList s key r = None \<longleftrightarrow> list_range key s = Some r"
  by (auto simp: lockTaskList_def list_range_def split: option.splits)

lemma lockTaskList_Some:
  "lockTaskList s key r = Some e \<longleftrightarrow> list_range key s \<noteq> Some r \<and> e = ConditionFailedError"
  by (auto simp: lockTaskList_def list_range_def split: option.splits)

text \<open>
  A lease either fails and leaves the row as it was, except that a missing row is created with
  range 0, or returns the successor of the range ID in the table.
\<close>

lemma LeaseTaskList_ids [simp]:
  "list_ids k (fst (LeaseTaskList now key kind r s)) = list_ids k s"
  "store_wf (fst (LeaseTaskList now key kind r s)) = store_wf s"
  by (auto simp: LeaseTaskList_def Let_def split: option.splits)

lemma LeaseTaskList_Inr:
  assumes "LeaseTaskList now key kind r s = (s', Inr info)"
  shows "list_range key s' = Some (tli_RangeID info)"
    and "list_ack key s' = Some (tli_AckLevel info)"
    and "tli_RangeID info = (case list_range key s of None \<Rightarrow> 1 | Some g \<Rightarrow> g + 1)"
    and "tli_AckLevel info = (case list_ack key s of None \<Rightarrow> 0 | Some a \<Rightarrow> a)"
    and "r > 0 \<Longrightarrow> list_range key s = Some r"
  using assms
  by (auto simp: LeaseTaskList_def Let_def list_range_def list_ack_def lease_row_def
      split: option.splits if_splits)

lemma LeaseTaskList_Inl:
  assumes "LeaseTaskList now key kind r s = (s', Inl e)"
  shows "list_range key s' = (case list_range key s of None \<Rightarrow> Some 0 | Some g \<Rightarrow> Some g)"
    and "list_ack key s' = (case list_ack key s of None \<Rightarrow> Some 0 | Some a \<Rightarrow> Some a)"
  using assms
  by (auto simp: LeaseTaskList_def Let_def list_range_def list_ack_def lease_row_def
      lockTaskList_def split: option.splits if_splits)

lemma UpdateTaskList_ids [simp]:
  "list_ids k (fst (UpdateTaskList now key info s)) = list_ids k s"
  "store_wf (fst (UpdateTaskList now key info s)) = store_wf s"
  by (auto simp: UpdateTaskList_def Let_def split: option.splits)

lemma UpdateTaskList_row:
  shows "list_range key (fst (UpdateTaskList now key info s)) = list_range key s"
    and "list_ack key (fst (UpdateTaskList now key info s)) =
      (if list_range key s = Some (tli_RangeID info) then Some (tli_AckLevel info)
       else list_ack key s)"
    and "snd (UpdateTaskList now key info s) =
      (if list_range key s = Some (tli_RangeID info) then None else Some ConditionFailedError)"
  by (auto simp: UpdateTaskList_def Let_def list_range_def list_ack_def lockTaskList_def
      split: option.splits)

lemma CreateTasks_cases:
  obtains (created) "snd (CreateTasks now key r tasks s) = None" and "list_range key s = Some r"
      and "fst (CreateTasks now key r tasks s) =
             s\<lparr>st_tasks := st_tasks s @ map (create_row now key) tasks\<rparr>"
      and "distinct (map row_id (st_tasks s @ map (create_row now key) tasks))"
    | (failed) e where "snd (CreateTasks now key r tasks s) = Some e"
      and "fst (CreateTasks now key r tasks s) = s"
  by (cases "InsertIntoTasks (map (create_row now key) tasks) s";
      cases "lockTaskList (s\<lparr>st_tasks := st_tasks s @ map (create_row now key) tasks\<rparr>) key r")
     (auto simp: CreateTasks_def InsertIntoTasks_def lockTaskList_None list_range_def
        split: if_splits)

lemma list_ids_append:
  "list_ids key (s\<lparr>st_tasks := st_tasks s @ rows\<rparr>) =
     list_ids key s \<union> {tkr_TaskID r |r. r \<in> set rows \<and> tkr_List r = key}"
  by (auto simp: list_ids_def)

lemma create_row_simps [simp]:
  "tkr_TaskID (create_row now key t) = fst t"
  "tkr_List (create_row now key t) = (ti_DomainID (snd t), snd key)"
  by (simp_all add: create_row_def split_beta)

lemma Collect_image_all:
  "(\<And>x. x \<in> S \<Longrightarrow> P (g x)) \<Longrightarrow> {f y |y. y \<in> g ` S \<and> P y} = (\<lambda>x. f (g x)) ` S"
  by auto

lemma CreateTasks_ids:
  assumes "\<And>t. t \<in> set tasks \<Longrightarrow> ti_DomainID (snd t) = fst key"
  shows "list_ids key (fst (CreateTasks now key r tasks s)) =
    list_ids key s \<union> (if snd (CreateTasks now key r tasks s) = None then fst ` set tasks else {})"
proof (cases rule: CreateTasks_cases [of now key r tasks s])
  case created
  have "tkr_List (create_row now key t) = key" if "t \<in> set tasks" for t
    using assms [OF that] by simp
  then have "{tkr_TaskID x |x. x \<in> set (map (create_row now key) tasks) \<and> tkr_List x = key} =
      fst ` set tasks"
    unfolding set_map by (subst Collect_image_all) simp_all
  then show ?thesis
    using created by (simp add: list_ids_append)
qed simp

lemma CreateTasks_other:
  "st_task_lists (fst (CreateTasks now key r tasks s)) = st_task_lists s"
  "store_wf s \<Longrightarrow> store_wf (fst (CreateTasks now key r tasks s))"
  by (cases rule: CreateTasks_cases [of now key r tasks s]; simp add: store_wf_def)+

text \<open>Reading a range of tasks.\<close>

lemma sorted_ids:
  assumes "store_wf s"
  shows "sorted_wrt (<) (map tkr_TaskID (sort_key tkr_TaskID
    (filter (\<lambda>r. tkr_List r = key \<and> P r) (st_tasks s))))"
proof -
  let ?xs = "filter (\<lambda>r. tkr_List r = key \<and> P r) (st_tasks s)"
  have "inj_on tkr_TaskID (set ?xs)"
  proof (rule inj_onI)
    fix x y assume *: "x \<in> set ?xs" "y \<in> set ?xs" "tkr_TaskID x = tkr_TaskID y"
    then have "row_id x = row_id y"
      by (simp add: row_id_def)
    then show "x = y"
      using assms * by (auto simp: store_wf_def distinct_map dest: inj_onD)
  qed
  then have "distinct (map tkr_TaskID (sort_key tkr_TaskID ?xs))"
    using assms by (simp add: distinct_map store_wf_def)
  then show ?thesis
    by (simp add: strict_sorted_iff)
qed

lemma take_sorted_covers:
  fixes f :: "'a \<Rightarrow> int"
  assumes "sorted_wrt (<) (map f xs)" and "x \<in> set xs" and "x \<notin> set (take n xs)"
    and "y \<in> set (take n xs)"
  shows "f y < f x"
proof -
  have "x \<in> set (drop n xs)"
    using assms(2,3) by (metis UnE append_take_drop_id set_append)
  moreover have "sorted_wrt (<) (map f (take n xs) @ map f (drop n xs))"
    using assms(1) by (metis append_take_drop_id map_append)
  ultimately show ?thesis
    using assms(4) by (auto simp: sorted_wrt_append)
qed

lemma GetTasks_Inr:
  assumes "store_wf s" and "tl_GetTasks key lo hi n s = Inr ts"
  shows "sorted_wrt (<) (map ti_TaskID ts)"
    and "t \<in> set ts \<Longrightarrow> ti_TaskID t \<in> list_ids key s \<and> lo < ti_TaskID t \<and> ti_TaskID t \<le> hi"
    and "k \<in> list_ids key s \<Longrightarrow> lo < k \<Longrightarrow> k \<le> hi \<Longrightarrow> 0 < n \<Longrightarrow> ts = [] \<Longrightarrow> False"
    and "k \<in> list_ids key s \<Longrightarrow> lo < k \<Longrightarrow> t \<in> set ts \<Longrightarrow> k \<le> ti_TaskID t \<Longrightarrow> k \<in> ti_TaskID ` set ts"
proof -
  define xs where "xs = sort_key tkr_TaskID
    (filter (\<lambda>r. tkr_List r = key \<and> lo < tkr_TaskID r \<and> tkr_TaskID r \<le> hi) (st_tasks s))"
  have n: "0 \<le> n" and ts: "ts = map task_of_row (take (nat n) xs)"
    using assms(2) by (auto simp: tl_GetTasks_def SelectFromTasks_def xs_def split: if_splits)
  have sorted: "sorted_wrt (<) (map tkr_TaskID xs)"
    using sorted_ids [OF assms(1)] by (simp add: xs_def)
  have ids: "map ti_TaskID ts = take (nat n) (map tkr_TaskID xs)"
    by (simp add: ts task_of_row_def take_map)
  show "sorted_wrt (<) (map ti_TaskID ts)"
    unfolding ids using sorted by (rule sorted_wrt_take)
  have xs_set: "tkr_TaskID ` set xs = {k \<in> list_ids key s. lo < k \<and> k \<le> hi}"
    by (auto simp: xs_def list_ids_def)
  have sub: "ti_TaskID ` set ts \<subseteq> tkr_TaskID ` set xs"
    using set_take_subset [of "nat n" "map tkr_TaskID xs"] ids by (metis list.set_map)
  then show t: "ti_TaskID t \<in> list_ids key s \<and> lo < ti_TaskID t \<and> ti_TaskID t \<le> hi"
    if "t \<in> set ts" for t
    using that xs_set by blast
  show False if "k \<in> list_ids key s" "lo < k" "k \<le> hi" "0 < n" "ts = []"
    using that xs_set by (auto simp: ts)
  show "k \<in> ti_TaskID ` set ts" if "k \<in> list_ids key s" "lo < k" "t \<in> set ts" "k \<le> ti_TaskID t"
  proof -
    have "k \<in> tkr_TaskID ` set xs"
      using that t [OF that(3)] xs_set by auto
    moreover have "ti_TaskID t \<in> set (take (nat n) (map tkr_TaskID xs))"
      using that(3) ids by (metis image_eqI list.set_map)
    ultimately have "k \<in> set (take (nat n) (map tkr_TaskID xs))"
      using take_sorted_covers [of "\<lambda>x. x" "map tkr_TaskID xs" k "nat n" "ti_TaskID t"] sorted that(4)
      by force
    then show ?thesis
      using ids by (metis list.set_map)
  qed
qed

text \<open>Deleting the oldest tasks.\<close>

lemma row_id_list: "r \<in> set (oldest_rows key m n s) \<Longrightarrow> r \<in> set (st_tasks s) \<and> tkr_List r = key \<and> tkr_TaskID r \<le> m"
  by (auto simp: oldest_rows_def dest!: in_set_takeD)

lemma CompleteTasksLessThan_frame:
  "list_ids key s - {k. k \<le> m} \<subseteq> list_ids key (fst (CompleteTasksLessThan key m n s))"
  "list_ids k' (fst (CompleteTasksLessThan key m n s)) \<subseteq> list_ids k' s"
  "k' \<noteq> key \<Longrightarrow> list_ids k' (fst (CompleteTasksLessThan key m n s)) = list_ids k' s"
  "st_task_lists (fst (CompleteTasksLessThan key m n s)) = st_task_lists s"
  "store_wf s \<Longrightarrow> store_wf (fst (CompleteTasksLessThan key m n s))"
  by (auto simp: CompleteTasksLessThan_def DeleteFromTasks_def list_ids_def store_wf_def
      row_id_def distinct_map_filter dest: row_id_list split: if_splits) (fastforce dest: row_id_list)+

lemma CompleteTasksLessThan_all:
  assumes "CompleteTasksLessThan key m n s = (s', Inr c)" and "c < n"
  shows "list_ids key s' = list_ids key s - {k. k \<le> m}"
proof -
  let ?old = "filter (\<lambda>r. tkr_List r = key \<and> tkr_TaskID r \<le> m) (st_tasks s)"
  have n: "0 < n" and c: "c = int (length (oldest_rows key m n s))"
    and s': "s' = s\<lparr>st_tasks := filter (\<lambda>r. row_id r \<notin> row_id ` set (oldest_rows key m n s)) (st_tasks s)\<rparr>"
    using assms(1) by (auto simp: CompleteTasksLessThan_def DeleteFromTasks_def split: if_splits)
  have "length (oldest_rows key m n s) < nat n"
    using c assms(2) n by linarith
  then have "set (oldest_rows key m n s) = set ?old"
    by (simp add: oldest_rows_def)
  then show ?thesis
    by (auto simp: s' list_ids_def row_id_def)
qed

lemma CompleteTasksLessThan_shrinks:
  assumes "CompleteTasksLessThan key m n s = (s', Inr c)" and "\<not> c < n"
  shows "length (st_tasks s') < length (st_tasks s)"
proof -
  have n: "0 < n" and c: "c = int (length (oldest_rows key m n s))"
    and s': "s' = s\<lparr>st_tasks := filter (\<lambda>r. row_id r \<notin> row_id ` set (oldest_rows key m n s)) (st_tasks s)\<rparr>"
    using assms(1) by (auto simp: CompleteTasksLessThan_def DeleteFromTasks_def split: if_splits)
  then obtain r where "r \<in> set (oldest_rows key m n s)"
    using assms(2) by (cases "oldest_rows key m n s") auto
  then have "r \<in> set (st_tasks s)" "row_id r \<in> row_id ` set (oldest_rows key m n s)"
    using row_id_list by auto
  then show ?thesis
    by (simp add: s' length_filter_less)
qed

end
