(* ===== verification/Tasklist_Host.thy ===== *)
theory Tasklist_Host
  imports Ack_Manager Tasklist_Store
begin

text \<open>
  One matching host that owns a task list (\<open>service/matching/tasklist\<close>): its view of the store
  (\<open>db.go\<close>), the writer that allocates task IDs and persists tasks (\<open>task_writer.go\<close>), the
  garbage collector (\<open>task_gc.go\<close>) and the reader that pumps the backlog into memory, hands
  tasks to pollers and completes them (\<open>task_reader.go\<close>).

  A goroutine is cut where it waits for a channel, a timer or a callback; a round of the writer or
  of the pump is one step, with all the database calls it makes. A channel is a list; the part of the pump
  that still has to be put in the buffer is \<open>rd_pending\<close>; a task whose completion callback has
  not been called is in \<open>rd_inflight\<close>. A call to the database may fail before it has an effect,
  or take effect and lose its reply (\<open>tl_fault\<close>). Logging, metrics and events are left out; the
  collaborators that are not modelled (matcher, isolation groups) are arguments.
\<close>

section \<open>Configuration and faults\<close>

record tl_config =
  cf_RangeSize :: int
  cf_MaxTaskDeleteBatchSize :: int
  cf_MaxTimeBetweenTaskDeletes :: int
  cf_MaxTaskBatchSize :: int
  cf_OutstandingTaskAppendsThreshold :: int
  cf_GetTasksBatchSize :: int
  cf_ReadRangeSize :: int

datatype tl_fault = NoFault | FailBefore tl_error | FailAfter tl_error

definition faulty :: "tl_fault \<Rightarrow> (tl_error \<Rightarrow> 'r) \<Rightarrow> ('s \<Rightarrow> 's \<times> 'r) \<Rightarrow> 's \<Rightarrow> 's \<times> 'r" where
  "faulty f err op s =
     (case f of
        NoFault \<Rightarrow> op s
      | FailBefore e \<Rightarrow> (s, err e)
      | FailAfter e \<Rightarrow> (fst (op s), err e))"

text \<open>
  \<open>backoff.ThrottleRetry.Do\<close> with \<open>IsTransientError\<close>: the list holds the faults of the attempts
  that the retry policy allows; with an empty list the first attempt is undisturbed. When it gives
  up it returns the error of the attempt before the last one, if there is one.
\<close>

definition preferError :: "tl_error option \<Rightarrow> tl_error \<Rightarrow> tl_error" where
  "preferError prevErr err = (case prevErr of Some e \<Rightarrow> e | None \<Rightarrow> err)"

fun retryLoop ::
  "(tl_fault \<Rightarrow> 'c \<Rightarrow> 'c \<times> (tl_error + 'a)) \<Rightarrow> tl_error option \<Rightarrow> tl_fault list \<Rightarrow> 'c \<Rightarrow>
     'c \<times> (tl_error + 'a)" where
  "retryLoop op prevErr [] c =
     (case op NoFault c of
        (c', Inr x) \<Rightarrow> (c', Inr x)
      | (c', Inl e) \<Rightarrow> (c', Inl (preferError prevErr e)))"
| "retryLoop op prevErr (f # fs) c =
     (case op f c of
        (c', Inr x) \<Rightarrow> (c', Inr x)
      | (c', Inl e) \<Rightarrow>
          if IsTransientError e \<and> fs \<noteq> [] then retryLoop op (Some e) fs c'
          else (c', Inl (preferError prevErr e)))"

definition throttleRetry_Do ::
  "(tl_fault \<Rightarrow> 'c \<Rightarrow> 'c \<times> (tl_error + 'a)) \<Rightarrow> tl_fault list \<Rightarrow> 'c \<Rightarrow> 'c \<times> (tl_error + 'a)" where
  "throttleRetry_Do op fs c = retryLoop op None fs c"

section \<open>The persistence view of a task list\<close>

record taskListDB =
  db_key :: tl_key
  db_taskListKind :: int
  db_rangeID :: int
  db_backlogCount :: int
  db_ackLevel :: int
  db_partitionConfig :: "partition_config option"

definition newTaskListDB :: "tl_key \<Rightarrow> int \<Rightarrow> taskListDB" where
  "newTaskListDB key kind = \<lparr>db_key = key, db_taskListKind = kind, db_rangeID = 0,
     db_backlogCount = 0, db_ackLevel = 0, db_partitionConfig = None\<rparr>"

text \<open>The result is the new range ID and the persisted ack level (\<open>taskListState\<close>).\<close>

definition RenewLease ::
  "int \<Rightarrow> tl_fault \<Rightarrow> taskListDB \<times> tl_store \<Rightarrow>
     (taskListDB \<times> tl_store) \<times> (tl_error + int \<times> int)" where
  "RenewLease now f c = (case c of (db, s) \<Rightarrow>
     (case faulty f Inl (LeaseTaskList now (db_key db) (db_taskListKind db) (db_rangeID db)) s of
        (s', Inl e) \<Rightarrow> ((db, s'), Inl e)
      | (s', Inr info) \<Rightarrow>
          ((db\<lparr>db_rangeID := tli_RangeID info, db_ackLevel := tli_AckLevel info,
               db_partitionConfig := tli_AdaptivePartitionConfig info\<rparr>, s'),
           Inr (tli_RangeID info, tli_AckLevel info))))"

definition UpdateState ::
  "int \<Rightarrow> tl_fault \<Rightarrow> int \<Rightarrow> taskListDB \<times> tl_store \<Rightarrow> (taskListDB \<times> tl_store) \<times> tl_error option" where
  "UpdateState now f ackLevel c = (case c of (db, s) \<Rightarrow>
     (case faulty f Some (UpdateTaskList now (db_key db)
             \<lparr>tli_RangeID = db_rangeID db, tli_AckLevel = ackLevel,
              tli_Kind = db_taskListKind db,
              tli_AdaptivePartitionConfig = db_partitionConfig db\<rparr>) s of
        (s', Some e) \<Rightarrow> ((db, s'), Some e)
      | (s', None) \<Rightarrow> ((db\<lparr>db_ackLevel := ackLevel\<rparr>, s'), None)))"

definition UpdateTaskListPartitionConfig ::
  "int \<Rightarrow> tl_fault \<Rightarrow> partition_config option \<Rightarrow> taskListDB \<times> tl_store \<Rightarrow>
     (taskListDB \<times> tl_store) \<times> tl_error option" where
  "UpdateTaskListPartitionConfig now f config c = (case c of (db, s) \<Rightarrow>
     (case faulty f Some (UpdateTaskList now (db_key db)
             \<lparr>tli_RangeID = db_rangeID db, tli_AckLevel = db_ackLevel db,
              tli_Kind = db_taskListKind db, tli_AdaptivePartitionConfig = config\<rparr>) s of
        (s', Some e) \<Rightarrow> ((db, s'), Some e)
      | (s', None) \<Rightarrow> ((db\<lparr>db_partitionConfig := config\<rparr>, s'), None)))"

definition db_CreateTasks ::
  "int \<Rightarrow> tl_fault \<Rightarrow> (int \<times> TaskInfo) list \<Rightarrow> taskListDB \<Rightarrow> tl_store \<Rightarrow> tl_store \<times> tl_error option"
where
  "db_CreateTasks now f tasks db s =
     faulty f Some (CreateTasks now (db_key db) (db_rangeID db) tasks) s"

definition db_GetTaskListSize :: "tl_fault \<Rightarrow> int \<Rightarrow> taskListDB \<Rightarrow> tl_store \<Rightarrow> taskListDB" where
  "db_GetTaskListSize f ackLevel db s =
     (if f = NoFault then db\<lparr>db_backlogCount := GetTaskListSize (db_key db) ackLevel s\<rparr> else db)"

section \<open>The host\<close>

record taskIDBlock =
  blk_start :: int
  blk_end :: int

record taskWriter =
  w_taskIDBlock :: taskIDBlock
  w_maxReadLevel :: int
  w_stopped :: bool
  w_fatal :: bool
  w_appendCh :: "TaskInfo list"
  w_responses :: "(TaskInfo \<times> tl_error option) list"

record taskGC =
  gc_ackLevel :: int
  gc_lastDeleteTime :: int

record taskReader =
  rd_taskBuffers :: "(string, TaskInfo list) gomap"
  rd_notifyC :: bool
  rd_pending :: "TaskInfo list"
  rd_inflight :: "TaskInfo list"
  rd_stopped :: bool
  rd_pumpDone :: bool
  rd_fatal :: bool
  rd_crashed :: bool

record tl_host =
  h_db :: taskListDB
  h_writer :: taskWriter
  h_ack :: ackManager
  h_gc :: taskGC
  h_reader :: taskReader

definition newTaskWriter :: taskWriter where
  "newTaskWriter = \<lparr>w_taskIDBlock = \<lparr>blk_start = 0, blk_end = 0\<rparr>, w_maxReadLevel = 0,
     w_stopped = False, w_fatal = False, w_appendCh = [], w_responses = []\<rparr>"

definition newTaskGC :: taskGC where
  "newTaskGC = \<lparr>gc_ackLevel = 0, gc_lastDeleteTime = tl_zeroTime\<rparr>"

text \<open>The buffer of the empty isolation group is always there; \<open>Start\<close> signals the pump.\<close>

definition newTaskReader :: "string list \<Rightarrow> taskReader" where
  "newTaskReader isolationGroups =
     \<lparr>rd_taskBuffers = fold (\<lambda>g. AList.update g []) isolationGroups [('''', [])],
      rd_notifyC = True, rd_pending = [], rd_inflight = [], rd_stopped = False,
      rd_pumpDone = False, rd_fatal = False, rd_crashed = False\<rparr>"

definition newTaskListManager :: "tl_key \<Rightarrow> int \<Rightarrow> string list \<Rightarrow> tl_host" where
  "newTaskListManager key kind isolationGroups =
     \<lparr>h_db = newTaskListDB key kind, h_writer = newTaskWriter, h_ack = newAckManager,
      h_gc = newTaskGC, h_reader = newTaskReader isolationGroups\<rparr>"

section \<open>The writer\<close>

definition rangeIDToTaskIDBlock :: "int \<Rightarrow> int \<Rightarrow> taskIDBlock" where
  "rangeIDToTaskIDBlock rangeID rangeSize =
     \<lparr>blk_start = (rangeID - 1) * rangeSize + 1, blk_end = rangeID * rangeSize\<rparr>"

definition renewLeaseWithRetry ::
  "int \<Rightarrow> tl_fault list \<Rightarrow> tl_host \<times> tl_store \<Rightarrow> (tl_host \<times> tl_store) \<times> (tl_error + int \<times> int)" where
  "renewLeaseWithRetry now fs c = (case c of (h, s) \<Rightarrow>
     (case throttleRetry_Do (RenewLease now) fs (h_db h, s) of
        ((db, s'), Inl e) \<Rightarrow>
          ((h\<lparr>h_db := db, h_writer := (h_writer h)\<lparr>w_stopped := True, w_fatal := True\<rparr>\<rparr>, s'), Inl e)
      | ((db, s'), Inr state) \<Rightarrow> ((h\<lparr>h_db := db\<rparr>, s'), Inr state)))"

definition writer_Start ::
  "tl_config \<Rightarrow> int \<Rightarrow> tl_fault list \<Rightarrow> tl_host \<times> tl_store \<Rightarrow> (tl_host \<times> tl_store) \<times> tl_error option"
where
  "writer_Start cfg now fs c =
     (case renewLeaseWithRetry now fs c of
        ((h, s), Inl e) \<Rightarrow> ((h, s), Some e)
      | ((h, s), Inr (rangeID, ackLevel)) \<Rightarrow>
          (let block = rangeIDToTaskIDBlock rangeID (cf_RangeSize cfg)
           in ((h\<lparr>h_ack := SetAckLevel ackLevel (h_ack h),
                 h_writer := (h_writer h)\<lparr>w_taskIDBlock := block,
                    w_maxReadLevel := blk_start block - 1\<rparr>\<rparr>, s), None)))"

text \<open>The part of \<open>appendTask\<close> before it waits: the task enters the channel, or it is refused.\<close>

definition appendTask :: "tl_config \<Rightarrow> TaskInfo \<Rightarrow> taskWriter \<Rightarrow> tl_error + taskWriter" where
  "appendTask cfg taskInfo w =
     (if w_stopped w then Inl ErrShutdown
      else if int (length (w_appendCh w)) < cf_OutstandingTaskAppendsThreshold cfg
      then Inr (w\<lparr>w_appendCh := w_appendCh w @ [taskInfo]\<rparr>)
      else Inl ServiceBusyErr)"

definition allocTaskIDBlock ::
  "tl_config \<Rightarrow> int \<Rightarrow> tl_fault list \<Rightarrow> int \<Rightarrow> tl_host \<times> tl_store \<Rightarrow>
     (tl_host \<times> tl_store) \<times> (tl_error + taskIDBlock)" where
  "allocTaskIDBlock cfg now fs prevBlockEnd c =
     (let currBlock = rangeIDToTaskIDBlock (db_rangeID (h_db (fst c))) (cf_RangeSize cfg)
      in if blk_end currBlock \<noteq> prevBlockEnd
         then (c, Inl (InvalidBlockState prevBlockEnd (blk_end currBlock)))
         else (case renewLeaseWithRetry now fs c of
             (c', Inl e) \<Rightarrow> (c', Inl e)
           | (c', Inr (rangeID, _)) \<Rightarrow>
               (c', Inr (rangeIDToTaskIDBlock rangeID (cf_RangeSize cfg)))))"

definition set_block :: "taskIDBlock \<Rightarrow> tl_host \<Rightarrow> tl_host" where
  "set_block b h = h\<lparr>h_writer := (h_writer h)\<lparr>w_taskIDBlock := b\<rparr>\<rparr>"

text \<open>The faults are one list per lease renewal.\<close>

fun allocTaskIDs ::
  "tl_config \<Rightarrow> int \<Rightarrow> tl_fault list list \<Rightarrow> nat \<Rightarrow> tl_host \<times> tl_store \<Rightarrow>
     (tl_host \<times> tl_store) \<times> (tl_error + int list)" where
  "allocTaskIDs cfg now fss 0 c = (c, Inr [])"
| "allocTaskIDs cfg now fss (Suc n) (h, s) =
     (let block = w_taskIDBlock (h_writer h) in
      if blk_start block > blk_end block then
        (case allocTaskIDBlock cfg now (case fss of [] \<Rightarrow> [] | fs # _ \<Rightarrow> fs) (blk_end block) (h, s) of
           (c', Inl e) \<Rightarrow> (c', Inl e)
         | ((h', s'), Inr newBlock) \<Rightarrow>
             (case allocTaskIDs cfg now (tl fss) n
                     (set_block (newBlock\<lparr>blk_start := blk_start newBlock + 1\<rparr>) h', s') of
                (c'', Inl e) \<Rightarrow> (c'', Inl e)
              | (c'', Inr ids) \<Rightarrow> (c'', Inr (blk_start newBlock # ids))))
      else
        (case allocTaskIDs cfg now fss n
                (set_block (block\<lparr>blk_start := blk_start block + 1\<rparr>) h, s) of
           (c'', Inl e) \<Rightarrow> (c'', Inl e)
         | (c'', Inr ids) \<Rightarrow> (c'', Inr (blk_start block # ids))))"

text \<open>\<open>TaskListKindSticky\<close> is 1.\<close>

definition handleErr :: "int \<Rightarrow> tl_error option \<Rightarrow> taskWriter \<Rightarrow> taskWriter \<times> tl_error option" where
  "handleErr kind err w =
     (if err = Some ConditionFailedError
      then (w\<lparr>w_fatal := True\<rparr>, Some (if kind = 1 then InternalServiceErr else ConditionFailedError))
      else (w, err))"

text \<open>
  A response goes to the channel of its request, which has room for it. When the writer is stopped
  it may be dropped; that is a response nobody receives.
\<close>

definition sendWriteResponse :: "TaskInfo list \<Rightarrow> tl_error option \<Rightarrow> taskWriter \<Rightarrow> taskWriter" where
  "sendWriteResponse reqs err w =
     w\<lparr>w_responses := w_responses w @ map (\<lambda>req. (req, err)) reqs\<rparr>"

text \<open>
  One round of \<open>taskWriterLoop\<close> for a request at the head of the channel: \<open>fss\<close> are the faults of
  the lease renewals and \<open>f\<close> the fault of the write.
\<close>

definition taskWriterLoop ::
  "tl_config \<Rightarrow> int \<Rightarrow> tl_fault list list \<Rightarrow> tl_fault \<Rightarrow> tl_host \<times> tl_store \<Rightarrow> tl_host \<times> tl_store" where
  "taskWriterLoop cfg now fss f c = (case c of (h0, s0) \<Rightarrow>
     (case w_appendCh (h_writer h0) of
        [] \<Rightarrow> c
      | request # rest \<Rightarrow>
          if w_stopped (h_writer h0) then (h0\<lparr>h_writer := (h_writer h0)\<lparr>w_appendCh := rest\<rparr>\<rparr>, s0)
          else
            (let reqs = request # take (nat (cf_MaxTaskBatchSize cfg)) rest;
                 h1 = h0\<lparr>h_writer := (h_writer h0)
                        \<lparr>w_appendCh := drop (nat (cf_MaxTaskBatchSize cfg)) rest\<rparr>\<rparr>
             in case allocTaskIDs cfg now fss (length reqs) (h1, s0) of
                  ((h, s), Inl e) \<Rightarrow>
                    (h\<lparr>h_writer := sendWriteResponse reqs
                         (Some (if w_stopped (h_writer h) then ErrShutdown else e)) (h_writer h)\<rparr>, s)
                | ((h, s), Inr taskIDs) \<Rightarrow>
                    (case db_CreateTasks now f (zip taskIDs reqs) (h_db h) s of
                       (s', err0) \<Rightarrow>
                         (case handleErr (db_taskListKind (h_db h)) err0 (h_writer h) of
                            (w, err) \<Rightarrow>
                              (h\<lparr>h_writer := sendWriteResponse reqs err
                                   (if last taskIDs > 0 then w\<lparr>w_maxReadLevel := last taskIDs\<rparr>
                                    else w)\<rparr>, s'))))))"

section \<open>The garbage collector\<close>

text \<open>\<open>time.Since\<close> saturates at the largest duration.\<close>

definition time_Since :: "int \<Rightarrow> int \<Rightarrow> int" where
  "time_Since now t = min MaxInt64 (now - t)"

definition checkPrecond :: "tl_config \<Rightarrow> int \<Rightarrow> int \<Rightarrow> int \<Rightarrow> bool \<Rightarrow> taskGC \<Rightarrow> bool" where
  "checkPrecond cfg now ackLevel batchSize ignoreTimeCond gc =
     (let backlog = ackLevel - gc_ackLevel gc
      in if backlog \<ge> batchSize then True
         else backlog > 0 \<and> (ignoreTimeCond \<or>
                time_Since now (gc_lastDeleteTime gc) > cf_MaxTimeBetweenTaskDeletes cfg))"

text \<open>The delete loop; the flag of the result says that the loop reached the ack level.\<close>

function deleteLoop ::
  "tl_key \<Rightarrow> int \<Rightarrow> int \<Rightarrow> tl_fault list \<Rightarrow> tl_store \<Rightarrow> tl_store \<times> bool" where
  "deleteLoop key ackLevel batchSize fs s =
     (case faulty (case fs of [] \<Rightarrow> NoFault | f # _ \<Rightarrow> f) Inl
             (CompleteTasksLessThan key ackLevel batchSize) s of
        (s', Inl e) \<Rightarrow> (s', False)
      | (s', Inr n) \<Rightarrow> if n < batchSize then (s', True)
                      else deleteLoop key ackLevel batchSize (tl fs) s')"
  by pat_completeness auto
termination
  by (relation "measure (\<lambda>(key, ackLevel, batchSize, fs, s). length (st_tasks s))")
     (auto simp: faulty_def split: list.splits tl_fault.splits
       intro: CompleteTasksLessThan_shrinks [OF sym])

declare deleteLoop.simps [simp del]

definition tryDeleteNextBatch ::
  "tl_config \<Rightarrow> int \<Rightarrow> tl_fault list \<Rightarrow> int \<Rightarrow> bool \<Rightarrow> tl_host \<times> tl_store \<Rightarrow> tl_host \<times> tl_store" where
  "tryDeleteNextBatch cfg now fs ackLevel ignoreTimeCond c = (case c of (h, s) \<Rightarrow>
     (let batchSize = cf_MaxTaskDeleteBatchSize cfg in
      if \<not> checkPrecond cfg now ackLevel batchSize ignoreTimeCond (h_gc h) then c
      else (case deleteLoop (db_key (h_db h)) ackLevel batchSize fs s of
          (s', reached) \<Rightarrow>
            (h\<lparr>h_gc := \<lparr>gc_ackLevel = (if reached then ackLevel else gc_ackLevel (h_gc h)),
                       gc_lastDeleteTime = now\<rparr>\<rparr>, s'))))"


section \<open>The reader\<close>

definition signal :: "taskReader \<Rightarrow> taskReader" where
  "signal r = r\<lparr>rd_notifyC := True\<rparr>"

text \<open>The value of \<open>matching.getTasksBatchSize\<close>, or its default 1000 when it is not positive.\<close>

definition effectiveBatchSize :: "tl_config \<Rightarrow> int" where
  "effectiveBatchSize cfg = (if cf_GetTasksBatchSize cfg \<le> 0 then 1000 else cf_GetTasksBatchSize cfg)"

definition getTaskBatchWithRange ::
  "tl_config \<Rightarrow> tl_fault list \<Rightarrow> tl_key \<Rightarrow> int \<Rightarrow> int \<Rightarrow> tl_store \<Rightarrow> tl_error + TaskInfo list" where
  "getTaskBatchWithRange cfg fs key readLevel maxReadLevel s =
     snd (throttleRetry_Do
       (\<lambda>f. faulty f Inl (\<lambda>s. (s, tl_GetTasks key readLevel maxReadLevel (effectiveBatchSize cfg) s))) fs s)"

text \<open>At most ten ranges are read, the first argument counts down; one fault list per range.\<close>

fun getTaskBatch ::
  "nat \<Rightarrow> tl_config \<Rightarrow> tl_fault list list \<Rightarrow> tl_key \<Rightarrow> int \<Rightarrow> int \<Rightarrow> tl_store \<Rightarrow>
     tl_error + TaskInfo list \<times> int \<times> bool" where
  "getTaskBatch 0 cfg fss key readLevel maxReadLevel s =
     Inr ([], readLevel, readLevel = maxReadLevel)"
| "getTaskBatch (Suc i) cfg fss key readLevel maxReadLevel s =
     (if readLevel < maxReadLevel then
        (let u = readLevel + cf_ReadRangeSize cfg;
             upper = (if u > maxReadLevel then maxReadLevel else u)
         in case getTaskBatchWithRange cfg (case fss of [] \<Rightarrow> [] | fs # _ \<Rightarrow> fs) key readLevel upper s of
              Inl e \<Rightarrow> Inl e
            | Inr tasks \<Rightarrow>
                if tasks \<noteq> [] then Inr (tasks, upper, True)
                else getTaskBatch i cfg (tl fss) key upper maxReadLevel s)
      else Inr ([], readLevel, readLevel = maxReadLevel))"

text \<open>The case of \<open>getTasksPump\<close> for a signal, up to the point where tasks enter the buffers.\<close>

definition getTasksPump ::
  "tl_config \<Rightarrow> tl_fault list list \<Rightarrow> tl_host \<times> tl_store \<Rightarrow> tl_host" where
  "getTasksPump cfg fss c = (case c of (h, s) \<Rightarrow>
     (let r = (h_reader h)\<lparr>rd_notifyC := False\<rparr>;
          initialReadLevel = am_GetReadLevel (h_ack h)
      in case getTaskBatch 10 cfg fss (db_key (h_db h)) initialReadLevel
                (w_maxReadLevel (h_writer h)) s of
           Inl e \<Rightarrow> h\<lparr>h_reader := signal r\<rparr>
         | Inr (tasks, readLevel, isReadBatchDone) \<Rightarrow>
             if tasks = [] then
               (let m = SetReadLevel readLevel (h_ack h);
                    m' = (if am_GetAckLevel m = initialReadLevel then SetAckLevel readLevel m else m)
                in h\<lparr>h_ack := m', h_reader := (if isReadBatchDone then r else signal r)\<rparr>)
             else h\<lparr>h_reader := r\<lparr>rd_pending := tasks\<rparr>\<rparr>))"

text \<open>
  The expiry of a task that was read is never the zero time (see \<open>zeroTimeNanos\<close>); an expiry
  that is not after the epoch means none.
\<close>

definition isTaskExpired :: "int \<Rightarrow> TaskInfo \<Rightarrow> bool" where
  "isTaskExpired now t \<longleftrightarrow> ti_Expiry t \<noteq> tl_zeroTime \<and> ti_Expiry t > 0 \<and> now > ti_Expiry t"

definition bufferOf :: "taskReader \<Rightarrow> string \<Rightarrow> string" where
  "bufferOf r isolationGroup =
     (if map_of (rd_taskBuffers r) isolationGroup = None then '''' else isolationGroup)"

text \<open>
  The list of a group is the channel together with the task its dispatcher has taken from it, so
  it has room for one more task than the channel. The result is \<open>False\<close> when the buffer is full:
  the pump then waits until there is room or the reader is stopped. A failing \<open>ReadItem\<close> ends
  the process (\<open>logger.Fatal\<close>).
\<close>

definition addSingleTaskToBuffer ::
  "tl_config \<Rightarrow> int \<Rightarrow> string \<Rightarrow> TaskInfo \<Rightarrow> tl_host \<Rightarrow> tl_host \<times> bool" where
  "addSingleTaskToBuffer cfg now isolationGroup task h =
     (if isTaskExpired now task then
        (h\<lparr>h_ack := SetReadLevel (ti_TaskID task) (h_ack h)\<rparr>, True)
      else
        (case ReadItem (ti_TaskID task) (h_ack h) of
           (m, Some e) \<Rightarrow>
             (h\<lparr>h_ack := m, h_reader := (h_reader h)\<lparr>rd_crashed := True\<rparr>\<rparr>, False)
         | (m, None) \<Rightarrow>
             (let r = h_reader h;
                  g = bufferOf r isolationGroup;
                  buffer = gm_list (rd_taskBuffers r) g
              in if int (length buffer) < effectiveBatchSize cfg
                 then (h\<lparr>h_ack := m,
                         h_reader := r\<lparr>rd_taskBuffers :=
                           AList.update g (buffer @ [task]) (rd_taskBuffers r)\<rparr>\<rparr>, True)
                 else (h\<lparr>h_ack := m\<rparr>, False))))"

text \<open>One round of the loop of \<open>addTasksToBuffer\<close> and what the pump does after the last one.\<close>

definition addTasksToBuffer :: "tl_config \<Rightarrow> int \<Rightarrow> string \<Rightarrow> tl_host \<Rightarrow> tl_host" where
  "addTasksToBuffer cfg now isolationGroup h =
     (case rd_pending (h_reader h) of
        [] \<Rightarrow> h
      | t # ts \<Rightarrow>
          (case addSingleTaskToBuffer cfg now isolationGroup t
                  (h\<lparr>h_reader := (h_reader h)\<lparr>rd_pending := ts\<rparr>\<rparr>) of
             (h', True) \<Rightarrow> if ts = [] then h'\<lparr>h_reader := signal (h_reader h')\<rparr> else h'
           | (h', False) \<Rightarrow>
               h'\<lparr>h_reader := (h_reader h')\<lparr>rd_pending := [], rd_pumpDone := True\<rparr>\<rparr>))"

text \<open>
  What \<open>DispatchTask\<close> returns: the task was handed to a poller, the reader is shutting down, or
  one of the errors after which the dispatch is tried again.
\<close>

datatype dispatch_result = Dispatched | DispatchCanceled | DispatchAgain

text \<open>One try of \<open>dispatchSingleTaskFromBuffer\<close> for the task at the head of a group's list.\<close>

definition dispatchSingleTaskFromBuffer ::
  "int \<Rightarrow> dispatch_result \<Rightarrow> string \<Rightarrow> tl_host \<Rightarrow> tl_host \<times> bool \<times> bool" where
  "dispatchSingleTaskFromBuffer now res g h =
     (case gm_list (rd_taskBuffers (h_reader h)) g of
        [] \<Rightarrow> (h, False, False)
      | t # ts \<Rightarrow>
          (let r = (h_reader h)\<lparr>rd_taskBuffers :=
                     AList.update g ts (rd_taskBuffers (h_reader h))\<rparr>
           in if isTaskExpired now t then
                (h\<lparr>h_ack := fst (AckItem (ti_TaskID t) (h_ack h)), h_reader := r\<rparr>, False, True)
              else (case res of
                  Dispatched \<Rightarrow> (h\<lparr>h_reader := r\<lparr>rd_inflight := rd_inflight r @ [t]\<rparr>\<rparr>, False, True)
                | DispatchCanceled \<Rightarrow> (h\<lparr>h_reader := r\<rparr>, True, True)
                | DispatchAgain \<Rightarrow> (h, False, False))))"

definition persistAckLevel ::
  "int \<Rightarrow> tl_fault \<Rightarrow> tl_host \<times> tl_store \<Rightarrow> (tl_host \<times> tl_store) \<times> tl_error option" where
  "persistAckLevel now f c = (case c of (h, s) \<Rightarrow>
     (if am_GetAckLevel (h_ack h) \<ge> 0 then
        (case UpdateState now f (am_GetAckLevel (h_ack h)) (h_db h, s) of
           ((db, s'), err) \<Rightarrow> ((h\<lparr>h_db := db\<rparr>, s'), err))
      else (c, None)))"

text \<open>The case of \<open>getTasksPump\<close> for the ack timer.\<close>

definition updateAckTimerFired ::
  "int \<Rightarrow> tl_fault \<Rightarrow> tl_fault \<Rightarrow> tl_host \<times> tl_store \<Rightarrow> tl_host \<times> tl_store" where
  "updateAckTimerFired now f1 f2 c = (case c of (h, s) \<Rightarrow>
     (let h1 = h\<lparr>h_db := db_GetTaskListSize f1 (am_GetAckLevel (h_ack h)) (h_db h) s\<rparr>
      in case persistAckLevel now f2 (h1, s) of
           ((h2, s2), err) \<Rightarrow>
             if err = Some ConditionFailedError
             then (h2\<lparr>h_reader := (h_reader h2)\<lparr>rd_fatal := True, rd_pumpDone := True\<rparr>\<rparr>, s2)
             else (h2\<lparr>h_reader := signal (h_reader h2)\<rparr>, s2)))"

text \<open>
  \<open>completeTask\<close>: \<open>err\<close> says that starting the task failed, \<open>appendErr\<close> is then the result of
  writing it back.
\<close>

definition completeTask ::
  "tl_config \<Rightarrow> int \<Rightarrow> tl_fault list \<Rightarrow> TaskInfo \<Rightarrow> bool \<Rightarrow> tl_error option \<Rightarrow>
     tl_host \<times> tl_store \<Rightarrow> tl_host \<times> tl_store" where
  "completeTask cfg now fs task err appendErr c = (case c of (h, s) \<Rightarrow>
     (if err \<and> appendErr \<noteq> None then
        (h\<lparr>h_reader := (h_reader h)\<lparr>rd_fatal := True\<rparr>\<rparr>, s)
      else
        (let h1 = (if err then h\<lparr>h_reader := signal (h_reader h)\<rparr> else h)
         in case AckItem (ti_TaskID task) (h_ack h1) of
              (m, ackLevel) \<Rightarrow>
                tryDeleteNextBatch cfg now fs ackLevel False (h1\<lparr>h_ack := m\<rparr>, s))))"

definition reader_Stop ::
  "tl_config \<Rightarrow> int \<Rightarrow> tl_fault \<Rightarrow> tl_fault list \<Rightarrow> tl_host \<times> tl_store \<Rightarrow> tl_host \<times> tl_store" where
  "reader_Stop cfg now f fs c = (case c of (h, s) \<Rightarrow>
     (if rd_stopped (h_reader h) then c
      else
        (let h1 = h\<lparr>h_reader := (h_reader h)\<lparr>rd_stopped := True\<rparr>\<rparr>
         in case persistAckLevel now f (h1, s) of
              ((h2, s2), _) \<Rightarrow>
                tryDeleteNextBatch cfg now fs (am_GetAckLevel (h_ack h2)) True (h2, s2))))"

text \<open>The manager stops the writer, then the reader.\<close>

definition manager_Stop ::
  "tl_config \<Rightarrow> int \<Rightarrow> tl_fault \<Rightarrow> tl_fault list \<Rightarrow> tl_host \<times> tl_store \<Rightarrow> tl_host \<times> tl_store" where
  "manager_Stop cfg now f fs c = (case c of (h, s) \<Rightarrow>
     reader_Stop cfg now f fs (h\<lparr>h_writer := (h_writer h)\<lparr>w_stopped := True\<rparr>\<rparr>, s))"

end
