(* ===== verification/Tasklist_Lease.thy ===== *)
theory Tasklist_Lease
  imports Tasklist_Host
begin

text \<open>
  What a host may rely on when it renews its lease and allocates task IDs, whatever the faults of
  the database: the range ID in the table never decreases, a renewed range is larger than every
  range granted before, and the task IDs of a batch are increasing and lie above everything the
  host allocated before.
\<close>

section \<open>Leases\<close>

definition range0 :: "tl_key \<Rightarrow> tl_store \<Rightarrow> int" where
  "range0 key s = (case list_range key s of None \<Rightarrow> 0 | Some g \<Rightarrow> g)"

definition ack0 :: "tl_key \<Rightarrow> tl_store \<Rightarrow> int" where
  "ack0 key s = (case list_ack key s of None \<Rightarrow> 0 | Some a \<Rightarrow> a)"

lemma list_ack_None_iff: "list_ack key s = None \<longleftrightarrow> list_range key s = None"
  by (simp add: list_ack_def list_range_def)

lemma LeaseTaskList_tasks [simp]:
  "st_tasks (fst (LeaseTaskList now key kind r s)) = st_tasks s"
  by (auto simp: LeaseTaskList_def Let_def split: option.splits)

lemma LeaseTaskList_levels:
  "range0 key s \<le> range0 key (fst (LeaseTaskList now key kind r s)) \<and>
   ack0 key (fst (LeaseTaskList now key kind r s)) = ack0 key s"
proof -
  obtain s' res where eq: "LeaseTaskList now key kind r s = (s', res)"
    by (cases "LeaseTaskList now key kind r s")
  show ?thesis
  proof (cases res)
    case (Inl e)
    note l = LeaseTaskList_Inl [OF eq [unfolded Inl]]
    show ?thesis
      using l list_ack_None_iff [of key s]
      by (auto simp: eq range0_def ack0_def split: option.splits)
  next
    case (Inr info)
    note l = LeaseTaskList_Inr(1-4) [OF eq [unfolded Inr]]
    show ?thesis
      using l list_ack_None_iff [of key s]
      by (auto simp: eq range0_def ack0_def split: option.splits)
  qed
qed

text \<open>The store after a call that may have moved the range ID and nothing else.\<close>

definition lease_only :: "tl_key \<Rightarrow> tl_store \<Rightarrow> tl_store \<Rightarrow> bool" where
  "lease_only key s s' \<longleftrightarrow>
     st_tasks s' = st_tasks s \<and> range0 key s \<le> range0 key s' \<and> ack0 key s' = ack0 key s"

lemma lease_only_refl [simp]: "lease_only key s s"
  by (simp add: lease_only_def)

lemma lease_only_trans:
  "lease_only key s s' \<Longrightarrow> lease_only key s' s'' \<Longrightarrow> lease_only key s s''"
  by (auto simp: lease_only_def)

lemma lease_only_LeaseTaskList: "lease_only key s (fst (LeaseTaskList now key kind r s))"
  by (simp add: lease_only_def LeaseTaskList_levels)

text \<open>
  \<open>leased\<close> describes a renewal by a host whose range ID is not ahead of the table: a failed one
  leaves the host's view alone, a successful one gives it the range ID now in the table, which is
  new; a host that had a range can only succeed while that range is the one in the table.
\<close>

definition leased ::
  "taskListDB \<Rightarrow> tl_store \<Rightarrow> taskListDB \<Rightarrow> tl_store \<Rightarrow> tl_error + int \<times> int \<Rightarrow> bool" where
  "leased db s db' s' res \<longleftrightarrow>
     lease_only (db_key db) s s' \<and> db_key db' = db_key db \<and> db_taskListKind db' = db_taskListKind db \<and>
     (case res of
        Inl _ \<Rightarrow> db' = db
      | Inr (r, a) \<Rightarrow>
          db_rangeID db' = r \<and> db_ackLevel db' = a \<and> a = ack0 (db_key db) s \<and>
          range0 (db_key db) s' = r \<and> range0 (db_key db) s < r \<and>
          (0 < db_rangeID db \<longrightarrow> range0 (db_key db) s = db_rangeID db))"

lemma RenewLease_leased:
  assumes "RenewLease now f (db, s) = ((db', s'), res)"
  shows "leased db s db' s' res"
proof (cases f)
  case NoFault
  show ?thesis
  proof (cases "LeaseTaskList now (db_key db) (db_taskListKind db) (db_rangeID db) s")
    case (Pair s1 r)
    have only: "lease_only (db_key db) s s1"
      using lease_only_LeaseTaskList [of "db_key db" s] Pair by (metis fst_conv)
    show ?thesis
    proof (cases r)
      case (Inl e)
      then show ?thesis
        using assms NoFault Pair only by (auto simp: RenewLease_def faulty_def leased_def)
    next
      case (Inr info)
      note l = LeaseTaskList_Inr [OF Pair [unfolded Inr]]
      have "range0 (db_key db) s1 = tli_RangeID info" "tli_AckLevel info = ack0 (db_key db) s"
        "range0 (db_key db) s < tli_RangeID info"
        using l(1-4) by (simp_all add: range0_def ack0_def split: option.splits)
      moreover have "range0 (db_key db) s = db_rangeID db" if "0 < db_rangeID db"
        using l(5) that by (simp add: range0_def)
      ultimately show ?thesis
        using assms NoFault Pair Inr only by (auto simp: RenewLease_def faulty_def leased_def)
    qed
  qed
qed (use assms in \<open>auto simp: RenewLease_def faulty_def leased_def lease_only_LeaseTaskList\<close>)

lemma leased_error: "leased db s db' s' (Inl e) \<Longrightarrow> leased db s db' s' (Inl e')"
  by (simp add: leased_def)

lemma retryLoop_leased:
  assumes "retryLoop (RenewLease now) prev fs (db, s) = ((db', s'), res)"
    and "db_rangeID db \<le> range0 (db_key db) s"
  shows "leased db s db' s' res"
  using assms
proof (induction fs arbitrary: s prev)
  case Nil
  obtain db1 s1 r1 where one: "RenewLease now NoFault (db, s) = ((db1, s1), r1)"
    by (metis prod.collapse)
  show ?case
    using RenewLease_leased [OF one] Nil.prems(1) one by (cases r1) (auto intro: leased_error)
next
  case (Cons f fs)
  obtain db1 s1 r1 where one: "RenewLease now f (db, s) = ((db1, s1), r1)"
    by (metis prod.collapse)
  note l1 = RenewLease_leased [OF one]
  show ?case
  proof (cases "\<exists>e. r1 = Inl e \<and> IsTransientError e \<and> fs \<noteq> []")
    case False
    then show ?thesis
      using Cons.prems(1) one l1 by (cases r1) (auto intro: leased_error split: if_splits)
  next
    case True
    then obtain e where r1: "r1 = Inl e" "IsTransientError e" "fs \<noteq> []"
      by blast
    have db1: "db1 = db" and only: "lease_only (db_key db) s s1"
      using l1 r1 by (auto simp: leased_def)
    have le: "db_rangeID db \<le> range0 (db_key db) s1"
      using only Cons.prems(2) by (simp add: lease_only_def)
    have "retryLoop (RenewLease now) (Some e) fs (db, s1) = ((db', s'), res)"
      using Cons.prems(1) one r1 db1 by simp
    from Cons.IH [OF this le] show ?thesis
      using only le Cons.prems(2)
      by (auto simp: leased_def lease_only_def split: sum.splits)
  qed
qed

lemmas retry_leased = retryLoop_leased [where prev = None, folded throttleRetry_Do_def]

section \<open>Allocating task IDs\<close>

text \<open>The block of a host is what is left of the IDs of its range.\<close>

definition block_inv :: "tl_config \<Rightarrow> tl_host \<Rightarrow> bool" where
  "block_inv cfg h \<longleftrightarrow>
     1 \<le> db_rangeID (h_db h) \<and>
     blk_end (w_taskIDBlock (h_writer h)) = db_rangeID (h_db h) * cf_RangeSize cfg \<and>
     (db_rangeID (h_db h) - 1) * cf_RangeSize cfg < blk_start (w_taskIDBlock (h_writer h)) \<and>
     blk_start (w_taskIDBlock (h_writer h)) \<le> db_rangeID (h_db h) * cf_RangeSize cfg + 1"

text \<open>What the allocation leaves alone.\<close>

definition same_rest :: "tl_host \<Rightarrow> tl_host \<Rightarrow> bool" where
  "same_rest h h' \<longleftrightarrow>
     h_ack h' = h_ack h \<and> h_gc h' = h_gc h \<and> h_reader h' = h_reader h \<and>
     db_key (h_db h') = db_key (h_db h) \<and> db_taskListKind (h_db h') = db_taskListKind (h_db h) \<and>
     w_maxReadLevel (h_writer h') = w_maxReadLevel (h_writer h) \<and>
     w_appendCh (h_writer h') = w_appendCh (h_writer h) \<and>
     w_responses (h_writer h') = w_responses (h_writer h)"

text \<open>
  \<open>allocated\<close>: the range of the host stays, or the host owned the table's range and moved on.
\<close>

definition allocated :: "tl_config \<Rightarrow> tl_host \<Rightarrow> tl_store \<Rightarrow> tl_host \<Rightarrow> tl_store \<Rightarrow> bool" where
  "allocated cfg h s h' s' \<longleftrightarrow>
     db_rangeID (h_db h) \<le> range0 (db_key (h_db h)) s \<and>
     same_rest h h' \<and> lease_only (db_key (h_db h)) s s' \<and> block_inv cfg h' \<and>
     blk_start (w_taskIDBlock (h_writer h)) \<le> blk_start (w_taskIDBlock (h_writer h')) \<and>
     db_rangeID (h_db h) \<le> db_rangeID (h_db h') \<and>
     db_rangeID (h_db h') \<le> range0 (db_key (h_db h)) s' \<and>
     (db_rangeID (h_db h') = db_rangeID (h_db h) \<and> db_ackLevel (h_db h') = db_ackLevel (h_db h) \<or>
      range0 (db_key (h_db h)) s = db_rangeID (h_db h) \<and>
      db_ackLevel (h_db h') = ack0 (db_key (h_db h)) s)"

lemma allocated_trans:
  assumes "allocated cfg h s h1 s1" and "allocated cfg h1 s1 h2 s2"
  shows "allocated cfg h s h2 s2"
proof -
  have key: "db_key (h_db h1) = db_key (h_db h)"
    using assms(1) by (simp add: allocated_def same_rest_def)
  have "same_rest h h2"
    using assms by (simp add: allocated_def same_rest_def)
  moreover have "lease_only (db_key (h_db h)) s s2"
    using assms key by (auto simp: allocated_def intro: lease_only_trans)
  ultimately show ?thesis
    using assms key by (auto simp: allocated_def lease_only_def)
qed

lemma renewLease_cases:
  assumes "renewLeaseWithRetry now fs (h, s) = ((h', s'), res)"
    and "db_rangeID (h_db h) \<le> range0 (db_key (h_db h)) s"
  shows "leased (h_db h) s (h_db h') s' res" and "same_rest h h'"
    and "w_taskIDBlock (h_writer h') = w_taskIDBlock (h_writer h)"
proof -
  obtain db s1 r where t: "throttleRetry_Do (RenewLease now) fs (h_db h, s) = ((db, s1), r)"
    by (metis prod.collapse)
  note l = retry_leased [OF t assms(2)]
  have eqs: "h_db h' = db" "s' = s1" "res = r"
    using assms(1) t by (auto simp: renewLeaseWithRetry_def split: sum.splits)
  show "leased (h_db h) s (h_db h') s' res"
    using l eqs by simp
  show "same_rest h h'" and "w_taskIDBlock (h_writer h') = w_taskIDBlock (h_writer h)"
    using assms(1) t l by (auto simp: renewLeaseWithRetry_def same_rest_def leased_def split: sum.splits)
qed


text \<open>Taking one ID from the current block.\<close>

lemma allocated_take:
  assumes "block_inv cfg h" and "db_rangeID (h_db h) \<le> range0 (db_key (h_db h)) s"
    and "blk_start (w_taskIDBlock (h_writer h)) \<le> blk_end (w_taskIDBlock (h_writer h))"
  shows "allocated cfg h s
    (set_block ((w_taskIDBlock (h_writer h))\<lparr>blk_start := blk_start (w_taskIDBlock (h_writer h)) + 1\<rparr>) h) s"
  using assms by (auto simp: allocated_def same_rest_def block_inv_def set_block_def)

lemma allocTaskIDBlock_Inl:
  assumes "allocTaskIDBlock cfg now fs e (h, s) = ((h', s'), Inl err)"
    and "block_inv cfg h" and "db_rangeID (h_db h) \<le> range0 (db_key (h_db h)) s"
  shows "allocated cfg h s h' s'"
proof (cases "renewLeaseWithRetry now fs (h, s)")
  case (Pair c res)
  obtain h1 s1 where c: "c = (h1, s1)"
    by (cases c)
  note r = renewLease_cases [OF Pair [unfolded c] assms(3)]
  show ?thesis
    using assms Pair c r
    by (auto simp: allocTaskIDBlock_def Let_def allocated_def leased_def same_rest_def block_inv_def
        lease_only_def split: if_splits sum.splits)
qed

text \<open>A new block, and the ID taken from it.\<close>

lemma allocTaskIDBlock_Inr:
  assumes eq: "allocTaskIDBlock cfg now fs e (h, s) = ((h', s'), Inr b)"
    and inv: "block_inv cfg h" and le: "db_rangeID (h_db h) \<le> range0 (db_key (h_db h)) s"
    and size: "0 < cf_RangeSize cfg"
  shows "allocated cfg h s (set_block (b\<lparr>blk_start := blk_start b + 1\<rparr>) h') s'"
    and "blk_start (w_taskIDBlock (h_writer h)) \<le> blk_start b"
proof -
  obtain h1 s1 res where ren: "renewLeaseWithRetry now fs (h, s) = ((h1, s1), res)"
    by (metis prod.collapse)
  note l = renewLease_cases [OF ren le]
  obtain r a where res: "res = Inr (r, a)" and h': "h' = h1" "s' = s1"
    and b: "b = rangeIDToTaskIDBlock r (cf_RangeSize cfg)"
    using eq ren by (auto simp: allocTaskIDBlock_def Let_def split: if_splits sum.splits)
  have own: "range0 (db_key (h_db h)) s = db_rangeID (h_db h)" and less: "db_rangeID (h_db h) < r"
    and rdb: "db_rangeID (h_db h1) = r" "db_ackLevel (h_db h1) = ack0 (db_key (h_db h)) s"
      "range0 (db_key (h_db h)) s1 = r" "lease_only (db_key (h_db h)) s s1"
    using l(1) inv le by (auto simp: leased_def res block_inv_def)
  have "db_rangeID (h_db h) * cf_RangeSize cfg \<le> (r - 1) * cf_RangeSize cfg"
    using less size by (intro mult_right_mono) auto
  then show start: "blk_start (w_taskIDBlock (h_writer h)) \<le> blk_start b"
    using inv by (simp add: b rangeIDToTaskIDBlock_def block_inv_def)
  have "(r - 1) * cf_RangeSize cfg + 1 \<le> r * cf_RangeSize cfg"
    using size by (simp add: algebra_simps)
  moreover have "1 \<le> r"
    using inv less by (simp add: block_inv_def)
  ultimately have "block_inv cfg (set_block (b\<lparr>blk_start := blk_start b + 1\<rparr>) h')"
    using rdb by (simp add: block_inv_def set_block_def h' b rangeIDToTaskIDBlock_def)
  then show "allocated cfg h s (set_block (b\<lparr>blk_start := blk_start b + 1\<rparr>) h') s'"
    using l(2) own less rdb start le by (auto simp: allocated_def set_block_def same_rest_def h')
qed

text \<open>
  The IDs of a batch: as many as asked for, increasing, from the start of the host's block and
  below its new start.
\<close>

definition good_ids :: "tl_host \<Rightarrow> tl_host \<Rightarrow> nat \<Rightarrow> int list \<Rightarrow> bool" where
  "good_ids h h' n ids \<longleftrightarrow> length ids = n \<and> sorted_wrt (<) ids \<and>
     (\<forall>k \<in> set ids. blk_start (w_taskIDBlock (h_writer h)) \<le> k \<and>
        k < blk_start (w_taskIDBlock (h_writer h')))"

lemma good_ids_Cons:
  assumes "good_ids h1 h' n ids" and "blk_start (w_taskIDBlock (h_writer h)) \<le> k"
    and "k < blk_start (w_taskIDBlock (h_writer h1))"
    and "blk_start (w_taskIDBlock (h_writer h1)) \<le> blk_start (w_taskIDBlock (h_writer h'))"
  shows "good_ids h h' (Suc n) (k # ids)"
  using assms by (fastforce simp: good_ids_def)

lemma blk_start_set_block [simp]:
  "blk_start (w_taskIDBlock (h_writer (set_block b h))) = blk_start b"
  by (simp add: set_block_def)

lemma allocTaskIDs_spec:
  assumes "allocTaskIDs cfg now fss n (h, s) = ((h', s'), res)"
    and "block_inv cfg h" and "db_rangeID (h_db h) \<le> range0 (db_key (h_db h)) s"
    and "0 < cf_RangeSize cfg"
  shows "allocated cfg h s h' s' \<and> (\<forall>ids. res = Inr ids \<longrightarrow> good_ids h h' n ids)"
  using assms
proof (induction n arbitrary: fss h s h' s' res)
  case 0
  then show ?case
    by (auto simp: allocated_def same_rest_def good_ids_def)
next
  case (Suc n)
  let ?b = "w_taskIDBlock (h_writer h)"
  have rest: "allocated cfg h s h' s' \<and> (\<forall>ids. res = Inr ids \<longrightarrow> good_ids h h' (Suc n) ids)"
    if one: "allocated cfg h s h1 s1" and k: "blk_start ?b \<le> k"
      "blk_start (w_taskIDBlock (h_writer h1)) = k + 1"
      and step: "(case allocTaskIDs cfg now fss' n (h1, s1) of
          (c'', Inl e) \<Rightarrow> (c'', Inl e) | (c'', Inr ids) \<Rightarrow> (c'', Inr (k # ids))) = ((h', s'), res)"
    for fss' h1 s1 k
  proof -
    obtain h2 s2 r2 where rec: "allocTaskIDs cfg now fss' n (h1, s1) = ((h2, s2), r2)"
      by (metis prod.collapse)
    have inv1: "block_inv cfg h1" "db_rangeID (h_db h1) \<le> range0 (db_key (h_db h1)) s1"
      using one by (auto simp: allocated_def same_rest_def)
    note IH = Suc.IH [OF rec inv1 Suc.prems(4)]
    have eqs: "h' = h2" "s' = s2"
      "res = (case r2 of Inl e \<Rightarrow> Inl e | Inr ids \<Rightarrow> Inr (k # ids))"
      using step rec by (auto split: sum.splits)
    have "blk_start (w_taskIDBlock (h_writer h1)) \<le> blk_start (w_taskIDBlock (h_writer h2))"
      using IH by (simp add: allocated_def)
    then show ?thesis
      using IH k good_ids_Cons [of h1 h2 n _ h k] allocated_trans [OF one]
      by (auto simp: eqs split: sum.splits)
  qed
  show ?case
  proof (cases "blk_start ?b > blk_end ?b")
    case False
    show ?thesis
      using Suc.prems False by (intro rest [OF allocated_take]) (auto simp: Let_def)
  next
    case True
    obtain h1 s1 r1 where al: "allocTaskIDBlock cfg now (case fss of [] \<Rightarrow> [] | fs # _ \<Rightarrow> fs)
        (blk_end ?b) (h, s) = ((h1, s1), r1)"
      by (metis prod.collapse)
    show ?thesis
    proof (cases r1)
      case (Inl e)
      then show ?thesis
        using Suc.prems True al allocTaskIDBlock_Inl [OF al [unfolded Inl] Suc.prems(2,3)]
        by (auto simp: Let_def)
    next
      case (Inr b)
      note new = allocTaskIDBlock_Inr [OF al [unfolded Inr] Suc.prems(2-4)]
      show ?thesis
        by (rule rest [OF new(1) new(2)]) (use Suc.prems(1) True al Inr in \<open>simp_all add: Let_def\<close>)
    qed
  qed
qed

end
