(* ===== verification/Tasklist_System.thy ===== *)
theory Tasklist_System
  imports Tasklist_Lease
begin

text \<open>
  The hosts that serve one task list over time, interleaved in any order: a host takes the lease
  when it starts, may lose it to another host without noticing, and keeps running its goroutines
  until it is stopped. \<open>tl_exec\<close> executes one event; an event that cannot happen in a state gives
  \<open>None\<close>. Two ghost components record what happened: \<open>sy_created\<close> every row that was ever
  persisted for the list and \<open>sy_done\<close> why a task is finished.
\<close>

datatype done_reason = Processed | Expired | Rewritten

record tl_sys =
  sy_now :: int
  sy_store :: tl_store
  sy_hosts :: "(nat, tl_host) gomap"
  sy_created :: "tasks_row list"
  sy_done :: "(int \<times> done_reason) list"

datatype tl_event =
    EStart nat int "string list" "tl_fault list"
  | EAppend nat TaskInfo
  | EWrite nat "tl_fault list list" tl_fault
  | EPump nat "tl_fault list list"
  | EBuffer nat string
  | EDispatch nat string dispatch_result
  | EComplete nat TaskInfo bool "tl_error option" "tl_fault list"
  | EAckTimer nat tl_fault tl_fault
  | EConfig nat "partition_config option" tl_fault
  | EStop nat tl_fault "tl_fault list"
  | ETick int

definition put_host :: "nat \<Rightarrow> tl_host \<times> tl_store \<Rightarrow> tl_sys \<Rightarrow> tl_sys" where
  "put_host i c sys = sys\<lparr>sy_hosts := AList.update i (fst c) (sy_hosts sys), sy_store := snd c\<rparr>"

definition add_done :: "bool \<Rightarrow> int \<Rightarrow> done_reason \<Rightarrow> tl_sys \<Rightarrow> tl_sys" where
  "add_done b k reason sys = (if b then sys\<lparr>sy_done := (k, reason) # sy_done sys\<rparr> else sys)"

definition new_rows :: "tl_store \<Rightarrow> tl_store \<Rightarrow> tasks_row list" where
  "new_rows s s' = filter (\<lambda>r. r \<notin> set (st_tasks s)) (st_tasks s')"

text \<open>Starting a host: the manager is kept only when its writer got the lease.\<close>

definition exec_start ::
  "tl_config \<Rightarrow> tl_key \<Rightarrow> nat \<Rightarrow> int \<Rightarrow> string list \<Rightarrow> tl_fault list \<Rightarrow> tl_sys \<Rightarrow> tl_sys option" where
  "exec_start cfg key i kind groups fs sys =
     (if map_of (sy_hosts sys) i \<noteq> None then None
      else (case writer_Start cfg (sy_now sys) fs (newTaskListManager key kind groups, sy_store sys) of
          (c, None) \<Rightarrow> Some (put_host i c sys)
        | (c, Some _) \<Rightarrow> Some (sys\<lparr>sy_store := snd c\<rparr>)))"

text \<open>
  A task is appended for a caller of the service, which leaves its task ID 0, or to write back a
  task that a poller could not start.
\<close>

definition exec_append :: "tl_config \<Rightarrow> tl_key \<Rightarrow> TaskInfo \<Rightarrow> tl_host \<Rightarrow> tl_host option" where
  "exec_append cfg key t h =
     (if ti_DomainID t = fst key \<and> (ti_TaskID t = 0 \<or> t \<in> set (rd_inflight (h_reader h))) then
        (case appendTask cfg t (h_writer h) of
           Inl _ \<Rightarrow> None
         | Inr w \<Rightarrow> Some (h\<lparr>h_writer := w\<rparr>))
      else None)"

definition exec_write ::
  "tl_config \<Rightarrow> nat \<Rightarrow> tl_fault list list \<Rightarrow> tl_fault \<Rightarrow> tl_host \<Rightarrow> tl_sys \<Rightarrow> tl_sys option" where
  "exec_write cfg i fss f h sys =
     (if w_appendCh (h_writer h) = [] then None
      else
        (let c = taskWriterLoop cfg (sy_now sys) fss f (h, sy_store sys)
         in Some ((put_host i c sys)
              \<lparr>sy_created := sy_created sys @ new_rows (sy_store sys) (snd c)\<rparr>)))"

definition pump_ready :: "tl_host \<Rightarrow> bool" where
  "pump_ready h \<longleftrightarrow> rd_pending (h_reader h) = [] \<and> \<not> rd_pumpDone (h_reader h)"

text \<open>The pump waits while a buffer is full and the reader is not stopped.\<close>

definition exec_buffer :: "tl_config \<Rightarrow> nat \<Rightarrow> string \<Rightarrow> tl_host \<Rightarrow> tl_sys \<Rightarrow> tl_sys option" where
  "exec_buffer cfg i g h sys =
     (case rd_pending (h_reader h) of
        [] \<Rightarrow> None
      | t # _ \<Rightarrow>
          if rd_stopped (h_reader h) \<or> isTaskExpired (sy_now sys) t \<or>
             int (length (gm_list (rd_taskBuffers (h_reader h)) (bufferOf (h_reader h) g)))
               < effectiveBatchSize cfg
          then Some (add_done (isTaskExpired (sy_now sys) t) (ti_TaskID t) Expired
                 (put_host i (addTasksToBuffer cfg (sy_now sys) g h, sy_store sys) sys))
          else None)"

definition exec_dispatch :: "nat \<Rightarrow> string \<Rightarrow> dispatch_result \<Rightarrow> tl_host \<Rightarrow> tl_sys \<Rightarrow> tl_sys option" where
  "exec_dispatch i g res h sys =
     (case gm_list (rd_taskBuffers (h_reader h)) g of
        [] \<Rightarrow> None
      | t # _ \<Rightarrow> Some (add_done (isTaskExpired (sy_now sys) t) (ti_TaskID t) Expired
          (put_host i (fst (dispatchSingleTaskFromBuffer (sy_now sys) res g h), sy_store sys) sys)))"

text \<open>A task that could not be started is acknowledged only after the writer confirmed its copy.\<close>

definition exec_complete ::
  "tl_config \<Rightarrow> nat \<Rightarrow> TaskInfo \<Rightarrow> bool \<Rightarrow> tl_error option \<Rightarrow> tl_fault list \<Rightarrow> tl_host \<Rightarrow> tl_sys \<Rightarrow>
     tl_sys option" where
  "exec_complete cfg i t err appendErr fs h sys =
     (if t \<in> set (rd_inflight (h_reader h)) \<and>
         (err \<and> appendErr = None \<longrightarrow> (t, None) \<in> set (w_responses (h_writer h)))
      then Some (add_done (\<not> (err \<and> appendErr \<noteq> None)) (ti_TaskID t)
             (if err then Rewritten else Processed)
             (put_host i (completeTask cfg (sy_now sys) fs t err appendErr
                (h\<lparr>h_reader := (h_reader h)\<lparr>rd_inflight := remove1 t (rd_inflight (h_reader h))\<rparr>\<rparr>,
                 sy_store sys)) sys))
      else None)"

definition exec_config ::
  "nat \<Rightarrow> partition_config option \<Rightarrow> tl_fault \<Rightarrow> tl_host \<Rightarrow> tl_sys \<Rightarrow> tl_sys option" where
  "exec_config i config f h sys =
     (case UpdateTaskListPartitionConfig (sy_now sys) f config (h_db h, sy_store sys) of
        ((db, s), _) \<Rightarrow> Some (put_host i (h\<lparr>h_db := db\<rparr>, s) sys))"

fun tl_exec :: "tl_config \<Rightarrow> tl_key \<Rightarrow> tl_event \<Rightarrow> tl_sys \<Rightarrow> tl_sys option" where
  "tl_exec cfg key (EStart i kind groups fs) sys = exec_start cfg key i kind groups fs sys"
| "tl_exec cfg key (EAppend i t) sys = Option.bind (map_of (sy_hosts sys) i)
     (\<lambda>h. map_option (\<lambda>h'. put_host i (h', sy_store sys) sys) (exec_append cfg key t h))"
| "tl_exec cfg key (EWrite i fss f) sys = Option.bind (map_of (sy_hosts sys) i)
     (\<lambda>h. exec_write cfg i fss f h sys)"
| "tl_exec cfg key (EPump i fss) sys = Option.bind (map_of (sy_hosts sys) i)
     (\<lambda>h. if pump_ready h \<and> rd_notifyC (h_reader h)
          then Some (put_host i (getTasksPump cfg fss (h, sy_store sys), sy_store sys) sys) else None)"
| "tl_exec cfg key (EBuffer i g) sys = Option.bind (map_of (sy_hosts sys) i)
     (\<lambda>h. exec_buffer cfg i g h sys)"
| "tl_exec cfg key (EDispatch i g res) sys = Option.bind (map_of (sy_hosts sys) i)
     (\<lambda>h. exec_dispatch i g res h sys)"
| "tl_exec cfg key (EComplete i t err appendErr fs) sys = Option.bind (map_of (sy_hosts sys) i)
     (\<lambda>h. exec_complete cfg i t err appendErr fs h sys)"
| "tl_exec cfg key (EAckTimer i f1 f2) sys = Option.bind (map_of (sy_hosts sys) i)
     (\<lambda>h. if pump_ready h
          then Some (put_host i (updateAckTimerFired (sy_now sys) f1 f2 (h, sy_store sys)) sys) else None)"
| "tl_exec cfg key (EConfig i config f) sys = Option.bind (map_of (sy_hosts sys) i)
     (\<lambda>h. exec_config i config f h sys)"
| "tl_exec cfg key (EStop i f fs) sys = Option.bind (map_of (sy_hosts sys) i)
     (\<lambda>h. Some (put_host i (manager_Stop cfg (sy_now sys) f fs (h, sy_store sys)) sys))"
| "tl_exec cfg key (ETick d) sys = (if 0 \<le> d then Some (sys\<lparr>sy_now := sy_now sys + d\<rparr>) else None)"

fun tl_run :: "tl_config \<Rightarrow> tl_key \<Rightarrow> tl_event list \<Rightarrow> tl_sys \<Rightarrow> tl_sys option" where
  "tl_run cfg key [] sys = Some sys"
| "tl_run cfg key (e # es) sys = Option.bind (tl_exec cfg key e sys) (tl_run cfg key es)"

text \<open>The list does not exist yet; the store may hold other lists.\<close>

definition tl_init :: "int \<Rightarrow> tl_store \<Rightarrow> tl_sys" where
  "tl_init now s = \<lparr>sy_now = now, sy_store = s, sy_hosts = [], sy_created = [], sy_done = []\<rparr>"

definition fresh_list :: "tl_key \<Rightarrow> tl_store \<Rightarrow> bool" where
  "fresh_list key s \<longleftrightarrow>
     store_wf s \<and> map_of (st_task_lists s) key = None \<and> key \<notin> tkr_List ` set (st_tasks s)"

text \<open>What the configuration must satisfy.\<close>

definition config_ok :: "tl_config \<Rightarrow> bool" where
  "config_ok cfg \<longleftrightarrow> 0 < cf_RangeSize cfg \<and> 0 < cf_ReadRangeSize cfg"

end
