(* ===== verification/Tasklist_Inv.thy ===== *)
theory Tasklist_Inv
  imports Tasklist_System
begin

text \<open>
  The invariant of the task list hosts: what each host knows of the list (\<open>host_ok\<close>), what the
  store holds (\<open>store_ok\<close>), and that no two hosts were ever granted the same range.
\<close>

section \<open>The invariant\<close>

definition row_ids :: "tasks_row list \<Rightarrow> int set" where
  "row_ids cr = tkr_TaskID ` set cr"

lemma row_ids_append [simp]: "row_ids (cr @ N) = row_ids cr \<union> row_ids N"
  by (auto simp: row_ids_def)

lemma row_ids_Nil [simp]: "row_ids [] = {}"
  by (simp add: row_ids_def)

text \<open>The row carries the work of the task: same workflow, run, schedule event and partition.\<close>

definition same_work :: "tasks_row \<Rightarrow> TaskInfo \<Rightarrow> bool" where
  "same_work r t \<longleftrightarrow> tkr_WorkflowID r = ti_WorkflowID t \<and> tkr_RunID r = ti_RunID t \<and>
     tkr_ScheduleID r = ti_ScheduleID t \<and> tkr_PartitionConfig r = ti_PartitionConfig t"

definition copied :: "tasks_row list \<Rightarrow> TaskInfo \<Rightarrow> bool" where
  "copied cr t \<longleftrightarrow> (\<exists>r \<in> set cr. ti_TaskID t < tkr_TaskID r \<and> same_work r t)"

definition writer_ok :: "tl_config \<Rightarrow> tl_key \<Rightarrow> int \<Rightarrow> tasks_row list \<Rightarrow> tl_host \<Rightarrow> bool" where
  "writer_ok cfg key g cr h \<longleftrightarrow>
     db_key (h_db h) = key \<and> block_inv cfg h \<and> db_rangeID (h_db h) \<le> g \<and>
     0 \<le> w_maxReadLevel (h_writer h) \<and>
     w_maxReadLevel (h_writer h) < blk_start (w_taskIDBlock (h_writer h)) \<and>
     (\<forall>k \<in> row_ids cr. w_maxReadLevel (h_writer h) < k \<longrightarrow>
        db_rangeID (h_db h) * cf_RangeSize cfg < k) \<and>
     (\<forall>t \<in> set (w_appendCh (h_writer h)). ti_DomainID t = fst key \<and>
        ti_TaskID t < blk_start (w_taskIDBlock (h_writer h))) \<and>
     (\<forall>t. (t, None) \<in> set (w_responses (h_writer h)) \<longrightarrow> copied cr t)"

definition acks_ok :: "tl_config \<Rightarrow> tasks_row list \<Rightarrow> int set \<Rightarrow> tl_host \<Rightarrow> bool" where
  "acks_ok cfg cr D h \<longleftrightarrow>
     ack_inv (h_ack h) \<and> 0 \<le> am_ackLevel (h_ack h) \<and>
     am_readLevel (h_ack h) \<le> w_maxReadLevel (h_writer h) \<and>
     tracks D (row_ids cr) (am_readLevel (h_ack h)) (unacked (h_ack h)) \<and>
     0 \<le> db_ackLevel (h_db h) \<and> db_ackLevel (h_db h) \<le> w_maxReadLevel (h_writer h) \<and>
     (\<forall>k \<in> row_ids cr. k \<le> db_ackLevel (h_db h) \<longrightarrow> k \<in> D)"

text \<open>The tasks read and not yet in a buffer: everything up to the last of them is among them.\<close>

definition pending_ok :: "tasks_row list \<Rightarrow> int set \<Rightarrow> int \<Rightarrow> int \<Rightarrow> TaskInfo list \<Rightarrow> bool" where
  "pending_ok cr D rl mx ts \<longleftrightarrow>
     sorted_wrt (<) (map ti_TaskID ts) \<and> set ts \<subseteq> task_of_row ` set cr \<and>
     (\<forall>t \<in> set ts. rl < ti_TaskID t \<and> ti_TaskID t \<le> mx) \<and>
     (\<forall>t \<in> set ts. \<forall>k \<in> row_ids cr. rl < k \<and> k \<le> ti_TaskID t \<longrightarrow> k \<in> D \<or> k \<in> ti_TaskID ` set ts)"

definition held :: "taskReader \<Rightarrow> TaskInfo set" where
  "held r = (\<Union>g. set (gm_list (rd_taskBuffers r) g)) \<union> set (rd_inflight r)"

definition held_ok :: "tasks_row list \<Rightarrow> tl_host \<Rightarrow> bool" where
  "held_ok cr h \<longleftrightarrow> held (h_reader h) \<subseteq> task_of_row ` set cr \<and>
     (\<forall>t \<in> held (h_reader h). ti_TaskID t \<le> am_readLevel (h_ack h))"

definition host_ok :: "tl_config \<Rightarrow> tl_key \<Rightarrow> int \<Rightarrow> tasks_row list \<Rightarrow> int set \<Rightarrow> tl_host \<Rightarrow> bool" where
  "host_ok cfg key g cr D h \<longleftrightarrow>
     writer_ok cfg key g cr h \<and> acks_ok cfg cr D h \<and>
     pending_ok cr D (am_readLevel (h_ack h)) (w_maxReadLevel (h_writer h)) (rd_pending (h_reader h)) \<and>
     held_ok cr h \<and> \<not> rd_crashed (h_reader h)"

definition store_ok ::
  "tl_config \<Rightarrow> tl_key \<Rightarrow> tl_store \<Rightarrow> tasks_row list \<Rightarrow> int set \<Rightarrow> bool" where
  "store_ok cfg key s cr D \<longleftrightarrow>
     store_wf s \<and> (\<forall>r \<in> set cr. tkr_List r = key) \<and> inj_on tkr_TaskID (set cr) \<and>
     (\<forall>r \<in> set (st_tasks s). tkr_List r = key \<longrightarrow> r \<in> set cr) \<and>
     (\<forall>r \<in> set cr. tkr_TaskID r \<notin> D \<longrightarrow> r \<in> set (st_tasks s)) \<and>
     0 \<le> range0 key s \<and> (\<forall>k \<in> row_ids cr. 1 \<le> k \<and> k \<le> range0 key s * cf_RangeSize cfg) \<and>
     0 \<le> ack0 key s \<and> ack0 key s \<le> range0 key s * cf_RangeSize cfg \<and>
     (\<forall>k \<in> row_ids cr. k \<le> ack0 key s \<longrightarrow> k \<in> D)"

definition done_ids :: "tl_sys \<Rightarrow> int set" where
  "done_ids sys = fst ` set (sy_done sys)"

text \<open>A task that counts as rewritten has a copy with a larger ID.\<close>

definition rewritten_ok :: "tl_sys \<Rightarrow> bool" where
  "rewritten_ok sys \<longleftrightarrow> (\<forall>k. (k, Rewritten) \<in> set (sy_done sys) \<longrightarrow>
     (\<exists>r \<in> set (sy_created sys). tkr_TaskID r = k \<and> copied (sy_created sys) (task_of_row r)))"

definition hosts_ok :: "tl_config \<Rightarrow> tl_key \<Rightarrow> int \<Rightarrow> tasks_row list \<Rightarrow> int set \<Rightarrow>
    (nat, tl_host) gomap \<Rightarrow> bool" where
  "hosts_ok cfg key g cr D hs \<longleftrightarrow>
     (\<forall>i h. map_of hs i = Some h \<longrightarrow> host_ok cfg key g cr D h) \<and>
     (\<forall>i j h h'. map_of hs i = Some h \<longrightarrow> map_of hs j = Some h' \<longrightarrow> i \<noteq> j \<longrightarrow>
        db_rangeID (h_db h) \<noteq> db_rangeID (h_db h'))"

text \<open>The host that owns the current range has read at least up to the persisted ack level.\<close>

definition owner_ok :: "tl_key \<Rightarrow> tl_sys \<Rightarrow> bool" where
  "owner_ok key sys \<longleftrightarrow> (\<forall>i h. map_of (sy_hosts sys) i = Some h \<longrightarrow>
     db_rangeID (h_db h) = range0 key (sy_store sys) \<longrightarrow>
     ack0 key (sy_store sys) \<le> w_maxReadLevel (h_writer h))"

definition sys_ok :: "tl_config \<Rightarrow> tl_key \<Rightarrow> tl_sys \<Rightarrow> bool" where
  "sys_ok cfg key sys \<longleftrightarrow>
     store_ok cfg key (sy_store sys) (sy_created sys) (done_ids sys) \<and> rewritten_ok sys \<and> owner_ok key sys \<and>
     hosts_ok cfg key (range0 key (sy_store sys)) (sy_created sys) (done_ids sys) (sy_hosts sys)"

lemma sys_ok_init:
  assumes "fresh_list key s"
  shows "sys_ok cfg key (tl_init now s)"
  using assms
  by (auto simp: sys_ok_def store_ok_def rewritten_ok_def owner_ok_def hosts_ok_def tl_init_def fresh_list_def
      done_ids_def row_ids_def range0_def ack0_def list_range_def list_ack_def)

section \<open>Growth of the list\<close>

lemma copied_grow: "copied cr t \<Longrightarrow> copied (cr @ N) t"
  by (auto simp: copied_def)

lemma maxReadLevel_bound:
  "writer_ok cfg key g cr h \<Longrightarrow> w_maxReadLevel (h_writer h) \<le> db_rangeID (h_db h) * cf_RangeSize cfg"
  by (auto simp: writer_ok_def block_inv_def)

lemma pending_grow:
  assumes "pending_ok cr D rl mx ts" and "D \<subseteq> D'" and "\<And>n. n \<in> row_ids N \<Longrightarrow> mx < n"
  shows "pending_ok (cr @ N) D' rl mx ts"
proof -
  have "k \<in> D' \<or> k \<in> ti_TaskID ` set ts"
    if "t \<in> set ts" "k \<in> row_ids (cr @ N)" "rl < k" "k \<le> ti_TaskID t" for t k
  proof -
    have "ti_TaskID t \<le> mx"
      using assms(1) that(1) by (simp add: pending_ok_def)
    then have "k \<in> row_ids cr"
      using that assms(3) [of k] by auto
    then show ?thesis
      using assms(1,2) that unfolding pending_ok_def by blast
  qed
  then show ?thesis
    using assms(1) by (auto simp: pending_ok_def)
qed

text \<open>
  What other hosts do keeps \<open>host_ok\<close>: tasks are finished, the range moves on, and new tasks have
  IDs above the range of the host.
\<close>

lemma host_ok_grow:
  assumes h: "host_ok cfg key g cr D h" and "g \<le> g'" and D: "D \<subseteq> D'"
    and N: "\<And>n. n \<in> row_ids N \<Longrightarrow> db_rangeID (h_db h) * cf_RangeSize cfg < n"
  shows "host_ok cfg key g' (cr @ N) D' h"
proof -
  have w: "writer_ok cfg key g cr h" and a: "acks_ok cfg cr D h"
    using h by (simp_all add: host_ok_def)
  have mx: "w_maxReadLevel (h_writer h) < n" "am_readLevel (h_ack h) < n" "db_ackLevel (h_db h) < n"
    if "n \<in> row_ids N" for n
    using N [OF that] maxReadLevel_bound [OF w] a by (auto simp: acks_ok_def)
  have "writer_ok cfg key g' (cr @ N) h"
    using w assms(2) N by (auto simp: writer_ok_def copied_grow)
  moreover have "tracks D' (row_ids (cr @ N)) (am_readLevel (h_ack h)) (unacked (h_ack h))"
    unfolding row_ids_append
    by (rule tracks_created [OF tracks_more_done [OF _ D]]) (use a mx in \<open>auto simp: acks_ok_def\<close>)
  then have "acks_ok cfg (cr @ N) D' h"
    using a mx D by (fastforce simp: acks_ok_def)
  moreover have "held_ok (cr @ N) h"
    using h by (auto simp: host_ok_def held_ok_def)
  ultimately show ?thesis
    using h pending_grow [OF _ D, of cr _ _ _ N] mx by (auto simp: host_ok_def)
qed

lemma hosts_ok_put:
  assumes "hosts_ok cfg key g cr D hs" and "host_ok cfg key g' (cr @ N) D' h'"
    and "g \<le> g'" and "D \<subseteq> D'"
    and "\<And>j hj. j \<noteq> i \<Longrightarrow> map_of hs j = Some hj \<Longrightarrow>
      db_rangeID (h_db hj) \<noteq> db_rangeID (h_db h') \<and>
      (\<forall>n \<in> row_ids N. db_rangeID (h_db hj) * cf_RangeSize cfg < n)"
  shows "hosts_ok cfg key g' (cr @ N) D' (AList.update i h' hs)"
proof -
  have "host_ok cfg key g' (cr @ N) D' hj" if "map_of hs j = Some hj" "j \<noteq> i" for j hj
    using assms(1,3,4) assms(5) [OF that(2,1)] that
    by (intro host_ok_grow [of cfg key g cr D hj]) (auto simp: hosts_ok_def)
  moreover have "db_rangeID (h_db hj) \<noteq> db_rangeID (h_db hk)"
    if "map_of hs j = Some hj" "map_of hs k = Some hk" "j \<noteq> k" for j k hj hk
    using assms(1) that by (auto simp: hosts_ok_def)
  moreover have "db_rangeID (h_db hj) \<noteq> db_rangeID (h_db h') \<and>
      db_rangeID (h_db h') \<noteq> db_rangeID (h_db hj)" if "map_of hs j = Some hj" "j \<noteq> i" for j hj
    using assms(5) [OF that(2,1)] by simp
  ultimately show ?thesis
    using assms(2) by (auto simp: hosts_ok_def update_conv' split: if_splits)
qed

text \<open>A step of one host that writes no task and keeps its range.\<close>

lemma sys_ok_put:
  assumes "sys_ok cfg key sys" and h: "map_of (sy_hosts sys) i = Some h"
    and "range0 key (sy_store sys) \<le> range0 key (snd c)"
    and "db_rangeID (h_db (fst c)) = db_rangeID (h_db h)"
    and "done_ids sys \<subseteq> D"
    and "store_ok cfg key (snd c) (sy_created sys) D"
    and "host_ok cfg key (range0 key (snd c)) (sy_created sys) D (fst c)"
  shows "hosts_ok cfg key (range0 key (snd c)) (sy_created sys) D (sy_hosts (put_host i c sys))"
proof -
  have hosts: "hosts_ok cfg key (range0 key (sy_store sys)) (sy_created sys) (done_ids sys) (sy_hosts sys)"
    using assms(1) by (simp add: sys_ok_def)
  have "db_rangeID (h_db hj) \<noteq> db_rangeID (h_db (fst c))" if "j \<noteq> i" "map_of (sy_hosts sys) j = Some hj" for j hj
    using hosts h that assms(4) by (auto simp: hosts_ok_def)
  then show ?thesis
    using hosts_ok_put [OF hosts, of "range0 key (snd c)" "[]" D "fst c" i] assms
    by (simp add: put_host_def)
qed


text \<open>The ack level moved only if the host owned the range.\<close>

lemma owner_ok_put:
  assumes ok: "sys_ok cfg key sys" and "range0 key (sy_store sys) \<le> range0 key s"
    and "\<And>j hj. j \<noteq> i \<Longrightarrow> map_of (sy_hosts sys) j = Some hj \<Longrightarrow> db_rangeID (h_db hj) = range0 key s \<Longrightarrow>
      ack0 key s = ack0 key (sy_store sys)"
    and "db_rangeID (h_db h) = range0 key s \<Longrightarrow> ack0 key s \<le> w_maxReadLevel (h_writer h)"
    and "sy_store sys' = s" and "sy_hosts sys' = AList.update i h (sy_hosts sys)"
  shows "owner_ok key sys'"
proof -
  have "ack0 key s \<le> w_maxReadLevel (h_writer hj)"
    if j: "j \<noteq> i" "map_of (sy_hosts sys) j = Some hj" "db_rangeID (h_db hj) = range0 key s" for j hj
  proof -
    have "db_rangeID (h_db hj) \<le> range0 key (sy_store sys)"
      using ok j(2) by (auto simp: sys_ok_def hosts_ok_def host_ok_def writer_ok_def)
    then have "db_rangeID (h_db hj) = range0 key (sy_store sys)"
      using assms(2) j(3) by simp
    then show ?thesis
      using ok j(2) assms(3) [OF j] by (auto simp: sys_ok_def owner_ok_def)
  qed
  then show ?thesis
    using assms(4-6) by (auto simp: owner_ok_def update_conv' split: if_splits)
qed

section \<open>Changes of the store\<close>

lemma list_ids_rows:
  assumes "store_ok cfg key s cr D"
  shows "list_ids key s \<subseteq> row_ids cr" and "row_ids cr - D \<subseteq> list_ids key s"
  using assms by (auto simp: store_ok_def list_ids_def row_ids_def)

lemma store_ok_lease:
  assumes "store_ok cfg key s cr D" and "lease_only key s s'" and "0 < cf_RangeSize cfg"
  shows "store_ok cfg key s' cr D"
proof -
  have "range0 key s * cf_RangeSize cfg \<le> range0 key s' * cf_RangeSize cfg"
    using assms(2,3) by (intro mult_right_mono) (auto simp: lease_only_def)
  then show ?thesis
    using assms(1,2) by (fastforce simp: store_ok_def lease_only_def store_wf_def)
qed

lemma store_ok_done:
  "store_ok cfg key s cr D \<Longrightarrow> D \<subseteq> D' \<Longrightarrow> store_ok cfg key s cr D'"
  by (auto simp: store_ok_def)

lemma UpdateTaskList_range0 [simp]:
  "range0 key (fst (UpdateTaskList now key info s)) = range0 key s"
  by (simp add: range0_def UpdateTaskList_row)

lemma UpdateTaskList_tasks [simp]:
  "st_tasks (fst (UpdateTaskList now key info s)) = st_tasks s"
  by (auto simp: UpdateTaskList_def Let_def split: option.splits)

text \<open>Persisting an ack level up to which every task is finished.\<close>

lemma store_ok_update:
  assumes ok: "store_ok cfg key s cr D"
    and a: "0 \<le> tli_AckLevel info" "tli_AckLevel info \<le> tli_RangeID info * cf_RangeSize cfg"
    and "\<And>k. k \<in> row_ids cr \<Longrightarrow> k \<le> tli_AckLevel info \<Longrightarrow> k \<in> D"
  shows "store_ok cfg key (fst (UpdateTaskList now key info s)) cr D"
proof -
  let ?s = "fst (UpdateTaskList now key info s)"
  have cases: "ack0 key ?s = ack0 key s \<or>
      ack0 key ?s = tli_AckLevel info \<and> range0 key s = tli_RangeID info"
    by (auto simp: ack0_def range0_def UpdateTaskList_row)
  have "0 \<le> ack0 key ?s \<and> ack0 key ?s \<le> range0 key ?s * cf_RangeSize cfg \<and>
      (\<forall>k \<in> row_ids cr. k \<le> ack0 key ?s \<longrightarrow> k \<in> D)"
    using cases assms by (auto simp: store_ok_def)
  then show ?thesis
    using ok by (auto simp: store_ok_def)
qed

text \<open>Deleting rows of the list up to a level.\<close>

definition deleted_only :: "tl_key \<Rightarrow> int \<Rightarrow> tl_store \<Rightarrow> tl_store \<Rightarrow> bool" where
  "deleted_only key m s s' \<longleftrightarrow>
     st_task_lists s' = st_task_lists s \<and> set (st_tasks s') \<subseteq> set (st_tasks s) \<and>
     (\<forall>r \<in> set (st_tasks s). r \<in> set (st_tasks s') \<or> tkr_List r = key \<and> tkr_TaskID r \<le> m) \<and>
     (store_wf s \<longrightarrow> store_wf s')"

lemma deleted_only_refl [simp]: "deleted_only key m s s"
  by (auto simp: deleted_only_def)

lemma deleted_only_trans:
  "deleted_only key m s s' \<Longrightarrow> deleted_only key m s' s'' \<Longrightarrow> deleted_only key m s s''"
  unfolding deleted_only_def by (metis subset_iff)

lemma deleted_only_Complete: "deleted_only key m s (fst (CompleteTasksLessThan key m n s))"
proof -
  have "r \<in> set (st_tasks (fst (CompleteTasksLessThan key m n s))) \<or>
      tkr_List r = key \<and> tkr_TaskID r \<le> m" if "r \<in> set (st_tasks s)" for r
    using that row_id_list [of _ key m n s]
    by (auto simp: CompleteTasksLessThan_def DeleteFromTasks_def row_id_def)
  then show ?thesis
    using CompleteTasksLessThan_frame(4,5) [where key = key and m = m and n = n and s = s]
    by (auto simp: deleted_only_def CompleteTasksLessThan_def DeleteFromTasks_def)
qed

lemma deleted_only_loop: "deleted_only key m s (fst (deleteLoop key m n fs s))"
proof (induction key m n fs s rule: deleteLoop.induct)
  case (1 key m n fs s)
  let ?f = "case fs of [] \<Rightarrow> NoFault | f # _ \<Rightarrow> f"
  obtain s1 r1 where step: "faulty ?f Inl (CompleteTasksLessThan key m n) s = (s1, r1)"
    by (metis prod.collapse)
  have s1: "deleted_only key m s s1"
    using step deleted_only_Complete [of key m s n] by (auto simp: faulty_def split: tl_fault.splits)
  have "deleted_only key m s1 (fst (deleteLoop key m n (tl fs) s1))" if "r1 = Inr c" "\<not> c < n" for c
    using "1.IH" [OF step [symmetric] that] .
  then show ?case
    using s1 by (auto simp: deleteLoop.simps [of key m n fs s] step intro: deleted_only_trans
        split: sum.splits)
qed

lemma store_ok_deleted:
  assumes "store_ok cfg key s cr D" and "deleted_only key m s s'"
    and "\<And>k. k \<in> row_ids cr \<Longrightarrow> k \<le> m \<Longrightarrow> k \<in> D"
  shows "store_ok cfg key s' cr D" and "range0 key s' = range0 key s" and "ack0 key s' = ack0 key s"
proof -
  have same: "range0 key s' = range0 key s" "ack0 key s' = ack0 key s"
    using assms(2) by (simp_all add: deleted_only_def range0_def ack0_def list_range_def list_ack_def)
  then show "range0 key s' = range0 key s" and "ack0 key s' = ack0 key s"
    by simp_all
  have keep: "r \<in> set (st_tasks s')" if "r \<in> set cr" "tkr_TaskID r \<notin> D" for r
    using assms that unfolding store_ok_def deleted_only_def row_ids_def by blast
  then show "store_ok cfg key s' cr D"
    using assms(1,2) same unfolding store_ok_def deleted_only_def by auto
qed

lemma tryDeleteNextBatch_ok:
  assumes "tryDeleteNextBatch cfg now fs m b (h, s) = (h', s')"
    and "store_ok cfg (db_key (h_db h)) s cr D"
    and "\<And>k. k \<in> row_ids cr \<Longrightarrow> k \<le> m \<Longrightarrow> k \<in> D"
  shows "\<exists>gc. h' = h\<lparr>h_gc := gc\<rparr>" and "store_ok cfg (db_key (h_db h)) s' cr D"
    and "range0 (db_key (h_db h)) s' = range0 (db_key (h_db h)) s"
    and "ack0 (db_key (h_db h)) s' = ack0 (db_key (h_db h)) s"
proof -
  have "\<exists>gc. h = h\<lparr>h_gc := gc\<rparr>"
    by (rule exI [of _ "h_gc h"]) simp
  then show "\<exists>gc. h' = h\<lparr>h_gc := gc\<rparr>"
    using assms(1) by (auto simp: tryDeleteNextBatch_def Let_def split: if_splits prod.splits)
  have del: "deleted_only (db_key (h_db h)) m s s'"
    using assms(1) deleted_only_loop [of "db_key (h_db h)" m s "cf_MaxTaskDeleteBatchSize cfg" fs]
    by (auto simp: tryDeleteNextBatch_def Let_def split: if_splits prod.splits)
  show "store_ok cfg (db_key (h_db h)) s' cr D"
    by (rule store_ok_deleted(1) [OF assms(2) del]) (rule assms(3))
  show "range0 (db_key (h_db h)) s' = range0 (db_key (h_db h)) s"
    by (rule store_ok_deleted(2) [OF assms(2) del]) (rule assms(3))
  show "ack0 (db_key (h_db h)) s' = ack0 (db_key (h_db h)) s"
    by (rule store_ok_deleted(3) [OF assms(2) del]) (rule assms(3))
qed

lemma host_ok_gc [simp]: "host_ok cfg key g cr D (h\<lparr>h_gc := gc\<rparr>) = host_ok cfg key g cr D h"
  by (simp add: host_ok_def writer_ok_def acks_ok_def held_ok_def block_inv_def)

lemma host_ok_signal [simp]:
  "host_ok cfg key g cr D (h\<lparr>h_reader := signal (h_reader h)\<rparr>) = host_ok cfg key g cr D h"
  by (simp add: host_ok_def writer_ok_def acks_ok_def held_ok_def block_inv_def signal_def held_def)

end
