(* ===== verification/Tasklist_Steps.thy ===== *)
theory Tasklist_Steps
  imports Tasklist_Inv
begin

text \<open>
  Every event keeps the invariant of \<open>Tasklist_Inv\<close>: one section per event, then the induction over
  a run.
\<close>

section \<open>Steps of one host\<close>

lemma done_ids_add [simp]:
  "done_ids (add_done b k reason sys) = (if b then insert k (done_ids sys) else done_ids sys)"
  by (simp add: add_done_def done_ids_def)

lemma add_done_simps [simp]:
  "sy_store (add_done b k reason sys) = sy_store sys"
  "sy_hosts (add_done b k reason sys) = sy_hosts sys"
  "sy_created (add_done b k reason sys) = sy_created sys"
  "sy_now (add_done b k reason sys) = sy_now sys"
  by (simp_all add: add_done_def)

lemma put_host_simps [simp]:
  "sy_store (put_host i c sys) = snd c"
  "sy_created (put_host i c sys) = sy_created sys"
  "sy_done (put_host i c sys) = sy_done sys"
  "done_ids (put_host i c sys) = done_ids sys"
  by (simp_all add: put_host_def done_ids_def)

lemma sys_ok_step:
  assumes ok: "sys_ok cfg key sys" and h: "map_of (sy_hosts sys) i = Some h"
    and eq: "range0 key (snd c) = range0 key (sy_store sys)"
    and r: "db_rangeID (h_db (fst c)) = db_rangeID (h_db h)"
    and D: "D = (if b then insert k (done_ids sys) else done_ids sys)"
    and s: "store_ok cfg key (snd c) (sy_created sys) D"
    and h': "host_ok cfg key (range0 key (snd c)) (sy_created sys) D (fst c)"
    and mx: "w_maxReadLevel (h_writer (fst c)) = w_maxReadLevel (h_writer h)"
    and ack: "ack0 key (snd c) = ack0 key (sy_store sys) \<or>
      range0 key (sy_store sys) = db_rangeID (h_db h) \<and> ack0 key (snd c) \<le> w_maxReadLevel (h_writer h)"
    and copy: "b \<Longrightarrow> reason = Rewritten \<Longrightarrow>
      \<exists>x \<in> set (sy_created sys). tkr_TaskID x = k \<and> copied (sy_created sys) (task_of_row x)"
  shows "sys_ok cfg key (add_done b k reason (put_host i c sys))"
proof -
  let ?sys = "add_done b k reason (put_host i c sys)"
  have sub: "done_ids sys \<subseteq> D" and le: "range0 key (sy_store sys) \<le> range0 key (snd c)"
    by (auto simp: D eq)
  have "rewritten_ok ?sys"
    using ok copy by (auto simp: sys_ok_def rewritten_ok_def add_done_def)
  moreover have own: "ack0 key (sy_store sys) \<le> w_maxReadLevel (h_writer h)"
    if "db_rangeID (h_db h) = range0 key (sy_store sys)"
    using ok h that by (auto simp: sys_ok_def owner_ok_def)
  have other: "db_rangeID (h_db hj) \<noteq> db_rangeID (h_db h)"
    if "j \<noteq> i" "map_of (sy_hosts sys) j = Some hj" for j hj
    using ok h that by (auto simp: sys_ok_def hosts_ok_def)
  have "owner_ok key ?sys"
    by (rule owner_ok_put [OF ok le, of i "fst c"])
       (use ack own other mx r eq in \<open>auto simp: put_host_def\<close>)
  ultimately show ?thesis
    using sys_ok_put [OF ok h le r sub s h'] s by (cases b) (simp_all add: sys_ok_def D)
qed

lemmas sys_ok_plain = sys_ok_step [where b = False and k = 0 and reason = Processed,
    unfolded add_done_def, simplified]

lemma sys_ok_host:
  assumes "sys_ok cfg key sys" and "map_of (sy_hosts sys) i = Some h"
  shows "host_ok cfg key (range0 key (sy_store sys)) (sy_created sys) (done_ids sys) h"
    and "store_ok cfg key (sy_store sys) (sy_created sys) (done_ids sys)"
  using assms by (auto simp: sys_ok_def hosts_ok_def)

text \<open>A finished task keeps every part of the invariant of a host.\<close>

lemma host_ok_done: "host_ok cfg key g cr D h \<Longrightarrow> D \<subseteq> D' \<Longrightarrow> host_ok cfg key g cr D' h"
  using host_ok_grow [of cfg key g cr D h g D' "[]"] by simp

lemma acked_done:
  assumes "host_ok cfg key g cr D h" and "k \<in> row_ids cr" and "k \<le> am_ackLevel (h_ack h)"
  shows "k \<in> D"
  using assms am.acked_are_done [of "h_ack h" D "row_ids cr" k] by (auto simp: host_ok_def acks_ok_def)

lemma ackLevel_bound:
  assumes "host_ok cfg key g cr D h"
  shows "0 \<le> am_ackLevel (h_ack h)"
    and "am_ackLevel (h_ack h) \<le> db_rangeID (h_db h) * cf_RangeSize cfg"
  using assms maxReadLevel_bound [of cfg key g cr h] by (auto simp: host_ok_def acks_ok_def ack_inv_def)

section \<open>Starting a host\<close>

lemma fold_update_empty:
  "(\<And>g. gm_list m g = []) \<Longrightarrow> gm_list (fold (\<lambda>g. AList.update g []) gs m) g' = []"
  by (induction gs arbitrary: m) simp_all

lemma held_new [simp]: "held (newTaskReader gs) = {}"
proof -
  have "gm_list (fold (\<lambda>g. AList.update g []) gs [('''', [] :: TaskInfo list)]) g = []" for g
    by (rule fold_update_empty) (simp add: gm_list_def)
  then show ?thesis
    by (simp add: held_def newTaskReader_def)
qed

lemma host_ok_start:
  assumes ok: "store_ok cfg key s cr D" and size: "0 < cf_RangeSize cfg"
    and st: "writer_Start cfg now fs (newTaskListManager key kind gs, s) = ((h, s'), None)"
  shows "host_ok cfg key (range0 key s') cr D h" and "range0 key s < db_rangeID (h_db h)"
    and "lease_only key s s'" and "ack0 key s' \<le> w_maxReadLevel (h_writer h)"
proof -
  let ?h0 = "newTaskListManager key kind gs"
  have key0: "db_key (h_db ?h0) = key" "db_rangeID (h_db ?h0) = 0"
    by (simp_all add: newTaskListManager_def newTaskListDB_def)
  obtain h1 s1 res where ren: "renewLeaseWithRetry now fs (?h0, s) = ((h1, s1), res)"
    by (metis prod.collapse)
  note l = renewLease_cases [OF ren, unfolded key0]
  obtain r a where res: "res = Inr (r, a)"
    using st ren by (cases res) (auto simp: writer_Start_def)
  let ?b = "rangeIDToTaskIDBlock r (cf_RangeSize cfg)"
  have h: "h = h1\<lparr>h_ack := SetAckLevel a (h_ack h1), h_writer := (h_writer h1)\<lparr>w_taskIDBlock := ?b,
      w_maxReadLevel := blk_start ?b - 1\<rparr>\<rparr>" and s': "s' = s1"
    using st ren res by (auto simp: writer_Start_def Let_def)
  have le0: "0 \<le> range0 key s"
    using ok by (simp add: store_ok_def)
  have leased: "leased (h_db ?h0) s (h_db h1) s1 (Inr (r, a))" and rest: "same_rest ?h0 h1"
    using l le0 res by auto
  have r: "db_rangeID (h_db h1) = r" "range0 key s1 = r" "range0 key s < r"
    and a: "db_ackLevel (h_db h1) = a" "a = ack0 key s" and k1: "db_key (h_db h1) = key"
    and lo: "lease_only key s s1"
    using leased key0 by (auto simp: leased_def)
  show "range0 key s < db_rangeID (h_db h)" "lease_only key s s'"
    using r lo by (simp_all add: h s')
  have r1: "range0 key s * cf_RangeSize cfg \<le> (r - 1) * cf_RangeSize cfg"
    using r(3) size by (intro mult_right_mono) auto
  have rS: "0 \<le> (r - 1) * cf_RangeSize cfg" "(r - 1) * cf_RangeSize cfg + 1 \<le> r * cf_RangeSize cfg"
    using r(3) le0 size by (auto simp: algebra_simps)
  have a0: "0 \<le> a" "a \<le> (r - 1) * cf_RangeSize cfg" and aD: "\<And>k. k \<in> row_ids cr \<Longrightarrow> k \<le> a \<Longrightarrow> k \<in> D"
    and kmax: "\<And>k. k \<in> row_ids cr \<Longrightarrow> k \<le> (r - 1) * cf_RangeSize cfg"
    using ok r1 by (fastforce simp: store_ok_def a(2))+
  show "ack0 key s' \<le> w_maxReadLevel (h_writer h)"
    using lo a(2) a0(2) by (simp add: lease_only_def s' h rangeIDToTaskIDBlock_def)
  have ack1: "h_ack h1 = newAckManager"
    using rest by (simp add: same_rest_def newTaskListManager_def)
  have lv: "am_ackLevel newAckManager = am_readLevel newAckManager" "am_readLevel newAckManager = -1"
    by (simp_all add: newAckManager_def)
  note ack = am.jump [OF ack_inv_newAckManager lv(1), of a]
  have tr: "tracks D (row_ids cr) (am_readLevel (SetAckLevel a newAckManager))
      (unacked (SetAckLevel a newAckManager))"
    by (rule am.tracks_jump [OF ack_inv_newAckManager lv(1)]) (use aD a0 lv(2) in auto)
  have "writer_ok cfg key (range0 key s') cr h"
    using r rS k1 kmax rest le0
    by (fastforce simp: writer_ok_def h s' block_inv_def rangeIDToTaskIDBlock_def same_rest_def
        newTaskListManager_def newTaskWriter_def)
  moreover have "acks_ok cfg cr D h"
    using ack tr a0 aD a(1) r rS lv by (auto simp: acks_ok_def h ack1 rangeIDToTaskIDBlock_def)
  moreover have "h_reader h = newTaskReader gs"
    using rest by (simp add: same_rest_def h newTaskListManager_def)
  then have "held_ok cr h" and "rd_pending (h_reader h) = [] \<and> \<not> rd_crashed (h_reader h)"
    by (simp_all add: held_ok_def) (simp add: newTaskReader_def)
  ultimately show "host_ok cfg key (range0 key s') cr D h"
    by (simp add: host_ok_def pending_ok_def)
qed

lemma writer_Start_failed:
  assumes "store_ok cfg key s cr D"
    and st: "writer_Start cfg now fs (newTaskListManager key kind gs, s) = (c, Some e)"
  shows "lease_only key s (snd c)"
proof -
  let ?h0 = "newTaskListManager key kind gs"
  have key0: "db_key (h_db ?h0) = key" "db_rangeID (h_db ?h0) = 0"
    by (simp_all add: newTaskListManager_def newTaskListDB_def)
  obtain h1 s1 res where ren: "renewLeaseWithRetry now fs (?h0, s) = ((h1, s1), res)"
    by (metis prod.collapse)
  have "0 \<le> range0 key s"
    using assms(1) by (simp add: store_ok_def)
  then show ?thesis
    using st ren renewLease_cases(1) [OF ren, unfolded key0]
    by (cases res) (auto simp: writer_Start_def leased_def key0 Let_def)
qed

text \<open>A host that starts takes the range over; every other host falls behind.\<close>

lemma started_ok:
  assumes ok: "sys_ok cfg key sys" and size: "0 < cf_RangeSize cfg"
    and st: "writer_Start cfg (sy_now sys) fs (newTaskListManager key kind gs, sy_store sys) = ((h, s'), None)"
  shows "sys_ok cfg key (put_host i (h, s') sys)"
proof -
  have s: "store_ok cfg key (sy_store sys) (sy_created sys) (done_ids sys)"
    and hosts: "hosts_ok cfg key (range0 key (sy_store sys)) (sy_created sys) (done_ids sys) (sy_hosts sys)"
    using ok by (simp_all add: sys_ok_def)
  note start = host_ok_start [OF s size st]
  have behind: "db_rangeID (h_db hj) < db_rangeID (h_db h)" if "map_of (sy_hosts sys) j = Some hj" for j hj
    using hosts that start(2) by (fastforce simp: hosts_ok_def host_ok_def writer_ok_def)
  have "db_rangeID (h_db h) \<le> range0 key s'"
    using start(1) by (simp add: host_ok_def writer_ok_def)
  then have below: "db_rangeID (h_db hj) < range0 key s'" if "map_of (sy_hosts sys) j = Some hj" for j hj
    using behind [OF that] by simp
  have "hosts_ok cfg key (range0 key s') (sy_created sys @ []) (done_ids sys) (AList.update i h (sy_hosts sys))"
    using start behind by (intro hosts_ok_put [OF hosts]) (auto simp: lease_only_def dest: less_imp_neq)
  moreover have "owner_ok key (put_host i (h, s') sys)"
    by (rule owner_ok_put [OF ok, of s' i h])
       (use start(3,4) below in \<open>auto simp: put_host_def lease_only_def\<close>)
  ultimately show ?thesis
    using ok store_ok_lease [OF s start(3) size]
    by (simp add: sys_ok_def rewritten_ok_def) (simp add: put_host_def)
qed

lemma not_started_ok:
  assumes ok: "sys_ok cfg key sys" and size: "0 < cf_RangeSize cfg" and lo: "lease_only key (sy_store sys) s'"
  shows "sys_ok cfg key (sys\<lparr>sy_store := s'\<rparr>)"
proof -
  have s: "store_ok cfg key (sy_store sys) (sy_created sys) (done_ids sys)"
    and hosts: "hosts_ok cfg key (range0 key (sy_store sys)) (sy_created sys) (done_ids sys) (sy_hosts sys)"
    using ok by (simp_all add: sys_ok_def)
  have "host_ok cfg key (range0 key s') (sy_created sys) (done_ids sys) hj"
    if "map_of (sy_hosts sys) j = Some hj" for j hj
    using host_ok_grow [of cfg key "range0 key (sy_store sys)" "sy_created sys" "done_ids sys" hj
        "range0 key s'" "done_ids sys" "[]"] hosts that lo by (auto simp: hosts_ok_def lease_only_def)
  then have "hosts_ok cfg key (range0 key s') (sy_created sys) (done_ids sys) (sy_hosts sys)"
    using hosts by (auto simp: hosts_ok_def)
  moreover have "ack0 key s' \<le> w_maxReadLevel (h_writer hj)"
    if j: "map_of (sy_hosts sys) j = Some hj" "db_rangeID (h_db hj) = range0 key s'" for j hj
  proof -
    have "db_rangeID (h_db hj) \<le> range0 key (sy_store sys)"
      using hosts j(1) by (auto simp: hosts_ok_def host_ok_def writer_ok_def)
    then have "db_rangeID (h_db hj) = range0 key (sy_store sys)"
      using lo j(2) by (simp add: lease_only_def)
    then show ?thesis
      using ok lo j(1) by (auto simp: sys_ok_def owner_ok_def lease_only_def)
  qed
  then have "owner_ok key (sys\<lparr>sy_store := s'\<rparr>)"
    by (simp add: owner_ok_def)
  ultimately show ?thesis
    using ok store_ok_lease [OF s lo size] by (simp add: sys_ok_def rewritten_ok_def done_ids_def)
qed

lemma exec_start_ok:
  assumes ok: "sys_ok cfg key sys" and size: "0 < cf_RangeSize cfg"
    and ex: "exec_start cfg key i kind gs fs sys = Some sys'"
  shows "sys_ok cfg key sys'"
proof -
  have none: "map_of (sy_hosts sys) i = None"
    using ex by (auto simp: exec_start_def split: if_splits)
  obtain h s' err where st: "writer_Start cfg (sy_now sys) fs
      (newTaskListManager key kind gs, sy_store sys) = ((h, s'), err)"
    by (metis prod.collapse)
  show ?thesis
  proof (cases err)
    case None
    then show ?thesis
      using ex none st started_ok [OF ok size, of fs kind gs h s' i] by (simp add: exec_start_def)
  next
    case (Some e)
    have "store_ok cfg key (sy_store sys) (sy_created sys) (done_ids sys)"
      using ok by (simp add: sys_ok_def)
    from not_started_ok [OF ok size writer_Start_failed [OF this st [unfolded Some]]] show ?thesis
      using ex none st Some by (simp add: exec_start_def)
  qed
qed

section \<open>Appending a task\<close>

lemma inflight_bound:
  assumes "host_ok cfg key g cr D h" and "t \<in> set (rd_inflight (h_reader h))"
  shows "ti_TaskID t < blk_start (w_taskIDBlock (h_writer h))" and "t \<in> task_of_row ` set cr"
proof -
  have t: "t \<in> held (h_reader h)"
    using assms(2) by (simp add: held_def)
  then have "ti_TaskID t \<le> am_readLevel (h_ack h)"
    using assms(1) by (simp add: host_ok_def held_ok_def)
  also have "\<dots> \<le> w_maxReadLevel (h_writer h)"
    using assms(1) by (simp add: host_ok_def acks_ok_def)
  also have "\<dots> < blk_start (w_taskIDBlock (h_writer h))"
    using assms(1) by (simp add: host_ok_def writer_ok_def)
  finally show "ti_TaskID t < blk_start (w_taskIDBlock (h_writer h))" .
  show "t \<in> task_of_row ` set cr"
    using assms(1) t by (auto simp: host_ok_def held_ok_def)
qed

lemma exec_append_ok:
  assumes ok: "host_ok cfg key g cr D h" and size: "0 < cf_RangeSize cfg"
    and ex: "exec_append cfg key t h = Some h'"
  shows "host_ok cfg key g cr D h'" and "db_rangeID (h_db h') = db_rangeID (h_db h)"
proof -
  have "0 \<le> w_maxReadLevel (h_writer h)" "w_maxReadLevel (h_writer h) < blk_start (w_taskIDBlock (h_writer h))"
    using ok by (auto simp: host_ok_def writer_ok_def)
  then have new: "ti_DomainID t = fst key \<and> ti_TaskID t < blk_start (w_taskIDBlock (h_writer h))"
    using ex inflight_bound(1) [OF ok, of t] by (auto simp: exec_append_def split: if_splits)
  have h': "h' = h\<lparr>h_writer := (h_writer h)\<lparr>w_appendCh := w_appendCh (h_writer h) @ [t]\<rparr>\<rparr>"
    using ex by (auto simp: exec_append_def appendTask_def split: if_splits)
  show "host_ok cfg key g cr D h'"
    using ok new by (auto simp: host_ok_def h' writer_ok_def block_inv_def acks_ok_def held_ok_def)
  show "db_rangeID (h_db h') = db_rangeID (h_db h)"
    by (simp add: h')
qed

section \<open>Buffering, dispatching and completing tasks\<close>

lemma host_ok_reader:
  assumes "host_ok cfg key g cr D h" and "D \<subseteq> D'" and "ack_inv m"
    and "am_ackLevel (h_ack h) \<le> am_ackLevel m" and "am_readLevel m \<le> w_maxReadLevel (h_writer h)"
    and "tracks D' (row_ids cr) (am_readLevel m) (unacked m)"
    and "pending_ok cr D' (am_readLevel m) (w_maxReadLevel (h_writer h)) (rd_pending r)"
    and "held r \<subseteq> task_of_row ` set cr" and "\<And>t. t \<in> held r \<Longrightarrow> ti_TaskID t \<le> am_readLevel m"
    and "\<not> rd_crashed r"
  shows "host_ok cfg key g cr D' (h\<lparr>h_ack := m, h_reader := r\<rparr>)"
  using assms by (auto simp: host_ok_def writer_ok_def block_inv_def acks_ok_def held_ok_def)

lemma host_ok_parts:
  assumes "host_ok cfg key g cr D h"
  shows "ack_inv (h_ack h)" and "am_readLevel (h_ack h) \<le> w_maxReadLevel (h_writer h)"
    and "tracks D (row_ids cr) (am_readLevel (h_ack h)) (unacked (h_ack h))"
    and "pending_ok cr D (am_readLevel (h_ack h)) (w_maxReadLevel (h_writer h)) (rd_pending (h_reader h))"
    and "held (h_reader h) \<subseteq> task_of_row ` set cr"
    and "t \<in> held (h_reader h) \<Longrightarrow> ti_TaskID t \<le> am_readLevel (h_ack h)"
    and "\<not> rd_crashed (h_reader h)"
  using assms by (auto simp: host_ok_def acks_ok_def held_ok_def)

lemma pending_done: "pending_ok cr D rl mx ts \<Longrightarrow> D \<subseteq> D' \<Longrightarrow> pending_ok cr D' rl mx ts"
  using pending_grow [of cr D rl mx ts D' "[]"] by simp

lemma pending_head:
  assumes "pending_ok cr D rl mx (t # ts)"
  shows "rl < ti_TaskID t" and "ti_TaskID t \<le> mx" and "t \<in> task_of_row ` set cr"
    and "k \<in> row_ids cr \<Longrightarrow> rl < k \<Longrightarrow> k < ti_TaskID t \<Longrightarrow> k \<in> D"
  using assms by (fastforce simp: pending_ok_def)+

lemma pending_tail:
  assumes "pending_ok cr D rl mx (t # ts)"
  shows "pending_ok cr D (ti_TaskID t) mx ts"
proof -
  have "k \<in> D \<or> k \<in> ti_TaskID ` set ts"
    if t': "t' \<in> set ts" "k \<in> row_ids cr" "ti_TaskID t < k" "k \<le> ti_TaskID t'" for t' k
  proof -
    have "rl < k"
      using pending_head(1) [OF assms] t'(3) by simp
    then have "k \<in> D \<or> k \<in> ti_TaskID ` set (t # ts)"
      using assms t' unfolding pending_ok_def by (meson list.set_intros(2))
    then show ?thesis
      using t'(3) by auto
  qed
  then show ?thesis
    using assms by (auto simp: pending_ok_def)
qed

lemma pending_Nil [simp]: "pending_ok cr D rl mx []"
  by (simp add: pending_ok_def)

lemma held_update:
  "held (r\<lparr>rd_taskBuffers := AList.update g ts (rd_taskBuffers r)\<rparr>) \<subseteq> held r \<union> set ts"
  by (auto simp: held_def split: if_splits)

lemma held_simps [simp]:
  "held (r\<lparr>rd_pending := ts\<rparr>) = held r"
  "held (r\<lparr>rd_notifyC := b\<rparr>) = held r"
  "held (r\<lparr>rd_pumpDone := b\<rparr>) = held r"
  "held (r\<lparr>rd_fatal := b\<rparr>) = held r"
  "held (r\<lparr>rd_stopped := b\<rparr>) = held r"
  "held (signal r) = held r"
  by (simp_all add: held_def signal_def)

lemma row_ids_task: "t \<in> task_of_row ` set cr \<Longrightarrow> ti_TaskID t \<in> row_ids cr"
  by (auto simp: row_ids_def task_of_row_def)

text \<open>An expired task is skipped, any other one is read; the read level moves to it.\<close>

lemma add_expired_ok:
  assumes ok: "host_ok cfg key g cr D h" and p: "rd_pending (h_reader h) = t # ts"
    and r: "held r \<subseteq> held (h_reader h)" "rd_pending r = ts" "\<not> rd_crashed r"
  shows "host_ok cfg key g cr (insert (ti_TaskID t) D)
    (h\<lparr>h_ack := SetReadLevel (ti_TaskID t) (h_ack h), h_reader := r\<rparr>)"
proof -
  note parts = host_ok_parts [OF ok]
  note pend = parts(4) [unfolded p]
  note head = pending_head [OF pend]
  note skip = am.skip [OF parts(1), of "ti_TaskID t"]
  have tr: "tracks (insert (ti_TaskID t) D) (row_ids cr)
      (am_readLevel (SetReadLevel (ti_TaskID t) (h_ack h))) (unacked (SetReadLevel (ti_TaskID t) (h_ack h)))"
    by (rule am.tracks_skip [OF parts(1) tracks_more_done [OF parts(3)]]) (use head in force)+
  have pnd: "pending_ok cr (insert (ti_TaskID t) D) (ti_TaskID t) (w_maxReadLevel (h_writer h)) (rd_pending r)"
    unfolding r(2) by (rule pending_done [OF pending_tail [OF pend]]) auto
  have hl: "ti_TaskID x \<le> ti_TaskID t" if "x \<in> held r" for x
    using r(1) parts(6) [of x] head(1) that by auto
  have sk: "ack_inv (SetReadLevel (ti_TaskID t) (h_ack h))"
    "am_readLevel (SetReadLevel (ti_TaskID t) (h_ack h)) = ti_TaskID t"
    "am_ackLevel (SetReadLevel (ti_TaskID t) (h_ack h)) = am_ackLevel (h_ack h)"
    using skip head(1) by auto
  show ?thesis
    by (rule host_ok_reader [OF ok _ sk(1) _ _ tr])
       (use sk(2,3) head(2) pnd hl r(1,3) parts(5) in auto)
qed

lemma add_read_ok:
  assumes ok: "host_ok cfg key g cr D h" and p: "rd_pending (h_reader h) = t # ts"
    and pos: "0 < ti_TaskID t"
    and r: "held r \<subseteq> insert t (held (h_reader h))" "rd_pending r = ts \<or> rd_pending r = []"
      "\<not> rd_crashed r"
  shows "host_ok cfg key g cr D
    (h\<lparr>h_ack := fst (ReadItem (ti_TaskID t) (h_ack h)), h_reader := r\<rparr>)"
    and "snd (ReadItem (ti_TaskID t) (h_ack h)) = None"
proof -
  note parts = host_ok_parts [OF ok]
  note pend = parts(4) [unfolded p]
  note head = pending_head [OF pend]
  note rd = am.read_next [OF parts(1) head(1) pos]
  then show "snd (ReadItem (ti_TaskID t) (h_ack h)) = None"
    by simp
  have tr: "tracks D (row_ids cr) (am_readLevel (fst (ReadItem (ti_TaskID t) (h_ack h))))
      (unacked (fst (ReadItem (ti_TaskID t) (h_ack h))))"
    by (rule am.tracks_read [OF parts(1,3) head(1) pos head(4)])
  have pnd: "pending_ok cr D (ti_TaskID t) (w_maxReadLevel (h_writer h)) (rd_pending r)"
    using pending_tail [OF pend] r(2) by auto
  have hl: "held r \<subseteq> task_of_row ` set cr" "ti_TaskID x \<le> ti_TaskID t" if "x \<in> held r" for x
    using r(1) parts(5) parts(6) [of x] head(1,3) that by auto
  show "host_ok cfg key g cr D
    (h\<lparr>h_ack := fst (ReadItem (ti_TaskID t) (h_ack h)), h_reader := r\<rparr>)"
    by (rule host_ok_reader [OF ok _ _ _ _ tr]) (use rd head pnd hl r(1,3) parts(5) in auto)
qed

lemma addTasksToBuffer_ok:
  assumes hok: "host_ok cfg key n cr D h" and p: "rd_pending (h_reader h) = t # ts"
    and pos: "0 < ti_TaskID t" and h': "h' = addTasksToBuffer cfg now g h"
  shows "host_ok cfg key n cr (if isTaskExpired now t then insert (ti_TaskID t) D else D) h' \<and>
    h_db h' = h_db h \<and> h_writer h' = h_writer h"
proof (cases "isTaskExpired now t")
  case True
  let ?r = "(h_reader h)\<lparr>rd_pending := ts\<rparr>"
  let ?r' = "if ts = [] then signal ?r else ?r"
  have "h' = h\<lparr>h_ack := SetReadLevel (ti_TaskID t) (h_ack h), h_reader := ?r'\<rparr>"
    using True p by (simp add: h' addTasksToBuffer_def addSingleTaskToBuffer_def)
  moreover have "held ?r' \<subseteq> held (h_reader h)" "rd_pending ?r' = ts" "\<not> rd_crashed ?r'"
    using host_ok_parts(7) [OF hok] by (auto simp: signal_def held_def)
  note add_expired_ok [OF hok p this]
  ultimately show ?thesis
    using True by simp
next
  case False
  let ?r = "(h_reader h)\<lparr>rd_pending := ts\<rparr>"
  let ?buf = "gm_list (rd_taskBuffers ?r) (bufferOf ?r g)"
  let ?r' = "?r\<lparr>rd_taskBuffers := AList.update (bufferOf ?r g) (?buf @ [t]) (rd_taskBuffers ?r)\<rparr>"
  have crash: "\<not> rd_crashed (h_reader h)"
    by (rule host_ok_parts(7) [OF hok])
  have "snd (ReadItem (ti_TaskID t) (h_ack h)) = None"
    by (rule add_read_ok(2) [OF hok p pos, of ?r]) (use crash in auto)
  then obtain m where m: "ReadItem (ti_TaskID t) (h_ack h) = (m, None)"
    by (metis prod.collapse)
  have "set ?buf \<subseteq> held (h_reader h)"
    by (auto simp: held_def)
  then have sub: "held ?r' \<subseteq> insert t (held (h_reader h))"
    using held_update [where r = ?r and g = "bufferOf ?r g" and ts = "?buf @ [t]"] by auto
  obtain r where r: "h' = h\<lparr>h_ack := m, h_reader := r\<rparr>"
    "held r \<subseteq> insert t (held (h_reader h))" "rd_pending r = ts \<or> rd_pending r = []" "\<not> rd_crashed r"
  proof (cases "int (length ?buf) < effectiveBatchSize cfg")
    case True
    show ?thesis
      by (rule that [of "if ts = [] then signal ?r' else ?r'"])
         (use True False p crash sub m in
           \<open>auto simp: h' addTasksToBuffer_def addSingleTaskToBuffer_def Let_def signal_def held_def\<close>)
  next
    case full: False
    show ?thesis
      by (rule that [of "?r\<lparr>rd_pending := [], rd_pumpDone := True\<rparr>"])
         (use full False p crash m in
           \<open>auto simp: h' addTasksToBuffer_def addSingleTaskToBuffer_def Let_def\<close>)
  qed
  then show ?thesis
    using add_read_ok(1) [OF hok p pos r(2-4)] False m by simp
qed

lemma exec_buffer_ok:
  assumes ok: "sys_ok cfg key sys" and h: "map_of (sy_hosts sys) i = Some h"
    and ex: "exec_buffer cfg i g h sys = Some sys'"
  shows "sys_ok cfg key sys'"
proof -
  note hok = sys_ok_host(1) [OF ok h] and sok = sys_ok_host(2) [OF ok h]
  obtain t ts where p: "rd_pending (h_reader h) = t # ts"
    using ex by (auto simp: exec_buffer_def split: list.splits)
  have sys': "sys' = add_done (isTaskExpired (sy_now sys) t) (ti_TaskID t) Expired
      (put_host i (addTasksToBuffer cfg (sy_now sys) g h, sy_store sys) sys)"
    using ex p by (auto simp: exec_buffer_def split: if_splits)
  have "0 < ti_TaskID t"
    using pending_head(3) [OF host_ok_parts(4) [OF hok, unfolded p]] sok row_ids_task
    by (fastforce simp: store_ok_def)
  note h' = addTasksToBuffer_ok [OF hok p this refl, of "sy_now sys" g]
  show ?thesis
    unfolding sys'
    by (rule sys_ok_step [OF ok h _ _ refl]) (use h' store_ok_done [OF sok] in auto)
qed

lemma held_subset_ok:
  assumes ok: "host_ok cfg key g cr D h" and "held r \<subseteq> held (h_reader h)"
    and "rd_pending r = rd_pending (h_reader h)" and "\<not> rd_crashed r"
  shows "host_ok cfg key g cr D (h\<lparr>h_reader := r\<rparr>)"
  using assms by (auto simp: host_ok_def writer_ok_def block_inv_def acks_ok_def held_ok_def)

lemma host_ok_AckItem:
  assumes ok: "host_ok cfg key g cr D h"
  shows "host_ok cfg key g cr (insert k D) (h\<lparr>h_ack := fst (AckItem k (h_ack h))\<rparr>)"
proof -
  note parts = host_ok_parts [OF ok]
  note ack = am.ack_any [OF parts(1), of k]
  have "host_ok cfg key g cr (insert k D) (h\<lparr>h_ack := fst (AckItem k (h_ack h)), h_reader := h_reader h\<rparr>)"
    by (rule host_ok_reader [OF ok _ _ _ _ am.tracks_ack [OF parts(1,3)]])
       (use ack parts(2,5-7) pending_done [OF parts(4), of "insert k D"] in auto)
  then show ?thesis
    by simp
qed

lemma exec_dispatch_ok:
  assumes ok: "sys_ok cfg key sys" and h: "map_of (sy_hosts sys) i = Some h"
    and ex: "exec_dispatch i g res h sys = Some sys'"
  shows "sys_ok cfg key sys'"
proof -
  note hok = sys_ok_host(1) [OF ok h] and sok = sys_ok_host(2) [OF ok h]
  obtain t ts where b: "gm_list (rd_taskBuffers (h_reader h)) g = t # ts"
    using ex by (auto simp: exec_dispatch_def split: list.splits)
  let ?e = "isTaskExpired (sy_now sys) t"
  let ?r = "(h_reader h)\<lparr>rd_taskBuffers := AList.update g ts (rd_taskBuffers (h_reader h))\<rparr>"
  define h' where "h' = fst (dispatchSingleTaskFromBuffer (sy_now sys) res g h)"
  have sys': "sys' = add_done ?e (ti_TaskID t) Expired (put_host i (h', sy_store sys) sys)"
    using ex b by (simp add: exec_dispatch_def h'_def)
  have buf: "set (t # ts) \<subseteq> held (h_reader h)"
    unfolding b [symmetric] by (auto simp: held_def)
  then have sub: "held ?r \<subseteq> held (h_reader h)"
    using held_update [where r = "h_reader h" and g = g and ts = ts] by auto
  then have sub': "held (?r\<lparr>rd_inflight := rd_inflight ?r @ [t]\<rparr>) \<subseteq> held (h_reader h)"
    using buf by (auto simp: held_def split: if_splits)
  have crash: "\<not> rd_crashed (h_reader h)"
    by (rule host_ok_parts(7) [OF hok])
  have "host_ok cfg key (range0 key (sy_store sys)) (sy_created sys)
      (if ?e then insert (ti_TaskID t) (done_ids sys) else done_ids sys) h' \<and>
      h_db h' = h_db h \<and> h_writer h' = h_writer h"
  proof (cases ?e)
    case True
    have "host_ok cfg key (range0 key (sy_store sys)) (sy_created sys) (insert (ti_TaskID t) (done_ids sys))
        (h\<lparr>h_ack := fst (AckItem (ti_TaskID t) (h_ack h))\<rparr>\<lparr>h_reader := ?r\<rparr>)"
      by (rule held_subset_ok [OF host_ok_AckItem [OF hok]]) (use sub crash in auto)
    then show ?thesis
      using True b by (simp add: h'_def dispatchSingleTaskFromBuffer_def Let_def)
  next
    case False
    then show ?thesis
      using b hok held_subset_ok [OF hok sub'] held_subset_ok [OF hok sub] crash
      by (cases res) (simp_all add: h'_def dispatchSingleTaskFromBuffer_def Let_def)
  qed
  then show ?thesis
    unfolding sys'
    by (intro sys_ok_step [OF ok h _ _ refl]) (use store_ok_done [OF sok] in auto)
qed

lemma completeTask_ok:
  assumes h0: "host_ok cfg key (range0 key s) cr D h" and sok: "store_ok cfg key s cr D"
    and c: "completeTask cfg now fs t err appendErr (h, s) = (h', s')"
    and D': "D' = (if \<not> (err \<and> appendErr \<noteq> None) then insert (ti_TaskID t) D else D)"
  shows "host_ok cfg key (range0 key s') cr D' h' \<and> store_ok cfg key s' cr D' \<and>
    range0 key s' = range0 key s \<and> ack0 key s' = ack0 key s \<and> h_db h' = h_db h \<and> h_writer h' = h_writer h"
proof (cases "\<not> (err \<and> appendErr \<noteq> None)")
  case False
  then show ?thesis
    using c h0 sok held_subset_ok [OF h0, of "(h_reader h)\<lparr>rd_fatal := True\<rparr>"] host_ok_parts(7) [OF h0]
    by (auto simp: completeTask_def held_def D')
next
  case True
  let ?k = "ti_TaskID t"
  define h1 where "h1 = (if err then h\<lparr>h_reader := signal (h_reader h)\<rparr> else h)"
  define h2 where "h2 = h1\<lparr>h_ack := fst (AckItem ?k (h_ack h1))\<rparr>"
  have "host_ok cfg key (range0 key s) cr D h1"
    using h0 host_ok_signal [of cfg key _ _ _ h] by (simp add: h1_def)
  then have h2: "host_ok cfg key (range0 key s) cr (insert ?k D) h2"
    unfolding h2_def by (rule host_ok_AckItem)
  have key: "db_key (h_db h2) = key"
    using h2 by (simp add: host_ok_def writer_ok_def)
  have "tryDeleteNextBatch cfg now fs (snd (AckItem ?k (h_ack h1))) False (h2, s) = (h', s')"
    using c True by (auto simp: completeTask_def Let_def h1_def h2_def split: prod.splits)
  moreover have "snd (AckItem ?k (h_ack h1)) = am_ackLevel (h_ack h2)"
    by (simp add: h2_def AckItem_eq Let_def)
  ultimately have del: "tryDeleteNextBatch cfg now fs (am_ackLevel (h_ack h2)) False (h2, s) = (h', s')"
    by simp
  have sok': "store_ok cfg (db_key (h_db h2)) s cr (insert ?k D)"
    unfolding key by (rule store_ok_done [OF sok]) auto
  note d = tryDeleteNextBatch_ok [OF del sok' acked_done [OF h2]]
  have "h_db h2 = h_db h" "h_writer h2 = h_writer h"
    by (simp_all add: h2_def h1_def)
  then show ?thesis
    using d h2 True unfolding key by (auto simp: D')
qed

lemma exec_complete_ok:
  assumes ok: "sys_ok cfg key sys" and h: "map_of (sy_hosts sys) i = Some h"
    and ex: "exec_complete cfg i t err appendErr fs h sys = Some sys'"
  shows "sys_ok cfg key sys'"
proof -
  note hok = sys_ok_host(1) [OF ok h] and sok = sys_ok_host(2) [OF ok h]
  let ?b = "\<not> (err \<and> appendErr \<noteq> None)" and ?k = "ti_TaskID t"
  let ?h0 = "h\<lparr>h_reader := (h_reader h)\<lparr>rd_inflight := remove1 t (rd_inflight (h_reader h))\<rparr>\<rparr>"
  have t: "t \<in> set (rd_inflight (h_reader h))"
    and resp: "err \<and> appendErr = None \<Longrightarrow> (t, None) \<in> set (w_responses (h_writer h))"
    using ex by (auto simp: exec_complete_def split: if_splits)
  obtain h' s' where c: "completeTask cfg (sy_now sys) fs t err appendErr (?h0, sy_store sys) = (h', s')"
    by (metis prod.collapse)
  have sys': "sys' = add_done ?b ?k (if err then Rewritten else Processed) (put_host i (h', s') sys)"
    using ex t c by (auto simp: exec_complete_def split: if_splits)
  have h0: "host_ok cfg key (range0 key (sy_store sys)) (sy_created sys) (done_ids sys) ?h0"
    by (rule held_subset_ok [OF hok])
       (use host_ok_parts(7) [OF hok] in \<open>auto simp: held_def dest: notin_set_remove1\<close>)
  note step = completeTask_ok [OF h0 sok c refl]
  have copy: "\<exists>x \<in> set (sy_created sys). tkr_TaskID x = ?k \<and> copied (sy_created sys) (task_of_row x)"
    if "?b" "(if err then Rewritten else Processed) = Rewritten"
  proof -
    have "copied (sy_created sys) t"
      using that resp hok by (auto simp: host_ok_def writer_ok_def split: if_splits)
    moreover obtain x where "x \<in> set (sy_created sys)" "t = task_of_row x"
      using inflight_bound(2) [OF hok t] by blast
    ultimately show ?thesis
      by (auto simp: task_of_row_def)
  qed
  show ?thesis
    unfolding sys' by (rule sys_ok_step [OF ok h _ _ refl _ _ _ _ copy]) (use step in auto)
qed

end
