(* ===== verification/Tasklist_Safety.thy ===== *)
theory Tasklist_Safety
  imports Tasklist_Steps
begin

text \<open>
  The remaining events keep the invariant as well: persisting the ack level, stopping a host,
  reading a batch and writing a batch. The last section puts them together for a run.
\<close>

section \<open>Persisting levels and stopping\<close>

lemma host_ok_db:
  assumes "host_ok cfg key g cr D h" and "db_key db = key" and "db_rangeID db = db_rangeID (h_db h)"
    and "0 \<le> db_ackLevel db" and "db_ackLevel db \<le> w_maxReadLevel (h_writer h)"
    and "\<And>k. k \<in> row_ids cr \<Longrightarrow> k \<le> db_ackLevel db \<Longrightarrow> k \<in> D"
  shows "host_ok cfg key g cr D (h\<lparr>h_db := db\<rparr>)"
  using assms by (auto simp: host_ok_def writer_ok_def block_inv_def acks_ok_def held_ok_def)

lemma host_ok_flags:
  assumes ok: "host_ok cfg key g cr D h" and "held r = held (h_reader h)"
    and "rd_pending r = rd_pending (h_reader h)" and "rd_crashed r = rd_crashed (h_reader h)"
  shows "host_ok cfg key g cr D (h\<lparr>h_reader := r\<rparr>)"
  by (rule held_subset_ok [OF ok]) (use assms host_ok_parts(7) [OF ok] in auto)

text \<open>The effect of a conditional update of the row, with its reply lost or not.\<close>

definition level_update :: "tl_key \<Rightarrow> int \<Rightarrow> int \<Rightarrow> tl_store \<Rightarrow> tl_store \<Rightarrow> bool" where
  "level_update key r mx s s' \<longleftrightarrow> range0 key s' = range0 key s \<and>
     (ack0 key s' = ack0 key s \<or> range0 key s = r \<and> ack0 key s' \<le> mx)"

lemma faulty_update_ok:
  assumes "faulty f Some (UpdateTaskList now key info) s = (s', err)"
    and "store_ok cfg key s cr D" and "0 \<le> tli_AckLevel info"
    and "tli_AckLevel info \<le> tli_RangeID info * cf_RangeSize cfg" and "tli_AckLevel info \<le> mx"
    and "\<And>k. k \<in> row_ids cr \<Longrightarrow> k \<le> tli_AckLevel info \<Longrightarrow> k \<in> D"
  shows "store_ok cfg key s' cr D" and "level_update key (tli_RangeID info) mx s s'"
proof -
  let ?u = "fst (UpdateTaskList now key info s)"
  have s': "s' = s \<or> s' = ?u"
    using assms(1) by (auto simp: faulty_def split: tl_fault.splits)
  have "store_ok cfg key ?u cr D"
    by (rule store_ok_update [OF assms(2-4)]) (rule assms(6))
  then show "store_ok cfg key s' cr D"
    using s' assms(2) by auto
  have "level_update key (tli_RangeID info) mx s ?u"
    using assms(5) by (auto simp: level_update_def ack0_def range0_def UpdateTaskList_row)
  then show "level_update key (tli_RangeID info) mx s s'"
    using s' by (auto simp: level_update_def)
qed

lemma persistAckLevel_ok:
  assumes ok: "host_ok cfg key g cr D h" and sok: "store_ok cfg key s cr D"
    and p: "persistAckLevel now f (h, s) = ((h', s'), err)"
  shows "host_ok cfg key g cr D h'" and "store_ok cfg key s' cr D"
    and "level_update key (db_rangeID (h_db h)) (w_maxReadLevel (h_writer h)) s s'"
    and "db_rangeID (h_db h') = db_rangeID (h_db h)" and "h_writer h' = h_writer h"
    and "h_ack h' = h_ack h" and "h_reader h' = h_reader h"
proof -
  let ?info = "\<lparr>tli_RangeID = db_rangeID (h_db h), tli_AckLevel = am_ackLevel (h_ack h),
    tli_Kind = db_taskListKind (h_db h), tli_AdaptivePartitionConfig = db_partitionConfig (h_db h)\<rparr>"
  have key: "db_key (h_db h) = key"
    using ok by (simp add: host_ok_def writer_ok_def)
  note al = ackLevel_bound [OF ok]
  have mx: "am_ackLevel (h_ack h) \<le> w_maxReadLevel (h_writer h)"
    using host_ok_parts(1,2) [OF ok] by (simp add: ack_inv_def)
  obtain s1 e where u: "faulty f Some (UpdateTaskList now key ?info) s = (s1, e)"
    by (metis prod.collapse)
  have h': "h' = h\<lparr>h_db := (if e = None then (h_db h)\<lparr>db_ackLevel := am_ackLevel (h_ack h)\<rparr> else h_db h)\<rparr>"
    and s': "s' = s1"
    using p u al(1) key
    by (auto simp: persistAckLevel_def UpdateState_def am_GetAckLevel_def split: option.splits)
  note up = faulty_update_ok [OF u sok, of "w_maxReadLevel (h_writer h)"]
  show "store_ok cfg key s' cr D"
    unfolding s' by (rule up(1)) (use al mx acked_done [OF ok] in auto)
  show "level_update key (db_rangeID (h_db h)) (w_maxReadLevel (h_writer h)) s s'"
    unfolding s' using up(2) al mx acked_done [OF ok] by simp
  show "host_ok cfg key g cr D h'"
  proof (cases "e = None")
    case True
    have "host_ok cfg key g cr D (h\<lparr>h_db := (h_db h)\<lparr>db_ackLevel := am_ackLevel (h_ack h)\<rparr>\<rparr>)"
      by (rule host_ok_db [OF ok]) (use key al(1) mx acked_done [OF ok] in auto)
    then show ?thesis
      unfolding h' using True by simp
  next
    case False
    then show ?thesis
      unfolding h' using ok by auto
  qed
  show "db_rangeID (h_db h') = db_rangeID (h_db h)" "h_writer h' = h_writer h"
    "h_ack h' = h_ack h" "h_reader h' = h_reader h"
    by (simp_all add: h')
qed

lemma sys_ok_level:
  assumes ok: "sys_ok cfg key sys" and h: "map_of (sy_hosts sys) i = Some h"
    and "host_ok cfg key (range0 key (sy_store sys)) (sy_created sys) (done_ids sys) h'"
    and "store_ok cfg key s' (sy_created sys) (done_ids sys)"
    and "level_update key (db_rangeID (h_db h)) (w_maxReadLevel (h_writer h)) (sy_store sys) s'"
    and "db_rangeID (h_db h') = db_rangeID (h_db h)"
    and "w_maxReadLevel (h_writer h') = w_maxReadLevel (h_writer h)"
  shows "sys_ok cfg key (put_host i (h', s') sys)"
  using assms by (intro sys_ok_plain [OF ok h]) (auto simp: level_update_def)

lemma updateAckTimerFired_ok:
  assumes ok: "sys_ok cfg key sys" and h: "map_of (sy_hosts sys) i = Some h"
  shows "sys_ok cfg key (put_host i (updateAckTimerFired (sy_now sys) f1 f2 (h, sy_store sys)) sys)"
proof -
  note hok = sys_ok_host(1) [OF ok h] and sok = sys_ok_host(2) [OF ok h]
  define h1 where "h1 = h\<lparr>h_db := db_GetTaskListSize f1 (am_GetAckLevel (h_ack h)) (h_db h) (sy_store sys)\<rparr>"
  have h1: "host_ok cfg key (range0 key (sy_store sys)) (sy_created sys) (done_ids sys) h1"
    unfolding h1_def
    by (rule host_ok_db [OF hok])
       (use hok in \<open>auto simp: db_GetTaskListSize_def host_ok_def writer_ok_def acks_ok_def
         split: if_splits\<close>)
  have same: "db_rangeID (h_db h1) = db_rangeID (h_db h)" "h_writer h1 = h_writer h"
    by (simp_all add: h1_def db_GetTaskListSize_def)
  obtain h2 s2 e where p: "persistAckLevel (sy_now sys) f2 (h1, sy_store sys) = ((h2, s2), e)"
    by (metis prod.collapse)
  note p_ok = persistAckLevel_ok [OF h1 sok p]
  let ?r = "if e = Some ConditionFailedError
    then (h_reader h2)\<lparr>rd_fatal := True, rd_pumpDone := True\<rparr> else signal (h_reader h2)"
  have eq: "updateAckTimerFired (sy_now sys) f1 f2 (h, sy_store sys) = (h2\<lparr>h_reader := ?r\<rparr>, s2)"
    using p by (simp add: updateAckTimerFired_def Let_def h1_def)
  have "host_ok cfg key (range0 key (sy_store sys)) (sy_created sys) (done_ids sys) (h2\<lparr>h_reader := ?r\<rparr>)"
    by (rule host_ok_flags [OF p_ok(1)]) (auto simp: signal_def held_def)
  then show ?thesis
    unfolding eq by (rule sys_ok_level [OF ok h _ p_ok(2)]) (use p_ok(3-5) same in auto)
qed

lemma exec_config_ok:
  assumes ok: "sys_ok cfg key sys" and h: "map_of (sy_hosts sys) i = Some h"
    and ex: "exec_config i config f h sys = Some sys'"
  shows "sys_ok cfg key sys'"
proof -
  note hok = sys_ok_host(1) [OF ok h] and sok = sys_ok_host(2) [OF ok h]
  let ?info = "\<lparr>tli_RangeID = db_rangeID (h_db h), tli_AckLevel = db_ackLevel (h_db h),
    tli_Kind = db_taskListKind (h_db h), tli_AdaptivePartitionConfig = config\<rparr>"
  have key: "db_key (h_db h) = key" and w: "writer_ok cfg key (range0 key (sy_store sys)) (sy_created sys) h"
    and a: "0 \<le> db_ackLevel (h_db h)" "db_ackLevel (h_db h) \<le> w_maxReadLevel (h_writer h)"
      "\<And>k. k \<in> row_ids (sy_created sys) \<Longrightarrow> k \<le> db_ackLevel (h_db h) \<Longrightarrow> k \<in> done_ids sys"
    using hok by (auto simp: host_ok_def writer_ok_def acks_ok_def)
  obtain s1 e where u: "faulty f Some (UpdateTaskList (sy_now sys) key ?info) (sy_store sys) = (s1, e)"
    by (metis prod.collapse)
  let ?db = "if e = None then (h_db h)\<lparr>db_partitionConfig := config\<rparr> else h_db h"
  have sys': "sys' = put_host i (h\<lparr>h_db := ?db\<rparr>, s1) sys"
    using ex u key
    by (auto simp: exec_config_def UpdateTaskListPartitionConfig_def split: option.splits)
  have up: "store_ok cfg key s1 (sy_created sys) (done_ids sys)"
    "level_update key (db_rangeID (h_db h)) (w_maxReadLevel (h_writer h)) (sy_store sys) s1"
    using faulty_update_ok [OF u sok, of "w_maxReadLevel (h_writer h)"] a maxReadLevel_bound [OF w]
    by auto
  show ?thesis
    unfolding sys'
    by (rule sys_ok_level [OF ok h host_ok_db [OF hok] up])
       (use key a in \<open>auto split: if_splits\<close>)
qed

lemma manager_Stop_ok:
  assumes ok: "sys_ok cfg key sys" and h: "map_of (sy_hosts sys) i = Some h"
  shows "sys_ok cfg key (put_host i (manager_Stop cfg (sy_now sys) f fs (h, sy_store sys)) sys)"
proof -
  note hok = sys_ok_host(1) [OF ok h] and sok = sys_ok_host(2) [OF ok h]
  define h0 where "h0 = h\<lparr>h_writer := (h_writer h)\<lparr>w_stopped := True\<rparr>\<rparr>"
  have h0: "host_ok cfg key (range0 key (sy_store sys)) (sy_created sys) (done_ids sys) h0"
    using hok by (auto simp: h0_def host_ok_def writer_ok_def block_inv_def acks_ok_def held_ok_def)
  have same0: "h_db h0 = h_db h" "w_maxReadLevel (h_writer h0) = w_maxReadLevel (h_writer h)"
    by (simp_all add: h0_def)
  show ?thesis
  proof (cases "rd_stopped (h_reader h)")
    case True
    then have "manager_Stop cfg (sy_now sys) f fs (h, sy_store sys) = (h0, sy_store sys)"
      by (simp add: manager_Stop_def reader_Stop_def h0_def)
    then show ?thesis
      using h0 sok same0 by (simp add: sys_ok_level [OF ok h] level_update_def)
  next
    case False
    define h1 where "h1 = h0\<lparr>h_reader := (h_reader h0)\<lparr>rd_stopped := True\<rparr>\<rparr>"
    have h1: "host_ok cfg key (range0 key (sy_store sys)) (sy_created sys) (done_ids sys) h1"
      unfolding h1_def by (rule host_ok_flags [OF h0]) auto
    obtain h2 s2 e where p: "persistAckLevel (sy_now sys) f (h1, sy_store sys) = ((h2, s2), e)"
      by (metis prod.collapse)
    note p_ok = persistAckLevel_ok [OF h1 sok p]
    obtain h3 s3 where d: "tryDeleteNextBatch cfg (sy_now sys) fs (am_ackLevel (h_ack h2)) True (h2, s2) = (h3, s3)"
      by (metis prod.collapse)
    have eq: "manager_Stop cfg (sy_now sys) f fs (h, sy_store sys) = (h3, s3)"
      using False p d by (simp add: manager_Stop_def reader_Stop_def h1_def h0_def Let_def am_GetAckLevel_def)
    have key: "db_key (h_db h2) = key"
      using p_ok(1) by (simp add: host_ok_def writer_ok_def)
    note d_ok = tryDeleteNextBatch_ok [OF d, unfolded key, OF p_ok(2) acked_done [OF p_ok(1)]]
    obtain gc where h3: "h3 = h2\<lparr>h_gc := gc\<rparr>"
      using d_ok(1) by blast
    have same: "db_rangeID (h_db h2) = db_rangeID (h_db h)"
      "w_maxReadLevel (h_writer h2) = w_maxReadLevel (h_writer h)"
      using p_ok(4,5) same0 by (simp_all add: h1_def)
    show ?thesis
      unfolding eq
      by (rule sys_ok_level [OF ok h])
         (use p_ok(1,3) d_ok(2-4) same same0 in \<open>auto simp: h3 h1_def level_update_def\<close>)
  qed
qed


section \<open>Reading a batch\<close>

lemma retryLoop_read:
  "snd (retryLoop (\<lambda>f. faulty f Inl (\<lambda>s. (s, G s))) prev fs s) = Inr x \<Longrightarrow> G s = Inr x"
proof (induction fs arbitrary: prev)
  case Nil
  then show ?case
    by (cases "G s") (auto simp: faulty_def)
next
  case (Cons f fs)
  then show ?case
    by (cases f; cases "G s") (auto simp: faulty_def split: if_splits)
qed

lemmas retry_read = retryLoop_read [where prev = None, folded throttleRetry_Do_def]

lemma GetTasks_rows:
  assumes "tl_GetTasks key lo hi n s = Inr ts"
  shows "set ts \<subseteq> task_of_row ` {r \<in> set (st_tasks s). tkr_List r = key}"
  using assms
  by (auto simp: tl_GetTasks_def SelectFromTasks_def split: if_splits dest!: in_set_takeD)

text \<open>
  A batch that was read: nothing was skipped between the read level and the level it returns, or
  up to the last task of the batch.
\<close>

definition batch_ok :: "tl_key \<Rightarrow> tl_store \<Rightarrow> int \<Rightarrow> int \<Rightarrow> TaskInfo list \<Rightarrow> int \<Rightarrow> bool" where
  "batch_ok key s rl mx ts rl' \<longleftrightarrow>
     (if ts = [] then rl \<le> rl' \<and> rl' \<le> mx \<and> (\<forall>k \<in> list_ids key s. \<not> (rl < k \<and> k \<le> rl'))
      else sorted_wrt (<) (map ti_TaskID ts) \<and>
        set ts \<subseteq> task_of_row ` {r \<in> set (st_tasks s). tkr_List r = key} \<and>
        (\<forall>t \<in> set ts. rl < ti_TaskID t \<and> ti_TaskID t \<le> mx) \<and>
        (\<forall>t \<in> set ts. \<forall>k \<in> list_ids key s. rl < k \<and> k \<le> ti_TaskID t \<longrightarrow> k \<in> ti_TaskID ` set ts))"

lemma batch_ok_extend:
  assumes "batch_ok key s u mx ts rl'" and "rl \<le> u"
    and none: "\<And>k. k \<in> list_ids key s \<Longrightarrow> rl < k \<Longrightarrow> k \<le> u \<Longrightarrow> False"
  shows "batch_ok key s rl mx ts rl'"
proof -
  have "u < k" if "k \<in> list_ids key s" "rl < k" for k
    using none [OF that] by (meson not_le)
  then show ?thesis
    using assms(1,2) unfolding batch_ok_def by (auto split: if_splits)
qed

lemma getTaskBatch_ok:
  assumes "getTaskBatch i cfg fss key rl mx s = Inr (ts, rl', b)"
    and wf: "store_wf s" and "rl \<le> mx" and size: "0 < cf_ReadRangeSize cfg"
  shows "batch_ok key s rl mx ts rl'"
  using assms(1,3)
proof (induction i arbitrary: fss rl)
  case 0
  then show ?case
    by (auto simp: batch_ok_def)
next
  case (Suc i)
  let ?u = "if rl + cf_ReadRangeSize cfg > mx then mx else rl + cf_ReadRangeSize cfg"
  show ?case
  proof (cases "rl < mx")
    case False
    then show ?thesis
      using Suc.prems by (auto simp: batch_ok_def)
  next
    case True
    then obtain ts1 where read: "getTaskBatchWithRange cfg (case fss of [] \<Rightarrow> [] | fs # _ \<Rightarrow> fs)
        key rl ?u s = Inr ts1"
      and rest: "(if ts1 \<noteq> [] then Inr (ts1, ?u, True) else getTaskBatch i cfg (tl fss) key ?u mx s)
        = Inr (ts, rl', b)"
      using Suc.prems(1) by (auto simp: Let_def split: sum.splits)
    have get: "tl_GetTasks key rl ?u (effectiveBatchSize cfg) s = Inr ts1"
      using retry_read read by (auto simp: getTaskBatchWithRange_def)
    have n: "0 < effectiveBatchSize cfg" and u: "rl \<le> ?u" "?u \<le> mx"
      using True size by (auto simp: effectiveBatchSize_def)
    note g = GetTasks_Inr [OF wf get]
    show ?thesis
    proof (cases "ts1 = []")
      case True
      then have "getTaskBatch i cfg (tl fss) key ?u mx s = Inr (ts, rl', b)"
        using rest by simp
      from batch_ok_extend [OF Suc.IH [OF this u(2)] u(1)] show ?thesis
        using g(3) n True by blast
    next
      case False
      then have "ts = ts1"
        using rest by simp
      then show ?thesis
        using False g(1) g(2) g(4) GetTasks_rows [OF get] u(2)
        unfolding batch_ok_def by (auto intro: order_trans [OF _ u(2)])
    qed
  qed
qed

text \<open>An empty batch moves the read level, and the ack level with it when nothing is outstanding.\<close>

lemma pump_skip_ok:
  assumes hok: "host_ok cfg key g cr D h" and sok: "store_ok cfg key s cr D"
    and batch: "batch_ok key s (am_readLevel (h_ack h)) (w_maxReadLevel (h_writer h)) [] rl'"
    and r': "held r' = held (h_reader h)" "rd_pending r' = []" "\<not> rd_crashed r'"
    and m': "m' = (if am_ackLevel (h_ack h) = am_readLevel (h_ack h)
      then SetAckLevel rl' (SetReadLevel rl' (h_ack h)) else SetReadLevel rl' (h_ack h))"
  shows "host_ok cfg key g cr D (h\<lparr>h_ack := m', h_reader := r'\<rparr>)"
proof -
  note parts = host_ok_parts [OF hok]
  have rl': "am_readLevel (h_ack h) \<le> rl'" "rl' \<le> w_maxReadLevel (h_writer h)"
    and none: "\<And>k. k \<in> row_ids cr \<Longrightarrow> am_readLevel (h_ack h) < k \<Longrightarrow> k \<le> rl' \<Longrightarrow> k \<in> D"
    using batch list_ids_rows(2) [OF sok] by (auto simp: batch_ok_def)
  have m: "ack_inv m'" "am_ackLevel (h_ack h) \<le> am_ackLevel m'" "am_readLevel m' = rl'"
    using am.skip [OF parts(1) rl'(1)] am.skip_jump [OF parts(1) _ rl'(1)] rl'(1) by (auto simp: m')
  have tr: "tracks D (row_ids cr) (am_readLevel m') (unacked m')"
    using am.tracks_skip [OF parts(1,3) rl'(1) none]
      am.tracks_skip_jump [OF parts(1,3) _ rl'(1) none] by (auto simp: m')
  have hl: "ti_TaskID t \<le> rl'" if "t \<in> held r'" for t
    using parts(6) [of t] that rl'(1) r'(1) by auto
  show ?thesis
    by (rule host_ok_reader [OF hok subset_refl m(1,2) _ tr])
       (use m(3) rl'(2) r' hl parts(5) in auto)
qed

lemma batch_pending_ok:
  assumes sok: "store_ok cfg key s cr D" and batch: "batch_ok key s rl mx ts rl'" and ne: "ts \<noteq> []"
  shows "pending_ok cr D rl mx ts"
proof -
  have "k \<in> D \<or> k \<in> ti_TaskID ` set ts"
    if "t \<in> set ts" "k \<in> row_ids cr" "rl < k" "k \<le> ti_TaskID t" for t k
    using that batch ne list_ids_rows(2) [OF sok] by (auto simp: batch_ok_def)
  moreover have rows: "{r \<in> set (st_tasks s). tkr_List r = key} \<subseteq> set cr"
    using sok by (auto simp: store_ok_def)
  have "set ts \<subseteq> task_of_row ` {r \<in> set (st_tasks s). tkr_List r = key}"
    using batch ne by (simp add: batch_ok_def)
  from order_trans [OF this image_mono [OF rows]] have "set ts \<subseteq> task_of_row ` set cr" .
  ultimately show ?thesis
    using batch ne unfolding batch_ok_def pending_ok_def by simp
qed

lemma getTasksPump_ok:
  assumes hok: "host_ok cfg key g cr D h" and sok: "store_ok cfg key s cr D"
    and p: "rd_pending (h_reader h) = []" and size: "0 < cf_ReadRangeSize cfg"
  shows "host_ok cfg key g cr D (getTasksPump cfg fss (h, s))"
    and "h_db (getTasksPump cfg fss (h, s)) = h_db h"
    and "h_writer (getTasksPump cfg fss (h, s)) = h_writer h"
proof -
  let ?r = "(h_reader h)\<lparr>rd_notifyC := False\<rparr>" and ?m = "h_ack h"
  show "h_db (getTasksPump cfg fss (h, s)) = h_db h" "h_writer (getTasksPump cfg fss (h, s)) = h_writer h"
    by (auto simp: getTasksPump_def Let_def split: sum.splits)
  note parts = host_ok_parts [OF hok]
  have key: "db_key (h_db h) = key" and wf: "store_wf s"
    using hok sok by (simp_all add: host_ok_def writer_ok_def store_ok_def)
  show "host_ok cfg key g cr D (getTasksPump cfg fss (h, s))"
  proof (cases "getTaskBatch 10 cfg fss (db_key (h_db h)) (am_readLevel ?m) (w_maxReadLevel (h_writer h)) s")
    case (Inl e)
    have "host_ok cfg key g cr D (h\<lparr>h_reader := signal ?r\<rparr>)"
      by (rule host_ok_flags [OF hok]) (auto simp: signal_def held_def)
    then show ?thesis
      using Inl by (simp add: getTasksPump_def Let_def am_GetReadLevel_def)
  next
    case (Inr x)
    obtain ts rl' b where x: "x = (ts, rl', b)"
      by (cases x)
    note batch = getTaskBatch_ok [OF Inr [unfolded x key] wf parts(2) size]
    show ?thesis
    proof (cases "ts = []")
      case True
      have "am_readLevel ?m \<le> rl'"
        using batch True by (simp add: batch_ok_def)
      then have eq: "getTasksPump cfg fss (h, s) = h\<lparr>h_ack := (if am_ackLevel ?m = am_readLevel ?m
          then SetAckLevel rl' (SetReadLevel rl' ?m) else SetReadLevel rl' ?m),
          h_reader := (if b then ?r else signal ?r)\<rparr>"
        using Inr x True am.skip [OF parts(1)]
        by (simp add: getTasksPump_def Let_def am_GetReadLevel_def am_GetAckLevel_def)
      show ?thesis
        unfolding eq
        by (rule pump_skip_ok [OF hok sok batch [unfolded True]])
           (use p parts(7) in \<open>auto simp: signal_def held_def\<close>)
    next
      case False
      have eq: "getTasksPump cfg fss (h, s) = h\<lparr>h_ack := ?m, h_reader := ?r\<lparr>rd_pending := ts\<rparr>\<rparr>"
        using Inr x False by (simp add: getTasksPump_def Let_def am_GetReadLevel_def)
      show ?thesis
        unfolding eq
        by (rule host_ok_reader [OF hok subset_refl parts(1) order_refl parts(2,3)])
           (use batch_pending_ok [OF sok batch False] parts(5-7) in auto)
    qed
  qed
qed


section \<open>Writing a batch\<close>

text \<open>A change of the writer that writes no task.\<close>

lemma host_ok_writer:
  assumes "host_ok cfg key g cr D h" and "w_taskIDBlock w = w_taskIDBlock (h_writer h)"
    and "w_maxReadLevel (h_writer h) \<le> w_maxReadLevel w"
    and "w_maxReadLevel w < blk_start (w_taskIDBlock w)"
    and "set (w_appendCh w) \<subseteq> set (w_appendCh (h_writer h))"
    and "\<And>t. (t, None) \<in> set (w_responses w) \<Longrightarrow> copied cr t"
  shows "host_ok cfg key g cr D (h\<lparr>h_writer := w\<rparr>)"
proof -
  have "pending_ok cr D (am_readLevel (h_ack h)) (w_maxReadLevel w) (rd_pending (h_reader h))"
    using host_ok_parts(4) [OF assms(1)] assms(3) by (force simp: pending_ok_def)
  then show ?thesis
    using assms by (auto simp: host_ok_def writer_ok_def block_inv_def acks_ok_def held_ok_def)
qed

lemma host_ok_allocated:
  assumes ok: "host_ok cfg key (range0 key s) cr D h" and sok: "store_ok cfg key s cr D"
    and own: "db_rangeID (h_db h) = range0 key s \<Longrightarrow> ack0 key s \<le> w_maxReadLevel (h_writer h)"
    and al: "allocated cfg h s h' s'"
  shows "host_ok cfg key (range0 key s') cr D h'"
    and "db_rangeID (h_db h') = range0 key s' \<Longrightarrow> ack0 key s' \<le> w_maxReadLevel (h_writer h')"
proof -
  have key: "db_key (h_db h) = key" and w: "writer_ok cfg key (range0 key s) cr h"
    and a: "acks_ok cfg cr D h"
    using ok by (auto simp: host_ok_def writer_ok_def)
  have rest: "same_rest h h'" and lo: "lease_only key s s'" and blk: "block_inv cfg h'"
    and start: "blk_start (w_taskIDBlock (h_writer h)) \<le> blk_start (w_taskIDBlock (h_writer h'))"
    and r: "db_rangeID (h_db h) \<le> db_rangeID (h_db h')" "db_rangeID (h_db h') \<le> range0 key s'"
    and db: "db_rangeID (h_db h') = db_rangeID (h_db h) \<and> db_ackLevel (h_db h') = db_ackLevel (h_db h) \<or>
      range0 key s = db_rangeID (h_db h) \<and> db_ackLevel (h_db h') = ack0 key s"
    using al by (auto simp: allocated_def key)
  have "db_rangeID (h_db h') * cf_RangeSize cfg < k"
    if k: "k \<in> row_ids cr" "w_maxReadLevel (h_writer h) < k" for k
  proof -
    have "db_rangeID (h_db h) * cf_RangeSize cfg < k"
      using w k by (auto simp: writer_ok_def)
    moreover have "k \<le> range0 key s * cf_RangeSize cfg"
      using sok k(1) by (auto simp: store_ok_def)
    ultimately show ?thesis
      using db by auto
  qed
  then have "writer_ok cfg key (range0 key s') cr h'"
    using w rest blk r(2) start by (force simp: writer_ok_def same_rest_def)
  moreover have "0 \<le> db_ackLevel (h_db h') \<and> db_ackLevel (h_db h') \<le> w_maxReadLevel (h_writer h') \<and>
      (\<forall>k \<in> row_ids cr. k \<le> db_ackLevel (h_db h') \<longrightarrow> k \<in> D)"
    using db own a sok rest by (auto simp: acks_ok_def store_ok_def same_rest_def)
  then have "acks_ok cfg cr D h'"
    using a rest by (simp add: acks_ok_def same_rest_def)
  ultimately show "host_ok cfg key (range0 key s') cr D h'"
    using ok rest by (simp add: host_ok_def same_rest_def held_ok_def)
  show "ack0 key s' \<le> w_maxReadLevel (h_writer h')" if "db_rangeID (h_db h') = range0 key s'"
  proof -
    have "db_rangeID (h_db h) = range0 key s"
      using db that lo w by (auto simp: lease_only_def writer_ok_def)
    then show ?thesis
      using own lo rest by (simp add: lease_only_def same_rest_def)
  qed
qed

text \<open>New rows above everything the owner of the range has written.\<close>

lemma owner_max:
  assumes "host_ok cfg key g cr D h" and "store_ok cfg key s cr D"
    and "range0 key s = db_rangeID (h_db h)" and "k \<in> row_ids cr"
  shows "k \<le> w_maxReadLevel (h_writer h)"
proof (rule ccontr)
  assume "\<not> k \<le> w_maxReadLevel (h_writer h)"
  then have "db_rangeID (h_db h) * cf_RangeSize cfg < k"
    using assms(1,4) by (auto simp: host_ok_def writer_ok_def)
  then show False
    using assms(2-4) by (force simp: store_ok_def)
qed

lemma host_ok_written:
  assumes ok: "host_ok cfg key g cr D h" and sok: "store_ok cfg key s cr D"
    and own: "range0 key s = db_rangeID (h_db h)"
    and w: "w_taskIDBlock w = w_taskIDBlock (h_writer h)"
      "w_maxReadLevel (h_writer h) \<le> w_maxReadLevel w" "w_maxReadLevel w < blk_start (w_taskIDBlock w)"
      "set (w_appendCh w) \<subseteq> set (w_appendCh (h_writer h))"
      "\<And>t. (t, None) \<in> set (w_responses w) \<Longrightarrow> copied (cr @ N) t"
    and N: "\<And>n. n \<in> row_ids N \<Longrightarrow> w_maxReadLevel (h_writer h) < n \<and> n \<le> w_maxReadLevel w"
  shows "host_ok cfg key g (cr @ N) D (h\<lparr>h_writer := w\<rparr>)"
proof -
  note parts = host_ok_parts [OF ok]
  have a: "acks_ok cfg cr D h"
    using ok by (simp add: host_ok_def)
  have low: "am_readLevel (h_ack h) < n" "db_ackLevel (h_db h) < n" if "n \<in> row_ids N" for n
    using N [OF that] parts(2) a by (auto simp: acks_ok_def)
  have small: "k \<le> w_maxReadLevel w" if "k \<in> row_ids (cr @ N)" for k
    using that N [of k] owner_max [OF ok sok own, of k] w(2) by auto
  have "writer_ok cfg key g (cr @ N) (h\<lparr>h_writer := w\<rparr>)"
    using ok w small by (force simp: host_ok_def writer_ok_def block_inv_def)
  moreover have "tracks D (row_ids cr \<union> row_ids N) (am_readLevel (h_ack h)) (unacked (h_ack h))"
    by (rule tracks_created [OF parts(3)]) (rule low)
  then have "acks_ok cfg (cr @ N) D (h\<lparr>h_writer := w\<rparr>)"
    using a low w(2) by (fastforce simp: acks_ok_def)
  moreover have "pending_ok (cr @ N) D (am_readLevel (h_ack h)) (w_maxReadLevel (h_writer h)) (rd_pending (h_reader h))"
    by (rule pending_grow [OF parts(4)]) (use N in auto)
  then have "pending_ok (cr @ N) D (am_readLevel (h_ack h)) (w_maxReadLevel w) (rd_pending (h_reader h))"
    using w(2) unfolding pending_ok_def by force
  ultimately show ?thesis
    using ok by (auto simp: host_ok_def held_ok_def)
qed

lemma store_ok_written:
  assumes sok: "store_ok cfg key s cr D" and dist: "distinct (map row_id (st_tasks s @ N))"
    and N: "\<And>r. r \<in> set N \<Longrightarrow> tkr_List r = key" "distinct (map tkr_TaskID N)"
      "\<And>n k. n \<in> row_ids N \<Longrightarrow> k \<in> row_ids cr \<Longrightarrow> k < n"
      "\<And>n. n \<in> row_ids N \<Longrightarrow> 1 \<le> n \<and> n \<le> range0 key s * cf_RangeSize cfg \<and> ack0 key s < n"
  shows "store_ok cfg key (s\<lparr>st_tasks := st_tasks s @ N\<rparr>) (cr @ N) D"
proof -
  let ?s = "s\<lparr>st_tasks := st_tasks s @ N\<rparr>"
  have same: "range0 key ?s = range0 key s" "ack0 key ?s = ack0 key s"
    by (simp_all add: range0_def ack0_def list_range_def list_ack_def)
  have inj: "inj_on tkr_TaskID (set (cr @ N))"
  proof (rule inj_onI)
    fix x y assume xy: "x \<in> set (cr @ N)" "y \<in> set (cr @ N)" "tkr_TaskID x = tkr_TaskID y"
    have "inj_on tkr_TaskID (set cr)" "inj_on tkr_TaskID (set N)"
      using sok N(2) by (auto simp: store_ok_def distinct_map)
    moreover have "tkr_TaskID a < tkr_TaskID b" if "a \<in> set cr" "b \<in> set N" for a b
      using N(3) that by (simp add: row_ids_def)
    ultimately show "x = y"
      using xy by (metis UnE inj_onD less_irrefl set_append)
  qed
  have wf: "store_wf ?s"
    using dist by (simp add: store_wf_def)
  have ids: "1 \<le> k \<and> k \<le> range0 key s * cf_RangeSize cfg" "k \<le> ack0 key s \<Longrightarrow> k \<in> D"
    if "k \<in> row_ids (cr @ N)" for k
    using that sok N(4) [of k] by (auto simp: store_ok_def)
  show ?thesis
    using sok N(1) inj wf ids same unfolding store_ok_def by auto
qed

lemma new_rows_append:
  assumes "distinct (map row_id (st_tasks s @ N))" and "st_tasks s' = st_tasks s @ N"
  shows "new_rows s s' = N"
proof -
  have "r \<notin> set (st_tasks s)" if "r \<in> set N" for r
    using assms(1) that by auto
  then show ?thesis
    by (simp add: new_rows_def assms(2))
qed


text \<open>The rows that a batch creates.\<close>

lemma batch_rows:
  assumes ids: "good_ids h0 h n ids" and reqs: "length reqs = n"
    and dom: "\<And>t. t \<in> set reqs \<Longrightarrow> ti_DomainID t = fst key \<and>
      ti_TaskID t < blk_start (w_taskIDBlock (h_writer h0))"
    and rows: "rows = map (create_row now key) (zip ids reqs)"
  shows "map tkr_TaskID rows = ids" and "r \<in> set rows \<Longrightarrow> tkr_List r = key"
    and "t \<in> set reqs \<Longrightarrow> copied rows t"
proof -
  have len: "length ids = length reqs"
    using ids reqs by (simp add: good_ids_def)
  then show "map tkr_TaskID rows = ids"
    by (simp add: rows comp_def)
  show "tkr_List r = key" if "r \<in> set rows"
    using that dom by (auto simp: rows dest!: set_zip_rightD)
  show "copied rows t" if t: "t \<in> set reqs"
  proof -
    obtain i where i: "i < length reqs" "reqs ! i = t"
      using t by (auto simp: in_set_conv_nth)
    then have mem: "(ids ! i, t) \<in> set (zip ids reqs)"
      using len by (auto simp: set_zip)
    have "ids ! i \<in> set ids"
      using i len by simp
    then have "ti_TaskID t < ids ! i"
      using ids dom [OF t] by (auto simp: good_ids_def)
    moreover have "same_work (create_row now key (ids ! i, t)) t"
      by (simp add: same_work_def create_row_def)
    ultimately show ?thesis
      using mem unfolding copied_def rows by (intro bexI [of _ "create_row now key (ids ! i, t)"]) auto
  qed
qed

lemma handleErr_simps:
  "w_taskIDBlock (fst (handleErr kind err w)) = w_taskIDBlock w"
  "w_maxReadLevel (fst (handleErr kind err w)) = w_maxReadLevel w"
  "w_appendCh (fst (handleErr kind err w)) = w_appendCh w"
  "w_responses (fst (handleErr kind err w)) = w_responses w"
  "snd (handleErr kind err w) = None \<longleftrightarrow> err = None"
  by (auto simp: handleErr_def)

lemma sorted_le_last:
  fixes ids :: "int list"
  assumes "sorted_wrt (<) ids" and "k \<in> set ids"
  shows "k \<le> last ids"
proof -
  have ne: "ids \<noteq> []"
    using assms(2) by auto
  then have "sorted_wrt (<) (butlast ids @ [last ids])" "k \<in> set (butlast ids @ [last ids])"
    using assms by simp_all
  then show ?thesis
    by (auto simp: sorted_wrt_append simp del: append_butlast_last_id)
qed

lemma allocated_appendCh:
  assumes "allocated cfg (h\<lparr>h_writer := (h_writer h)\<lparr>w_appendCh := xs\<rparr>\<rparr>) s h1 s1"
  shows "allocated cfg h s (h1\<lparr>h_writer := (h_writer h1)\<lparr>w_appendCh := w_appendCh (h_writer h)\<rparr>\<rparr>) s1"
  using assms by (simp add: allocated_def same_rest_def block_inv_def)

lemma allocated_refl:
  assumes "host_ok cfg key (range0 key s) cr D h"
  shows "allocated cfg h s h s"
  using assms by (auto simp: allocated_def same_rest_def host_ok_def writer_ok_def)

lemma db_CreateTasks_cases:
  assumes "db_CreateTasks now f tasks db s = (s', err)"
  obtains (no) "s' = s" and "err \<noteq> None"
    | (yes) "s' = s\<lparr>st_tasks := st_tasks s @ map (create_row now (db_key db)) tasks\<rparr>"
      and "range0 (db_key db) s = db_rangeID db"
      and "distinct (map row_id (st_tasks s @ map (create_row now (db_key db)) tasks))"
proof (cases rule: CreateTasks_cases [of now "db_key db" "db_rangeID db" tasks s])
  case created
  then show ?thesis
    using assms no yes
    by (cases f; cases "CreateTasks now (db_key db) (db_rangeID db) tasks s")
       (auto simp: db_CreateTasks_def faulty_def range0_def)
next
  case (failed e)
  then show ?thesis
    using assms no
    by (cases f; cases "CreateTasks now (db_key db) (db_rangeID db) tasks s")
       (auto simp: db_CreateTasks_def faulty_def)
qed

text \<open>
  A round of the writer keeps the block of the host, raises its read level within the block, and
  answers without an error only requests whose row is in \<open>N\<close>.
\<close>

definition kept_round :: "tl_host \<Rightarrow> tl_host \<Rightarrow> taskWriter \<Rightarrow> tasks_row list \<Rightarrow> bool" where
  "kept_round h h1 w N \<longleftrightarrow>
     w_taskIDBlock w = w_taskIDBlock (h_writer h1) \<and>
     w_maxReadLevel (h_writer h) \<le> w_maxReadLevel w \<and> w_maxReadLevel w < blk_start (w_taskIDBlock w) \<and>
     set (w_appendCh w) \<subseteq> set (w_appendCh (h_writer h)) \<and>
     (\<forall>t. (t, None) \<in> set (w_responses w) \<longrightarrow> (t, None) \<in> set (w_responses (h_writer h)) \<or> copied N t)"

text \<open>The rows of a batch: in order, and all above what the host had written before.\<close>

definition new_batch :: "tl_key \<Rightarrow> tl_host \<Rightarrow> taskWriter \<Rightarrow> tasks_row list \<Rightarrow> bool" where
  "new_batch key h w N \<longleftrightarrow>
     (\<forall>r \<in> set N. tkr_List r = key) \<and> sorted_wrt (<) (map tkr_TaskID N) \<and>
     (\<forall>n \<in> row_ids N. w_maxReadLevel (h_writer h) < n \<and> n \<le> w_maxReadLevel w \<and>
        blk_start (w_taskIDBlock (h_writer h)) \<le> n)"

lemma kept_round_idle:
  assumes "w_maxReadLevel (h_writer h) < blk_start (w_taskIDBlock (h_writer h))"
    and "set xs \<subseteq> set (w_appendCh (h_writer h))"
  shows "kept_round h h ((h_writer h)\<lparr>w_appendCh := xs\<rparr>) []"
  using assms by (simp add: kept_round_def)

lemma kept_round_failed:
  assumes "set (w_appendCh (h_writer h1)) \<subseteq> set (w_appendCh (h_writer h))"
    and "w_responses (h_writer h1) = w_responses (h_writer h)"
    and "w_maxReadLevel (h_writer h1) = w_maxReadLevel (h_writer h)"
    and "w_maxReadLevel (h_writer h) < blk_start (w_taskIDBlock (h_writer h1))"
  shows "kept_round h h1 (sendWriteResponse reqs (Some e) (h_writer h1)) []"
  using assms by (auto simp: kept_round_def sendWriteResponse_def)

lemma kept_round_created:
  assumes good: "good_ids h0 h1 n ids" and n: "0 < n"
    and w0: "h_writer h0 = (h_writer h)\<lparr>w_appendCh := xs\<rparr>"
    and w1: "w_appendCh (h_writer h1) = xs" "w_responses (h_writer h1) = w_responses (h_writer h)"
    and mx: "w_maxReadLevel (h_writer h) < blk_start (w_taskIDBlock (h_writer h))"
    and sub: "set xs \<subseteq> set (w_appendCh (h_writer h))"
    and ans: "\<And>t. e = None \<Longrightarrow> t \<in> set reqs \<Longrightarrow> copied N t"
  shows "kept_round h h1 (sendWriteResponse reqs (snd (handleErr kind e (h_writer h1)))
    ((fst (handleErr kind e (h_writer h1)))\<lparr>w_maxReadLevel := last ids\<rparr>)) N"
proof -
  have "ids \<noteq> []"
    using good n by (auto simp: good_ids_def)
  then have "blk_start (w_taskIDBlock (h_writer h)) \<le> last ids"
    "last ids < blk_start (w_taskIDBlock (h_writer h1))"
    using good last_in_set w0 by (auto simp: good_ids_def)
  then show ?thesis
    using w1 mx sub ans handleErr_simps(5) [of kind e "h_writer h1"]
    by (auto simp: kept_round_def sendWriteResponse_def handleErr_simps(1-4) dest: sym [of None])
qed

lemma new_batch_created:
  assumes good: "good_ids h0 h1 (length reqs) ids" and start: "w_taskIDBlock (h_writer h0) = w_taskIDBlock (h_writer h)"
    and dom: "\<And>t. t \<in> set reqs \<Longrightarrow> ti_DomainID t = fst key \<and>
      ti_TaskID t < blk_start (w_taskIDBlock (h_writer h))"
    and mx: "w_maxReadLevel (h_writer h) < blk_start (w_taskIDBlock (h_writer h))"
    and last: "w_maxReadLevel w = last ids"
  shows "new_batch key h w (map (create_row now key) (zip ids reqs))"
    and "t \<in> set reqs \<Longrightarrow> copied (map (create_row now key) (zip ids reqs)) t"
proof -
  note rows = batch_rows [OF good refl dom [folded start] refl]
  show "t \<in> set reqs \<Longrightarrow> copied (map (create_row now key) (zip ids reqs)) t"
    by (rule rows(3))
  have ids: "row_ids (map (create_row now key) (zip ids reqs)) = set ids"
    using rows(1) unfolding row_ids_def by (metis list.set_map)
  have srt: "sorted_wrt (<) ids"
    and bnd: "\<And>k. k \<in> set ids \<Longrightarrow> blk_start (w_taskIDBlock (h_writer h)) \<le> k"
    using good start by (auto simp: good_ids_def)
  have "w_maxReadLevel (h_writer h) < n \<and> n \<le> last ids \<and> blk_start (w_taskIDBlock (h_writer h)) \<le> n"
    if "n \<in> set ids" for n
    using bnd [OF that] sorted_le_last [OF srt that] mx by simp
  then show "new_batch key h w (map (create_row now key) (zip ids reqs))"
    using rows(1,2) srt unfolding new_batch_def ids last by auto
qed

text \<open>
  The two outcomes of a round of the writer: nothing was written, and the host may have moved to
  a new range; or the rows of the batch were written by the owner of the range, whatever it was
  told.
\<close>

lemma taskWriterLoop_cases:
  assumes ok: "host_ok cfg key (range0 key s) cr D h" and size: "0 < cf_RangeSize cfg"
    and run: "taskWriterLoop cfg now fss f (h, s) = (h', s')"
  obtains (unwritten) h1 w where "allocated cfg h s h1 s'" and "h' = h1\<lparr>h_writer := w\<rparr>"
      and "kept_round h h1 w []"
    | (written) h1 s1 w N where "allocated cfg h s h1 s1" and "h' = h1\<lparr>h_writer := w\<rparr>"
      and "kept_round h h1 w N" and "new_batch key h w N"
      and "s' = s1\<lparr>st_tasks := st_tasks s1 @ N\<rparr>" and "range0 key s1 = db_rangeID (h_db h1)"
      and "distinct (map row_id (st_tasks s1 @ N))"
proof (cases "w_appendCh (h_writer h) = [] \<or> w_stopped (h_writer h)")
  case True
  have mx: "w_maxReadLevel (h_writer h) < blk_start (w_taskIDBlock (h_writer h))"
    using ok by (simp add: host_ok_def writer_ok_def)
  have "set (tl (w_appendCh (h_writer h))) \<subseteq> set (w_appendCh (h_writer h))"
    by (cases "w_appendCh (h_writer h)") auto
  note kept = kept_round_idle [OF mx this]
  have "h' = h\<lparr>h_writer := (h_writer h)\<lparr>w_appendCh := tl (w_appendCh (h_writer h))\<rparr>\<rparr>" "s' = s"
    using True run by (auto simp: taskWriterLoop_def split: list.splits)
  then show thesis
    using unwritten [of h] allocated_refl [OF ok] kept by simp
next
  case False
  let ?w = "h_writer h" and ?b = "nat (cf_MaxTaskBatchSize cfg)"
  have key: "db_key (h_db h) = key" and bi: "block_inv cfg h" and rle: "db_rangeID (h_db h) \<le> range0 key s"
    and mx: "0 \<le> w_maxReadLevel ?w" "w_maxReadLevel ?w < blk_start (w_taskIDBlock ?w)"
    and ch: "\<And>t. t \<in> set (w_appendCh ?w) \<Longrightarrow> ti_DomainID t = fst key \<and> ti_TaskID t < blk_start (w_taskIDBlock ?w)"
    using ok by (auto simp: host_ok_def writer_ok_def)
  from False obtain q rest where qs: "w_appendCh ?w = q # rest" "\<not> w_stopped ?w"
    by (cases "w_appendCh ?w") auto
  let ?reqs = "q # take ?b rest" and ?h0 = "h\<lparr>h_writer := ?w\<lparr>w_appendCh := drop ?b rest\<rparr>\<rparr>"
  have sub: "set ?reqs \<subseteq> set (w_appendCh ?w)" "set (drop ?b rest) \<subseteq> set (w_appendCh ?w)"
    using set_take_subset [of ?b rest] set_drop_subset [of ?b rest] qs(1) by auto
  obtain h1 s1 res where al: "allocTaskIDs cfg now fss (length ?reqs) (?h0, s) = ((h1, s1), res)"
    by (metis prod.collapse)
  have "block_inv cfg ?h0" "db_rangeID (h_db ?h0) \<le> range0 (db_key (h_db ?h0)) s"
    using bi rle key by (simp_all add: block_inv_def)
  note spec = allocTaskIDs_spec [OF al this size]
  let ?h1 = "h1\<lparr>h_writer := (h_writer h1)\<lparr>w_appendCh := w_appendCh ?w\<rparr>\<rparr>"
  have al': "allocated cfg h s ?h1 s1"
    by (rule allocated_appendCh [where xs = "drop ?b rest"]) (use spec in simp)
  have same: "w_appendCh (h_writer h1) = drop ?b rest" "w_responses (h_writer h1) = w_responses ?w"
    "w_maxReadLevel (h_writer h1) = w_maxReadLevel ?w" "db_key (h_db h1) = key"
    and st: "w_maxReadLevel ?w < blk_start (w_taskIDBlock (h_writer h1))"
    using spec key mx(2) by (auto simp: allocated_def same_rest_def)
  have kept: "kept_round h ?h1 w N" if "kept_round h h1 w N" for w N
    using that by (auto simp: kept_round_def)
  show thesis
  proof (cases res)
    case (Inl e)
    note failed = kept [OF kept_round_failed [OF _ same(2,3) st]]
    show thesis
      by (rule unwritten [OF _ _ failed]) (use run qs al Inl al' sub(2) same(1) in
        \<open>auto simp: taskWriterLoop_def Let_def\<close>)
  next
    case (Inr ids)
    have good: "good_ids ?h0 h1 (length ?reqs) ids"
      using spec Inr by simp
    obtain s2 e where cr: "db_CreateTasks now f (zip ids ?reqs) (h_db h1) s1 = (s2, e)"
      by (metis prod.collapse)
    define w where "w = sendWriteResponse ?reqs (snd (handleErr (db_taskListKind (h_db h1)) e (h_writer h1)))
      ((fst (handleErr (db_taskListKind (h_db h1)) e (h_writer h1)))\<lparr>w_maxReadLevel := last ids\<rparr>)"
    have lst: "w_maxReadLevel w = last ids"
      by (simp add: w_def sendWriteResponse_def)
    have round: "kept_round h ?h1 w N" if "\<And>t. e = None \<Longrightarrow> t \<in> set ?reqs \<Longrightarrow> copied N t" for N
      unfolding w_def
      by (rule kept, rule kept_round_created [OF good _ _ same(1,2) mx(2) sub(2) that]) simp_all
    have "last ids \<in> set ids"
      using good by (intro last_in_set) (auto simp: good_ids_def)
    then have "0 < last ids"
      using good mx by (force simp: good_ids_def)
    then have res': "h' = ?h1\<lparr>h_writer := w\<rparr>" "s' = s2"
      using run qs al Inr cr by (auto simp: taskWriterLoop_def Let_def w_def split: prod.splits)
    from cr show thesis
    proof (cases rule: db_CreateTasks_cases)
      case no
      show thesis
        by (rule unwritten [OF _ res'(1) round]) (use al' res'(2) no in auto)
    next
      case yes
      have dom: "ti_DomainID t = fst key \<and> ti_TaskID t < blk_start (w_taskIDBlock ?w)"
        if "t \<in> set ?reqs" for t
        using ch sub(1) that by auto
      have "w_taskIDBlock (h_writer ?h0) = w_taskIDBlock ?w"
        by simp
      note batch = new_batch_created [OF good this dom mx(2) lst]
      show thesis
        by (rule written [OF al' res'(1) round batch(1)])
           (use yes res'(2) same(4) batch(2) in auto)
    qed
  qed
qed

lemma other_range:
  assumes "sys_ok cfg key sys" and "map_of (sy_hosts sys) i = Some h"
    and "j \<noteq> i" and "map_of (sy_hosts sys) j = Some hj"
  shows "db_rangeID (h_db hj) \<noteq> db_rangeID (h_db h)"
    and "db_rangeID (h_db hj) \<le> range0 key (sy_store sys)"
  using assms by (auto simp: sys_ok_def hosts_ok_def host_ok_def writer_ok_def)

text \<open>
  After a round, the hosts, the owner and the rewritten tasks are as they should be when the host
  that wrote is, and its rows lie above the blocks of the others.
\<close>

lemma sys_ok_round:
  assumes ok: "sys_ok cfg key sys" and h: "map_of (sy_hosts sys) i = Some h"
    and sys': "sys' = (put_host i (h', s') sys)\<lparr>sy_created := sy_created sys @ N\<rparr>"
    and h': "host_ok cfg key (range0 key s') (sy_created sys @ N) (done_ids sys) h'"
    and s': "store_ok cfg key s' (sy_created sys @ N) (done_ids sys)"
    and le: "range0 key (sy_store sys) \<le> range0 key s'" and a: "ack0 key s' = ack0 key (sy_store sys)"
    and r: "db_rangeID (h_db h') = db_rangeID (h_db h) \<or> range0 key (sy_store sys) < db_rangeID (h_db h')"
    and o: "db_rangeID (h_db h') = range0 key s' \<Longrightarrow> ack0 key s' \<le> w_maxReadLevel (h_writer h')"
    and above: "\<And>j hj n. j \<noteq> i \<Longrightarrow> map_of (sy_hosts sys) j = Some hj \<Longrightarrow> n \<in> row_ids N \<Longrightarrow>
      db_rangeID (h_db hj) * cf_RangeSize cfg < n"
  shows "sys_ok cfg key sys'"
proof -
  have hosts: "hosts_ok cfg key (range0 key (sy_store sys)) (sy_created sys) (done_ids sys) (sy_hosts sys)"
    and rw: "rewritten_ok sys"
    using ok by (simp_all add: sys_ok_def)
  have "db_rangeID (h_db hj) \<noteq> db_rangeID (h_db h')" if "j \<noteq> i" "map_of (sy_hosts sys) j = Some hj" for j hj
    using other_range [OF ok h that] r by auto
  then have "hosts_ok cfg key (range0 key s') (sy_created sys @ N) (done_ids sys) (AList.update i h' (sy_hosts sys))"
    using above by (intro hosts_ok_put [OF hosts h' le]) auto
  moreover have "rewritten_ok sys'"
    using rw copied_grow [of "sy_created sys" _ N] by (fastforce simp: rewritten_ok_def sys')
  moreover have "owner_ok key sys'"
    by (rule owner_ok_put [OF ok le, of i h']) (use a o in \<open>auto simp: sys' put_host_def\<close>)
  ultimately show ?thesis
    using s' by (simp add: sys_ok_def sys' done_ids_def put_host_def)
qed

text \<open>The batch of the owner of the range keeps the table and the host well formed.\<close>

lemma owner_batch_ok:
  assumes hok: "host_ok cfg key (range0 key s) cr D h1" and sok: "store_ok cfg key s cr D"
    and own: "range0 key s = db_rangeID (h_db h1)" and ack: "ack0 key s \<le> w_maxReadLevel (h_writer h1)"
    and kept: "kept_round h h1 w N" and batch: "new_batch key h w N"
    and dist: "distinct (map row_id (st_tasks s @ N))"
    and same: "w_maxReadLevel (h_writer h1) = w_maxReadLevel (h_writer h)"
      "w_appendCh (h_writer h1) = w_appendCh (h_writer h)"
    and resp: "\<And>t. (t, None) \<in> set (w_responses (h_writer h)) \<Longrightarrow> copied cr t"
  shows "host_ok cfg key (range0 key s) (cr @ N) D (h1\<lparr>h_writer := w\<rparr>)"
    and "store_ok cfg key (s\<lparr>st_tasks := st_tasks s @ N\<rparr>) (cr @ N) D"
proof -
  have N: "w_maxReadLevel (h_writer h1) < n \<and> n \<le> w_maxReadLevel w" if "n \<in> row_ids N" for n
    using batch that same(1) by (simp add: new_batch_def)
  show "host_ok cfg key (range0 key s) (cr @ N) D (h1\<lparr>h_writer := w\<rparr>)"
  proof (rule host_ok_written [OF hok sok own])
    show "copied (cr @ N) t" if "(t, None) \<in> set (w_responses w)" for t
      using kept that resp [of t] by (auto simp: kept_round_def copied_def)
  qed (use kept N same in \<open>auto simp: kept_round_def\<close>)
  have mx: "0 \<le> w_maxReadLevel (h_writer h1)" "w_maxReadLevel w \<le> range0 key s * cf_RangeSize cfg"
    using hok own kept by (auto simp: host_ok_def writer_ok_def block_inv_def kept_round_def)
  show "store_ok cfg key (s\<lparr>st_tasks := st_tasks s @ N\<rparr>) (cr @ N) D"
  proof (rule store_ok_written [OF sok dist])
    show "distinct (map tkr_TaskID N)" and "\<And>r. r \<in> set N \<Longrightarrow> tkr_List r = key"
      using batch by (auto simp: new_batch_def strict_sorted_iff)
    show "k < n" if "n \<in> row_ids N" "k \<in> row_ids cr" for n k
      using N [OF that(1)] owner_max [OF hok sok own that(2)] by simp
    show "1 \<le> n \<and> n \<le> range0 key s * cf_RangeSize cfg \<and> ack0 key s < n" if "n \<in> row_ids N" for n
      using N [OF that] mx ack by simp
  qed
qed

lemma batch_above_others:
  assumes ok: "sys_ok cfg key sys" and h: "map_of (sy_hosts sys) i = Some h" and size: "0 < cf_RangeSize cfg"
    and own: "range0 key (sy_store sys) = db_rangeID (h_db h)" and batch: "new_batch key h w N"
    and j: "j \<noteq> i" "map_of (sy_hosts sys) j = Some hj" "n \<in> row_ids N"
  shows "db_rangeID (h_db hj) * cf_RangeSize cfg < n"
proof -
  have "db_rangeID (h_db hj) \<le> db_rangeID (h_db h) - 1"
    using other_range [OF ok h j(1,2)] own by simp
  then have "db_rangeID (h_db hj) * cf_RangeSize cfg \<le> (db_rangeID (h_db h) - 1) * cf_RangeSize cfg"
    using size by (intro mult_right_mono) auto
  also have "\<dots> < blk_start (w_taskIDBlock (h_writer h))"
    using sys_ok_host(1) [OF ok h] by (simp add: host_ok_def writer_ok_def block_inv_def)
  finally show ?thesis
    using batch j(3) by (auto simp: new_batch_def)
qed

lemma exec_write_ok:
  assumes ok: "sys_ok cfg key sys" and h: "map_of (sy_hosts sys) i = Some h"
    and size: "0 < cf_RangeSize cfg" and ex: "exec_write cfg i fss f h sys = Some sys'"
  shows "sys_ok cfg key sys'"
proof -
  note hok = sys_ok_host(1) [OF ok h] and sok = sys_ok_host(2) [OF ok h]
  let ?s = "sy_store sys"
  have own: "ack0 key ?s \<le> w_maxReadLevel (h_writer h)" if "db_rangeID (h_db h) = range0 key ?s"
    using ok h that by (auto simp: sys_ok_def owner_ok_def)
  have key: "db_key (h_db h) = key"
    and resp: "\<And>t. (t, None) \<in> set (w_responses (h_writer h)) \<Longrightarrow> copied (sy_created sys) t"
    using hok by (auto simp: host_ok_def writer_ok_def)
  obtain h' s' where run: "taskWriterLoop cfg (sy_now sys) fss f (h, ?s) = (h', s')"
    by (metis prod.collapse)
  have sys': "sys' = (put_host i (h', s') sys)\<lparr>sy_created := sy_created sys @ new_rows ?s s'\<rparr>"
    using ex run by (auto simp: exec_write_def Let_def split: if_splits)
  note alloc = allocated_def same_rest_def key lease_only_def
  from hok size run show ?thesis
  proof (cases rule: taskWriterLoop_cases)
    case (unwritten h1 w)
    note al = host_ok_allocated [OF hok sok own unwritten(1)]
    have lo: "lease_only key ?s s'"
      using unwritten(1) by (simp add: alloc)
    then have N: "new_rows ?s s' = []"
      by (simp add: new_rows_def lease_only_def)
    have "host_ok cfg key (range0 key s') (sy_created sys) (done_ids sys) h'"
      unfolding unwritten(2)
      by (rule host_ok_writer [OF al(1)]) (use unwritten(1,3) resp in \<open>auto simp: alloc kept_round_def copied_def\<close>)
    then show ?thesis
      by (intro sys_ok_round [OF ok h sys' [unfolded N]])
         (use store_ok_lease [OF sok lo size] unwritten al(2) in \<open>auto simp: alloc kept_round_def\<close>)
  next
    case (written h1 s1 w N)
    note al = host_ok_allocated [OF hok sok own written(1)]
    have lo: "lease_only key ?s s1"
      using written(1) by (simp add: alloc)
    have same: "range0 key s' = range0 key s1" "ack0 key s' = ack0 key s1" "st_tasks s1 = st_tasks ?s"
      using lo by (simp_all add: written(5) range0_def ack0_def list_range_def list_ack_def lease_only_def)
    have N: "new_rows ?s s' = N"
      by (rule new_rows_append) (use written(5,7) same(3) in simp_all)
    have own1: "range0 key ?s = db_rangeID (h_db h)"
      using written(1,6) by (auto simp: alloc)
    note batch = owner_batch_ok [OF al(1) store_ok_lease [OF sok lo size] written(6) _ written(3,4,7) _ _ resp]
    show ?thesis
      by (rule sys_ok_round [OF ok h sys' [unfolded N]])
         (use batch same al(2) written batch_above_others [OF ok h size own1 written(4)]
          in \<open>auto simp: alloc kept_round_def\<close>)
  qed
qed

section \<open>Runs\<close>

lemma tl_exec_ok:
  assumes ok: "sys_ok cfg key sys" and cfg: "config_ok cfg" and ex: "tl_exec cfg key e sys = Some sys'"
  shows "sys_ok cfg key sys'"
proof -
  have size: "0 < cf_RangeSize cfg" "0 < cf_ReadRangeSize cfg"
    using cfg by (simp_all add: config_ok_def)
  show ?thesis
  proof (cases e)
    case (EStart i kind gs fs)
    then show ?thesis
      using ex exec_start_ok [OF ok size(1)] by simp
  next
    case (EAppend i t)
    then obtain h h' where h: "map_of (sy_hosts sys) i = Some h" "exec_append cfg key t h = Some h'"
      and sys': "sys' = put_host i (h', sy_store sys) sys"
      using ex by (auto simp: bind_eq_Some_conv)
    have "w_maxReadLevel (h_writer h') = w_maxReadLevel (h_writer h)"
      using h(2) by (auto simp: exec_append_def appendTask_def split: if_splits)
    then show ?thesis
      unfolding sys' using exec_append_ok [OF sys_ok_host(1) [OF ok h(1)] size(1) h(2)] sys_ok_host(2) [OF ok h(1)]
      by (intro sys_ok_level [OF ok h(1)]) (auto simp: level_update_def)
  next
    case (EPump i fss)
    then obtain h where h: "map_of (sy_hosts sys) i = Some h" "rd_pending (h_reader h) = []"
      and sys': "sys' = put_host i (getTasksPump cfg fss (h, sy_store sys), sy_store sys) sys"
      using ex by (auto simp: bind_eq_Some_conv pump_ready_def split: if_splits)
    note hs = sys_ok_host [OF ok h(1)]
    show ?thesis
      unfolding sys' using getTasksPump_ok [OF hs h(2) size(2), of fss] hs(2)
      by (intro sys_ok_level [OF ok h(1)]) (auto simp: level_update_def)
  next
    case (ETick d)
    then have "sys' = sys\<lparr>sy_now := sy_now sys + d\<rparr>"
      using ex by (simp split: if_splits)
    then show ?thesis
      using ok by (simp add: sys_ok_def rewritten_ok_def owner_ok_def done_ids_def)
  qed (use ex ok size exec_write_ok [OF ok] exec_buffer_ok [OF ok] exec_dispatch_ok [OF ok]
      exec_complete_ok [OF ok] updateAckTimerFired_ok [OF ok] exec_config_ok [OF ok] manager_Stop_ok [OF ok]
      in \<open>auto simp: bind_eq_Some_conv split: if_splits\<close>)
qed

lemma tl_run_ok:
  assumes "tl_run cfg key es sys = Some sys'" and "sys_ok cfg key sys" and "config_ok cfg"
  shows "sys_ok cfg key sys'"
  using assms
  by (induction es arbitrary: sys) (auto simp: bind_eq_Some_conv intro: tl_exec_ok)

end
