(* ===== verification/Tasklist_Properties.thy ===== *)
theory Tasklist_Properties
  imports Tasklist_Safety
begin

text \<open>
  What the matching task list guarantees, for every interleaving of its hosts and every fault of
  its database calls, and what its parts do on their own; with sample data for the concrete
  instances.
\<close>

section \<open>Sample data\<close>

definition sample_tl_key :: tl_key where
  "sample_tl_key = (''domain'', ''orders'', 0)"

definition sample_tl_config :: tl_config where
  "sample_tl_config = \<lparr>cf_RangeSize = 3, cf_MaxTaskDeleteBatchSize = 2, cf_MaxTimeBetweenTaskDeletes = 1,
     cf_MaxTaskBatchSize = 10, cf_OutstandingTaskAppendsThreshold = 5, cf_GetTasksBatchSize = 2,
     cf_ReadRangeSize = 100\<rparr>"

definition sample_tl_task :: "string \<Rightarrow> TaskInfo" where
  "sample_tl_task wid = \<lparr>ti_DomainID = ''domain'', ti_WorkflowID = wid, ti_RunID = ''run'', ti_TaskID = 0,
     ti_ScheduleID = 5, ti_ScheduleToStartTimeoutSeconds = 0, ti_Expiry = 0, ti_CreatedTime = 0,
     ti_PartitionConfig = []\<rparr>"

definition empty_tl_store :: tl_store where
  "empty_tl_store = \<lparr>st_task_lists = [], st_tasks = []\<rparr>"

text \<open>
  A first host writes two tasks, the reply of the write is lost; a second host takes the list
  over, and the first host tries to write again. The second host reads the tasks and completes
  the first one, which is then deleted.
\<close>

definition sample_read_task :: TaskInfo where
  "sample_read_task = task_of_row (create_row 1000 sample_tl_key (1, sample_tl_task ''a''))"

definition sample_tl_run :: "tl_event list" where
  "sample_tl_run =
     [EStart 0 0 [] [], EAppend 0 (sample_tl_task ''a''), EAppend 0 (sample_tl_task ''b''),
      EWrite 0 [] (FailAfter TimeoutErr), EPump 0 [], EBuffer 0 '''', EBuffer 0 '''',
      EStart 1 0 [] [], EAppend 0 (sample_tl_task ''c''), EWrite 0 [] NoFault,
      EPump 1 [], EBuffer 1 '''', EBuffer 1 '''', EDispatch 1 '''' Dispatched,
      EComplete 1 sample_read_task False None []]"

definition sample_tl_sys :: tl_sys where
  "sample_tl_sys = (case tl_run sample_tl_config sample_tl_key sample_tl_run (tl_init 1000 empty_tl_store) of
     Some sys \<Rightarrow> sys | None \<Rightarrow> tl_init 0 empty_tl_store)"

lemma sample_tl_reached:
  "tl_run sample_tl_config sample_tl_key sample_tl_run (tl_init 1000 empty_tl_store) = Some sample_tl_sys"
  "map tkr_TaskID (sy_created sample_tl_sys) = [1, 2]"
  "map tkr_TaskID (st_tasks (sy_store sample_tl_sys)) = [2]"
  "sy_done sample_tl_sys = [(1, Processed)]"
  by code_simp+

lemma sample_tl_ok: "config_ok sample_tl_config" "fresh_list sample_tl_key empty_tl_store"
  by (simp_all add: config_ok_def sample_tl_config_def fresh_list_def empty_tl_store_def store_wf_def)

definition sample_row :: "int \<Rightarrow> string \<Rightarrow> tasks_row" where
  "sample_row k wid = create_row 1000 sample_tl_key (k, sample_tl_task wid)"

lemma sample_rows: "sample_row 1 ''a'' \<in> set (sy_created sample_tl_sys)"
  by code_simp

definition sample_host :: tl_host where
  "sample_host = the (map_of (sy_hosts sample_tl_sys) 1)"

lemma sample_host_1:
  "map_of (sy_hosts sample_tl_sys) 1 = Some sample_host"
  "am_GetAckLevel (h_ack sample_host) = 1" "am_GetReadLevel (h_ack sample_host) = 2"
  by code_simp+

section \<open>The invariant of a run\<close>

lemma run_ok:
  assumes "tl_run cfg key es (tl_init now s) = Some sys" and "config_ok cfg" and "fresh_list key s"
  shows "sys_ok cfg key sys"
  by (rule tl_run_ok [OF assms(1) sys_ok_init [OF assms(3)] assms(2)])


text \<open>C19: Every event keeps the state of the task list well formed: the table has distinct
  primary keys and holds every unfinished task, each host's block, levels, buffers and outstanding
  items fit together, and no two hosts have the same range.\<close>

theorem tl_exec_well_formed:
  assumes "sys_ok cfg key sys" and "config_ok cfg" and "tl_exec cfg key e sys = Some sys'"
  shows "sys_ok cfg key sys'"
  by (rule tl_exec_ok [OF assms])

theorem tl_exec_well_formed_witness:
  "\<exists>sys'. tl_exec sample_tl_config sample_tl_key (EStart 0 0 [] []) (tl_init 1000 empty_tl_store) = Some sys' \<and>
     sys_ok sample_tl_config sample_tl_key sys'"
proof -
  have "tl_exec sample_tl_config sample_tl_key (EStart 0 0 [] []) (tl_init 1000 empty_tl_store) \<noteq> None"
    by code_simp
  then obtain sys' where
    sys': "tl_exec sample_tl_config sample_tl_key (EStart 0 0 [] []) (tl_init 1000 empty_tl_store) = Some sys'"
    by blast
  show ?thesis
    using tl_exec_well_formed [OF sys_ok_init [OF sample_tl_ok(2)] sample_tl_ok(1) sys'] sys' by blast
qed

section \<open>Safety of the task list\<close>

text \<open>C11: the task list loses no task. Whatever the hosts do and however their database calls fail,
  a task that was ever persisted is still in the table, or was processed, or had expired, or was
  written back under a larger ID with the same work.\<close>

theorem tasklist_loses_nothing:
  assumes "tl_run cfg key es (tl_init now s) = Some sys" and "config_ok cfg" and "fresh_list key s"
    and "r \<in> set (sy_created sys)"
  shows "r \<in> set (st_tasks (sy_store sys)) \<or>
    (tkr_TaskID r, Processed) \<in> set (sy_done sys) \<or> (tkr_TaskID r, Expired) \<in> set (sy_done sys) \<or>
    (\<exists>r' \<in> set (sy_created sys). tkr_TaskID r < tkr_TaskID r' \<and>
       tkr_WorkflowID r' = tkr_WorkflowID r \<and> tkr_RunID r' = tkr_RunID r \<and>
       tkr_ScheduleID r' = tkr_ScheduleID r \<and> tkr_PartitionConfig r' = tkr_PartitionConfig r)"
proof (cases "tkr_TaskID r \<in> done_ids sys")
  case False
  then show ?thesis
    using run_ok [OF assms(1-3)] assms(4) by (auto simp: sys_ok_def store_ok_def)
next
  case True
  then obtain reason where reason: "(tkr_TaskID r, reason) \<in> set (sy_done sys)"
    by (auto simp: done_ids_def)
  show ?thesis
  proof (cases reason)
    case Rewritten
    then obtain x where x: "x \<in> set (sy_created sys)" "tkr_TaskID x = tkr_TaskID r"
      and cp: "copied (sy_created sys) (task_of_row x)"
      using run_ok [OF assms(1-3)] reason by (auto simp: sys_ok_def rewritten_ok_def)
    have "inj_on tkr_TaskID (set (sy_created sys))"
      using run_ok [OF assms(1-3)] by (simp add: sys_ok_def store_ok_def)
    then have "x = r"
      using x assms(4) by (auto dest: inj_onD)
    then show ?thesis
      using cp by (auto simp: copied_def same_work_def task_of_row_def)
  qed (use reason in auto)
qed

theorem tasklist_loses_nothing_witness:
  "sample_row 1 ''a'' \<notin> set (st_tasks (sy_store sample_tl_sys)) \<and>
   ((1, Processed) \<in> set (sy_done sample_tl_sys) \<or> (1, Expired) \<in> set (sy_done sample_tl_sys) \<or>
    (\<exists>r' \<in> set (sy_created sample_tl_sys). 1 < tkr_TaskID r' \<and> tkr_WorkflowID r' = ''a''))"
proof -
  have gone: "sample_row 1 ''a'' \<notin> set (st_tasks (sy_store sample_tl_sys))"
    by code_simp
  have row: "tkr_TaskID (sample_row 1 ''a'') = 1" "tkr_WorkflowID (sample_row 1 ''a'') = ''a''"
    by (simp_all add: sample_row_def create_row_def sample_tl_task_def)
  show ?thesis
    using tasklist_loses_nothing [OF sample_tl_reached(1) sample_tl_ok sample_rows] gone row by auto
qed

text \<open>C12: the ack level is safe. For every host that ever served the list, also one that has lost its
  lease, each task up to its ack level is finished, and so is each task up to the persisted ack
  level, from which a new host starts.\<close>

theorem ack_level_covers_finished:
  assumes "tl_run cfg key es (tl_init now s) = Some sys" and "config_ok cfg" and "fresh_list key s"
    and "r \<in> set (sy_created sys)"
    and "map_of (sy_hosts sys) i = Some h \<and> tkr_TaskID r \<le> am_GetAckLevel (h_ack h) \<or>
      map_of (st_task_lists (sy_store sys)) key = Some row \<and> tkr_TaskID r \<le> tlr_AckLevel row"
  shows "tkr_TaskID r \<in> fst ` set (sy_done sys)"
proof -
  note ok = run_ok [OF assms(1-3)]
  have k: "tkr_TaskID r \<in> row_ids (sy_created sys)"
    using assms(4) by (simp add: row_ids_def)
  from assms(5) show ?thesis
  proof
    assume "map_of (sy_hosts sys) i = Some h \<and> tkr_TaskID r \<le> am_GetAckLevel (h_ack h)"
    then show ?thesis
      using acked_done [OF sys_ok_host(1) [OF ok, of i h] k] by (simp add: am_GetAckLevel_def done_ids_def)
  next
    assume "map_of (st_task_lists (sy_store sys)) key = Some row \<and> tkr_TaskID r \<le> tlr_AckLevel row"
    then show ?thesis
      using ok k by (simp add: sys_ok_def store_ok_def ack0_def list_ack_def done_ids_def)
  qed
qed

theorem ack_level_covers_finished_witness:
  "tkr_TaskID (sample_row 1 ''a'') \<in> fst ` set (sy_done sample_tl_sys)"
  by (rule ack_level_covers_finished [OF sample_tl_reached(1) sample_tl_ok sample_rows,
        of 1 sample_host \<open>lease_row 0 0\<close>])
     (rule disjI1, rule conjI [OF sample_host_1(1)], simp add: sample_host_1(2) sample_row_def)

text \<open>C13: the reader skips nothing. Every task up to the read level of a host that is not finished is
  an outstanding item of its ack manager, above its ack level; adding an item never hits the fatal
  error of the reader; and the backlog count is the number of outstanding items.\<close>

theorem reader_skips_nothing:
  assumes "tl_run cfg key es (tl_init now s) = Some sys" and "config_ok cfg" and "fresh_list key s"
    and "map_of (sy_hosts sys) i = Some h"
  shows "\<not> rd_crashed (h_reader h) \<and>
    GetBacklogCount (h_ack h) = int (card (unacked (h_ack h))) \<and>
    (\<forall>r \<in> set (sy_created sys). tkr_TaskID r \<le> am_GetReadLevel (h_ack h) \<longrightarrow>
      tkr_TaskID r \<notin> fst ` set (sy_done sys) \<longrightarrow>
      map_of (am_outstandingMessages (h_ack h)) (tkr_TaskID r) = Some False \<and>
      am_GetAckLevel (h_ack h) < tkr_TaskID r)"
proof -
  note hok = sys_ok_host(1) [OF run_ok [OF assms(1-3)] assms(4)]
  note parts = host_ok_parts [OF hok]
  have "map_of (am_outstandingMessages (h_ack h)) (tkr_TaskID r) = Some False \<and>
      am_GetAckLevel (h_ack h) < tkr_TaskID r"
    if r: "r \<in> set (sy_created sys)" "tkr_TaskID r \<le> am_GetReadLevel (h_ack h)"
      "tkr_TaskID r \<notin> fst ` set (sy_done sys)" for r
  proof -
    have "tkr_TaskID r \<in> unacked (h_ack h)"
      using parts(3) r by (auto simp: tracks_def row_ids_def am_GetReadLevel_def done_ids_def)
    then show ?thesis
      using am.pending_bounds [OF parts(1)] by (simp add: unacked_def am_GetAckLevel_def)
  qed
  then show ?thesis
    using parts(1,7) by (simp add: ack_inv_def GetBacklogCount_def)
qed

theorem reader_skips_nothing_witness:
  "map_of (am_outstandingMessages (h_ack sample_host)) 2 = Some False \<and> am_GetAckLevel (h_ack sample_host) < 2"
proof -
  have row: "sample_row 2 ''b'' \<in> set (sy_created sample_tl_sys)"
    by code_simp
  have id2: "tkr_TaskID (sample_row 2 ''b'') = 2"
    by (simp add: sample_row_def)
  show ?thesis
    using reader_skips_nothing [OF sample_tl_reached(1) sample_tl_ok sample_host_1(1)] row id2
      sample_host_1(3) sample_tl_reached(4) by fastforce
qed

text \<open>C14: task IDs are unique and belong to granted ranges. Two rows with the same ID are the same
  row, although hosts that lost their lease go on allocating IDs; every ID lies in a range that was
  granted; and no two hosts hold the same range.\<close>

theorem task_ids_unique:
  assumes "tl_run cfg key es (tl_init now s) = Some sys" and "config_ok cfg" and "fresh_list key s"
    and "r \<in> set (sy_created sys)" and "r' \<in> set (sy_created sys)"
  shows "(tkr_TaskID r = tkr_TaskID r' \<longrightarrow> r = r') \<and>
    (\<exists>row. map_of (st_task_lists (sy_store sys)) key = Some row \<and>
      1 \<le> tkr_TaskID r \<and> tkr_TaskID r \<le> tlr_RangeID row * cf_RangeSize cfg) \<and>
    (\<forall>i j h h'. map_of (sy_hosts sys) i = Some h \<and> map_of (sy_hosts sys) j = Some h' \<and> i \<noteq> j \<longrightarrow>
      db_rangeID (h_db h) \<noteq> db_rangeID (h_db h'))"
proof -
  note ok = run_ok [OF assms(1-3)]
  have "1 \<le> tkr_TaskID r \<and> tkr_TaskID r \<le> range0 key (sy_store sys) * cf_RangeSize cfg"
    using ok assms(4) by (auto simp: sys_ok_def store_ok_def row_ids_def)
  then have "\<exists>row. map_of (st_task_lists (sy_store sys)) key = Some row \<and>
      1 \<le> tkr_TaskID r \<and> tkr_TaskID r \<le> tlr_RangeID row * cf_RangeSize cfg"
    by (auto simp: range0_def list_range_def split: option.splits)
  moreover have "tkr_TaskID r = tkr_TaskID r' \<longrightarrow> r = r'"
    using ok assms(4,5) by (auto simp: sys_ok_def store_ok_def dest: inj_onD)
  moreover have "\<forall>i j h h'. map_of (sy_hosts sys) i = Some h \<and> map_of (sy_hosts sys) j = Some h' \<and> i \<noteq> j \<longrightarrow>
      db_rangeID (h_db h) \<noteq> db_rangeID (h_db h')"
    using ok unfolding sys_ok_def hosts_ok_def by blast
  ultimately show ?thesis
    by blast
qed

theorem task_ids_unique_witness:
  "\<exists>row. map_of (st_task_lists (sy_store sample_tl_sys)) sample_tl_key = Some row \<and>
     1 \<le> tkr_TaskID (sample_row 1 ''a'') \<and> tkr_TaskID (sample_row 1 ''a'') \<le> tlr_RangeID row * 3"
  using task_ids_unique [OF sample_tl_reached(1) sample_tl_ok sample_rows sample_rows]
  by (simp add: sample_tl_config_def)


section \<open>The parts of a host\<close>

text \<open>C16: a host that lost its lease is fenced. When the range ID in the table is not the host's, neither
  its writes of tasks nor its updates of the ack level nor a renewal of its lease change anything,
  and each returns an error; the lost lease is reported to the manager.\<close>

theorem stale_host_is_fenced:
  assumes "map_of (st_task_lists s) (db_key db) = Some row" and "tlr_RangeID row \<noteq> db_rangeID db"
    and "0 < db_rangeID db"
  shows "fst (db_CreateTasks now f tasks db s) = s \<and> snd (db_CreateTasks now f tasks db s) \<noteq> None \<and>
    UpdateState now NoFault ackLevel (db, s) = ((db, s), Some ConditionFailedError) \<and>
    RenewLease now NoFault (db, s) = ((db, s), Inl ConditionFailedError) \<and>
    w_fatal (fst (handleErr kind (Some ConditionFailedError) w))"
proof -
  have lock: "lockTaskList s' (db_key db) (db_rangeID db) = Some ConditionFailedError"
    if "st_task_lists s' = st_task_lists s" for s'
    using assms(1,2) that by (simp add: lockTaskList_def)
  have "fst (CreateTasks now (db_key db) (db_rangeID db) tasks s) = s \<and>
      snd (CreateTasks now (db_key db) (db_rangeID db) tasks s) \<noteq> None"
    using lock by (auto simp: CreateTasks_def InsertIntoTasks_def)
  then have "fst (db_CreateTasks now f tasks db s) = s \<and> snd (db_CreateTasks now f tasks db s) \<noteq> None"
    by (cases f) (simp_all add: db_CreateTasks_def faulty_def)
  moreover have "UpdateState now NoFault ackLevel (db, s) = ((db, s), Some ConditionFailedError)"
    using lock by (simp add: UpdateState_def faulty_def UpdateTaskList_def)
  moreover have "RenewLease now NoFault (db, s) = ((db, s), Inl ConditionFailedError)"
    using assms by (simp add: RenewLease_def faulty_def LeaseTaskList_def Let_def)
  ultimately show ?thesis
    by (simp add: handleErr_def)
qed

definition sample_stale_store :: tl_store where
  "sample_stale_store = \<lparr>st_task_lists = [(sample_tl_key, (lease_row 0 0)\<lparr>tlr_RangeID := 2\<rparr>)], st_tasks = []\<rparr>"

definition sample_stale_db :: taskListDB where
  "sample_stale_db = (newTaskListDB sample_tl_key 0)\<lparr>db_rangeID := 1\<rparr>"

theorem stale_host_is_fenced_witness:
  "fst (db_CreateTasks 7 NoFault [(1, sample_tl_task ''a'')] sample_stale_db sample_stale_store) = sample_stale_store \<and>
   UpdateState 7 NoFault 1 (sample_stale_db, sample_stale_store) =
     ((sample_stale_db, sample_stale_store), Some ConditionFailedError)"
proof -
  have "map_of (st_task_lists sample_stale_store) (db_key sample_stale_db) =
      Some ((lease_row 0 0)\<lparr>tlr_RangeID := 2\<rparr>)" "db_rangeID sample_stale_db = 1"
    by (simp_all add: sample_stale_store_def sample_stale_db_def newTaskListDB_def)
  then show ?thesis
    using stale_host_is_fenced [of sample_stale_store sample_stale_db "(lease_row 0 0)\<lparr>tlr_RangeID := 2\<rparr>"
        7 NoFault "[(1, sample_tl_task ''a'')]" 1 0 newTaskWriter] by simp
qed

lemma deleteLoop_exact:
  assumes "0 < n"
  shows "snd (deleteLoop key m n [] s) \<and>
    set (st_tasks (fst (deleteLoop key m n [] s))) =
      {r \<in> set (st_tasks s). \<not> (tkr_List r = key \<and> tkr_TaskID r \<le> m)}"
  using assms
proof (induction "length (st_tasks s)" arbitrary: s rule: less_induct)
  case less
  obtain s1 c where step: "CompleteTasksLessThan key m n s = (s1, Inr c)"
    using assms by (auto simp: CompleteTasksLessThan_def DeleteFromTasks_def)
  have del: "deleted_only key m s s1"
    using deleted_only_Complete [of key m s n] step by simp
  show ?case
  proof (cases "c < n")
    case True
    have "list_ids key s1 = list_ids key s - {k. k \<le> m}"
      by (rule CompleteTasksLessThan_all [OF step True])
    then have "\<not> (tkr_List r = key \<and> tkr_TaskID r \<le> m)" if "r \<in> set (st_tasks s1)" for r
      using that by (auto simp: list_ids_def)
    then have "set (st_tasks s1) = {r \<in> set (st_tasks s). \<not> (tkr_List r = key \<and> tkr_TaskID r \<le> m)}"
      using del unfolding deleted_only_def by blast
    then show ?thesis
      using step True by (simp add: deleteLoop.simps [of key m n "[]" s] faulty_def)
  next
    case False
    have "snd (deleteLoop key m n [] s1) \<and> set (st_tasks (fst (deleteLoop key m n [] s1))) =
        {r \<in> set (st_tasks s1). \<not> (tkr_List r = key \<and> tkr_TaskID r \<le> m)}"
      by (rule less.hyps [OF CompleteTasksLessThan_shrinks [OF step False] assms])
    moreover have "{r \<in> set (st_tasks s1). \<not> (tkr_List r = key \<and> tkr_TaskID r \<le> m)} =
        {r \<in> set (st_tasks s). \<not> (tkr_List r = key \<and> tkr_TaskID r \<le> m)}"
      using del unfolding deleted_only_def by blast
    ultimately show ?thesis
      using step False by (simp add: deleteLoop.simps [of key m n "[]" s] faulty_def)
  qed
qed

text \<open>C17: the garbage collector ends and deletes exactly the acknowledged tasks. Without a fault its loop
  removes every task of the list up to the ack level, in batches, and no other row; it reports that
  it reached the level.\<close>

theorem gc_deletes_exactly:
  assumes "checkPrecond cfg now ackLevel (cf_MaxTaskDeleteBatchSize cfg) b (h_gc h)"
    and "0 < cf_MaxTaskDeleteBatchSize cfg"
    and "tryDeleteNextBatch cfg now [] ackLevel b (h, s) = (h', s')"
  shows "gc_ackLevel (h_gc h') = ackLevel \<and> gc_lastDeleteTime (h_gc h') = now \<and>
    set (st_tasks s') = {r \<in> set (st_tasks s). \<not> (tkr_List r = db_key (h_db h) \<and> tkr_TaskID r \<le> ackLevel)}"
proof -
  note loop = deleteLoop_exact [OF assms(2), of "db_key (h_db h)" ackLevel s]
  show ?thesis
    using assms(1,3) loop by (auto simp: tryDeleteNextBatch_def Let_def split: prod.splits)
qed

definition sample_gc_store :: tl_store where
  "sample_gc_store = empty_tl_store\<lparr>st_tasks := map (\<lambda>k. sample_row k ''a'') [4, 1, 3, 2, 5]\<rparr>"

theorem gc_deletes_exactly_witness:
  "\<exists>h' s'. tryDeleteNextBatch sample_tl_config 7 [] 3 False
       (newTaskListManager sample_tl_key 0 [], sample_gc_store) = (h', s') \<and>
     gc_ackLevel (h_gc h') = 3 \<and>
     set (st_tasks s') = {r \<in> set (st_tasks sample_gc_store). \<not> (tkr_List r = sample_tl_key \<and> tkr_TaskID r \<le> 3)}"
proof -
  obtain h' s' where run: "tryDeleteNextBatch sample_tl_config 7 [] 3 False
      (newTaskListManager sample_tl_key 0 [], sample_gc_store) = (h', s')"
    by (metis prod.collapse)
  have pre: "checkPrecond sample_tl_config 7 3 (cf_MaxTaskDeleteBatchSize sample_tl_config) False
      (h_gc (newTaskListManager sample_tl_key 0 []))" "0 < cf_MaxTaskDeleteBatchSize sample_tl_config"
    by (simp_all add: checkPrecond_def newTaskListManager_def newTaskGC_def sample_tl_config_def)
  have "db_key (h_db (newTaskListManager sample_tl_key 0 [])) = sample_tl_key"
    by (simp add: newTaskListManager_def newTaskListDB_def)
  then show ?thesis
    using gc_deletes_exactly [OF pre run] run by simp
qed

text \<open>C15: acknowledging an item moves the ack level exactly as far as it may: to the largest
  acknowledged item below every item that is still open, or not at all. The item is no longer
  outstanding, nothing else changes its state, and the level returned is the new one.\<close>

theorem AckItem_exact:
  assumes "ack_inv m"
  shows "snd (AckItem k m) = Max (insert (am_GetAckLevel m)
      {j. (map_of (am_outstandingMessages m) j = Some True \<or>
           j = k \<and> map_of (am_outstandingMessages m) j = Some False) \<and>
          (\<forall>u. u \<noteq> k \<longrightarrow> map_of (am_outstandingMessages m) u = Some False \<longrightarrow> j < u)}) \<and>
    am_GetAckLevel (fst (AckItem k m)) = snd (AckItem k m) \<and>
    unacked (fst (AckItem k m)) = unacked m - {k} \<and> ack_inv (fst (AckItem k m))"
proof -
  have "{j \<in> acked_kept (mark_acked k m). \<forall>u \<in> unacked (mark_acked k m). j < u} =
      {j. (map_of (am_outstandingMessages m) j = Some True \<or>
           j = k \<and> map_of (am_outstandingMessages m) j = Some False) \<and>
          (\<forall>u. u \<noteq> k \<longrightarrow> map_of (am_outstandingMessages m) u = Some False \<longrightarrow> j < u)}"
    unfolding mark_acked_sets by (auto simp: acked_kept_def unacked_def)
  then show ?thesis
    using AckItem_spec [OF assms, of k] ack_inv_AckItem [OF assms, of k]
    by (simp add: ack_target_def am_GetAckLevel_def)
qed

definition sample_acks :: ackManager where
  "sample_acks = \<lparr>am_outstandingMessages = [(3, False), (5, True), (8, False)], am_readLevel = 8,
     am_ackLevel = 2, am_backlogCounter = 2\<rparr>"

lemma sample_acks_inv: "ack_inv sample_acks"
proof -
  have "unacked sample_acks = {3, 8}"
    by (auto simp: unacked_def sample_acks_def split: if_splits)
  then show ?thesis
    by (auto simp: ack_inv_def) (auto simp: sample_acks_def)
qed

theorem AckItem_exact_witness:
  "snd (AckItem 3 sample_acks) = 5 \<and> unacked (fst (AckItem 3 sample_acks)) = unacked sample_acks - {3}"
proof -
  have "snd (AckItem 3 sample_acks) = 5"
    by code_simp
  then show ?thesis
    using AckItem_exact [OF sample_acks_inv, of 3] by simp
qed

text \<open>C36: the partition manager of the Kafka consumer reports exact ack levels. After any sequence of
  additions and completions of messages of any partitions, in which the offsets added to a partition
  are positive and increasing, a completion in that partition succeeds, and the ack level it reports
  covers exactly the messages of the partition before the first one that is not completed.\<close>

theorem partition_ack_exact:
  assumes "sorted_wrt (<) (offsets p ops)" and "\<forall>k \<in> set (offsets p ops). 0 < k" and "offsets p ops \<noteq> []"
    and "CompleteMessage p c (pam_run ops []) = (pam', err, l)"
  shows "err = None \<and>
    (\<forall>j \<in> set (offsets p ops). j \<le> l \<longleftrightarrow> (\<forall>u \<in> open_messages p ops - {c}. j < u))"
proof -
  obtain m where m: "map_of (pam_run ops []) p = Some m" "partition_inv p ops m"
    using partition_inv_run [OF assms(1,2)] assms(3) by (cases "map_of (pam_run ops []) p") auto
  then have "err = None" "l = snd (AckItem c m)"
    using assms(4) by (auto simp: CompleteMessage_def split: prod.splits)
  then show ?thesis
    using AckItem_level_exact [OF m(2)] by blast
qed

theorem partition_ack_exact_witness:
  "\<exists>pam' l. CompleteMessage 0 4 (pam_run [Add 0 4, Add 1 3, Add 0 5, Complete 0 5, Add 0 6] []) = (pam', None, l) \<and>
    5 \<le> l \<and> l < 6"
proof -
  let ?ops = "[Add 0 4, Add 1 3, Add 0 5, Complete 0 5, Add 0 6]"
  obtain pam' err l where run: "CompleteMessage 0 4 (pam_run ?ops []) = (pam', err, l)"
    by (metis prod.collapse)
  have o: "offsets 0 ?ops = [4, 5, 6]" "open_messages 0 ?ops = {4, 6}"
    by (auto simp: offsets_def open_messages_def)
  have "err = None \<and> (\<forall>j \<in> {4, 5, 6}. j \<le> l \<longleftrightarrow> (\<forall>u \<in> {4, 6} - {4}. j < u))"
    using partition_ack_exact [OF _ _ _ run] unfolding o by simp
  then show ?thesis
    using run by auto
qed

text \<open>C37: offset 0 is not covered by that guarantee. When the first messages of a partition have the
  offsets 0 and \<open>k\<close>, then whatever is added and completed afterwards, message 0 apart, every completion
  reports an ack level of at least \<open>k - 1\<close>, although message 0 is open: reading item 0 leaves the ack
  level at its initial value, so reading the next item moves it over item 0.\<close>

theorem first_offset_skipped:
  assumes "map_of pam p = None" and "0 < k" and "Complete p 0 \<notin> set ops" and "c \<noteq> 0"
    and "CompleteMessage p c (pam_run (Add p 0 # Add p k # ops) pam) = (pam', err, l)"
  shows "err = None \<and> k - 1 \<le> l \<and>
    (\<exists>m. map_of pam' p = Some m \<and> map_of (am_outstandingMessages m) 0 = Some False)"
proof -
  let ?pam = "AddMessage p k (AddMessage p 0 pam)"
  have "map_of ?pam p = Some (fst (ReadItem k (fst (ReadItem 0 newAckManager))))"
    using assms(1) by (simp add: map_of_AddMessage)
  then obtain m where m: "map_of (pam_run ops ?pam) p = Some m" "zero_passed (k - 1) m"
    using zero_passed_run [OF _ zero_passed_start [OF assms(2)] _ assms(3)] assms(2) by auto
  have "pam_run (Add p 0 # Add p k # ops) pam = pam_run ops ?pam"
    by (simp add: pam_run_def)
  then have "pam' = AList.update p (fst (AckItem c m)) (pam_run ops ?pam)" "err = None" "l = snd (AckItem c m)"
    using assms(5) m(1) by (auto simp: CompleteMessage_def split: prod.splits)
  then show ?thesis
    using zero_passed_AckItem [OF m(2) _ assms(4)] assms(2) by (simp add: update_conv' zero_passed_def)
qed

theorem first_offset_skipped_witness:
  "\<exists>pam' l. CompleteMessage 0 2 (pam_run [Add 0 0, Add 0 1, Complete 0 1, Add 0 2] []) = (pam', None, l) \<and> 0 \<le> l"
proof -
  obtain pam' err l where run: "CompleteMessage 0 2 (pam_run [Add 0 0, Add 0 1, Complete 0 1, Add 0 2] []) = (pam', err, l)"
    by (metis prod.collapse)
  show ?thesis
    using first_offset_skipped [OF _ _ _ _ run] run by simp
qed

text \<open>C38: a task that is written back loses its expiry. Reading a task drops its schedule-to-start
  timeout, from which \<open>CreateTasks\<close> computes the expiry, so the copy of a task that had an expiry never
  expires.\<close>

theorem rewritten_task_never_expires:
  "\<not> isTaskExpired now (task_of_row (create_row now' key (k, task_of_row r)))"
  by (simp add: isTaskExpired_def task_of_row_def create_row_def zeroTimeNanos_def tl_zeroTime_def wrap64_def)

text \<open>The row of a batch that was written is in the table.\<close>

lemma db_CreateTasks_written:
  assumes "db_CreateTasks now f tasks db s = (s', None)"
  shows "s' = s\<lparr>st_tasks := st_tasks s @ map (create_row now (db_key db)) tasks\<rparr>" and "store_wf s'"
proof -
  from assms have "s' = s\<lparr>st_tasks := st_tasks s @ map (create_row now (db_key db)) tasks\<rparr> \<and>
      distinct (map row_id (st_tasks s @ map (create_row now (db_key db)) tasks))"
    by (cases rule: db_CreateTasks_cases) auto
  then show "s' = s\<lparr>st_tasks := st_tasks s @ map (create_row now (db_key db)) tasks\<rparr>" and "store_wf s'"
    by (auto simp: store_wf_def)
qed

text \<open>Reading from just below the ID of a row of the list returns that row first.\<close>

lemma GetTasks_head:
  assumes wf: "store_wf s" and r: "r \<in> set (st_tasks s)" "tkr_List r = key"
    and "0 < n" and "tkr_TaskID r \<le> hi"
  shows "\<exists>ts. tl_GetTasks key (tkr_TaskID r - 1) hi n s = Inr (task_of_row r # ts)"
proof -
  let ?k = "tkr_TaskID r"
  obtain ts where get: "tl_GetTasks key (?k - 1) hi n s = Inr ts"
    using assms(4) by (auto simp: tl_GetTasks_def SelectFromTasks_def)
  note g = GetTasks_Inr [OF wf get]
  have k: "?k \<in> list_ids key s"
    using r by (force simp: list_ids_def)
  have "ts \<noteq> []"
    using g(3) [OF k] assms(4,5) by auto
  then obtain t' ts' where ts: "ts = t' # ts'"
    by (cases ts) auto
  have "?k \<le> ti_TaskID t'"
    using g(2) [of t'] ts by auto
  then have "?k \<in> ti_TaskID ` set ts"
    using g(4) [OF k, of t'] ts by auto
  then have id: "ti_TaskID t' = ?k"
    using g(1) \<open>?k \<le> ti_TaskID t'\<close> by (auto simp: ts)
  obtain r' where r': "r' \<in> set (st_tasks s)" "tkr_List r' = key" "t' = task_of_row r'"
    using GetTasks_rows [OF get] ts by auto
  then have "row_id r' = row_id r"
    using id r by (simp add: row_id_def task_of_row_def)
  then have "r' = r"
    using wf r r'(1) unfolding store_wf_def distinct_map by (meson inj_onD)
  then show ?thesis
    using get ts r'(3) by simp
qed

text \<open>C18: every task of a batch that was written is read back. If the write of a batch by the owner of
  the list is accepted, reading from just below the ID of any of its tasks returns that task first,
  with its work, the time of the write, and an expiry exactly when it has a timeout.\<close>

theorem created_task_is_read:
  assumes "db_CreateTasks now f tasks db s = (s', None)" and "(k, t) \<in> set tasks"
    and "ti_DomainID t = fst (db_key db)" and "0 < n" and "k \<le> hi" and "0 < now"
  shows "\<exists>t' ts. tl_GetTasks (db_key db) (k - 1) hi n s' = Inr (t' # ts) \<and> ti_TaskID t' = k \<and>
    ti_DomainID t' = ti_DomainID t \<and>
    ti_WorkflowID t' = ti_WorkflowID t \<and> ti_RunID t' = ti_RunID t \<and> ti_ScheduleID t' = ti_ScheduleID t \<and>
    ti_PartitionConfig t' = ti_PartitionConfig t \<and> ti_CreatedTime t' = now \<and>
    (\<forall>d. isTaskExpired d t' \<longleftrightarrow> 0 < ti_ScheduleToStartTimeoutSeconds t \<and>
       now + ti_ScheduleToStartTimeoutSeconds t * 1000000000 < d)"
proof -
  let ?row = "create_row now (db_key db) (k, t)"
  note w = db_CreateTasks_written [OF assms(1)]
  have mem: "?row \<in> set (st_tasks s')"
    using assms(2) unfolding w(1) by force
  have row: "tkr_List ?row = db_key db" "tkr_TaskID ?row = k"
    using assms(3) by simp_all
  obtain ts where "tl_GetTasks (db_key db) (k - 1) hi n s' = Inr (task_of_row ?row # ts)"
    using GetTasks_head [OF w(2) mem row(1) assms(4), of hi] assms(5) unfolding row(2) by blast
  then show ?thesis
    using assms(3,6)
    by (auto simp: task_of_row_def create_row_def isTaskExpired_def zeroTimeNanos_def tl_zeroTime_def wrap64_def)
qed

theorem created_task_is_read_witness:
  "\<exists>t' ts. tl_GetTasks sample_tl_key 1 9 1 (fst (db_CreateTasks 7 NoFault
       [(1, sample_tl_task ''a''), (2, sample_tl_task ''b'')] (sample_stale_db\<lparr>db_rangeID := 2\<rparr>) sample_stale_store)) =
     Inr (t' # ts) \<and> ti_WorkflowID t' = ''b''"
proof -
  let ?db = "sample_stale_db\<lparr>db_rangeID := 2\<rparr>"
  let ?tasks = "[(1, sample_tl_task ''a''), (2, sample_tl_task ''b'')]"
  have key: "db_key ?db = sample_tl_key"
    by (simp add: sample_stale_db_def newTaskListDB_def)
  have "snd (db_CreateTasks 7 NoFault ?tasks ?db sample_stale_store) = None"
    by code_simp
  then obtain s' where run: "db_CreateTasks 7 NoFault ?tasks ?db sample_stale_store = (s', None)"
    by (metis prod.collapse)
  have "ti_DomainID (sample_tl_task ''b'') = fst (db_key ?db)" "ti_WorkflowID (sample_tl_task ''b'') = ''b''"
    by (simp_all add: sample_tl_task_def key sample_tl_key_def)
  then show ?thesis
    using created_task_is_read [OF run, of 2 _ 1 9] run key by auto
qed

end
