(* ===== verification/New_Tasks.thy ===== *)
theory New_Tasks
  imports History_Queue_Inv
begin

text \<open>
  Admitting new tasks: \<open>processNewTasks\<close> cuts the admitted keys off the state of the tasks to come
  and gives them, as a new slice, to the root queue. This keeps the invariant of the queue, and every
  task below the new bound is afterwards in the scope of a slice.
\<close>

definition root_slices :: "queue_base \<Rightarrow> vslice list" where
  "root_slices q =
     (case map_of (virtualQueues (qb_manager q)) rootQueueID of None \<Rightarrow> [] | Some vq \<Rightarrow> virtualSlices vq)"

text \<open>The slices of the root queue lie below the keys that are still to be admitted.\<close>

definition admission_inv ::
  "(htask_key \<Rightarrow> bool) \<Rightarrow> (get_task_progress \<Rightarrow> bool) \<Rightarrow> ptask set \<Rightarrow> queue_base \<Rightarrow> bool" where
  "admission_inv key_ok pos_ok todo q \<longleftrightarrow> gm_wf (virtualQueues (qb_manager q)) \<and>
     slices_ok key_ok pos_ok todo (qb_free q) (root_slices q) \<and>
     (\<forall>s \<in> set (root_slices q). vs_hi s \<le> qb_new_lo q) \<and>
     ss_Predicate (newVirtualSliceState q) = UniversalPredicate"

section \<open>A slice behind all others\<close>

lemma append_behind:
  assumes ss: "slices_ok key_ok pos_ok todo n ss" "\<forall>s \<in> set ss. vs_hi s \<le> vs_lo c"
    and c: "mergeable key_ok pos_ok todo c" "sid c = n"
  shows "slices_ok key_ok pos_ok todo (Suc n) (ss @ [c])" "\<forall>s \<in> set (ss @ [c]). vs_hi s \<le> vs_hi c"
proof -
  have "sid ` set ss \<inter> {sid c} = {}" using ss(1) c(2) by (auto simp: slices_ok_def)
  then show "slices_ok key_ok pos_ok todo (Suc n) (ss @ [c])"
    using slices_ok_mono [OF ss(1), of "Suc n"] ss(2) c by (simp add: slices_ok_append slices_ok_Cons)
  show "\<forall>s \<in> set (ss @ [c]). vs_hi s \<le> vs_hi c"
    using ss(2) mergeable_nonempty [OF c(1)] by (auto intro: order_trans less_imp_le)
qed

lemma merge_behind:
  assumes rk: "reader_keys key_ok pos_ok"
    and ss: "slices_ok key_ok pos_ok todo n ss" "\<forall>s \<in> set ss. vs_hi s \<le> vs_lo c"
    and c: "mergeable key_ok pos_ok todo c" "sid c = n"
    and r: "appendOrMergeSlice (Suc n) ss c m = (out, m', n')"
  shows "slices_ok key_ok pos_ok todo n' out" "in_scope out t \<longleftrightarrow> in_scope ss t \<or> state_Contains (vs_state c) t"
    "\<forall>s \<in> set out. vs_hi s \<le> vs_hi c"
proof -
  note a = append_behind [OF ss c]
  have lt: "vs_lo s < vs_hi s" if "s \<in> set ss" for s
    using ss(1) that mergeable_nonempty [of key_ok pos_ok todo s] by (simp add: slices_ok_def)
  have lo: "vs_lo s \<le> vs_lo c" if "s \<in> set ss" for s
    using lt [OF that] ss(2) that by (meson less_imp_le order_trans)
  have "distinct (map sid ss)" using ss(1) by (simp add: slices_ok_def)
  then have M: "merging key_ok pos_ok todo (Suc n) ss [c] []"
    using a(1) ss(2) lo by (auto simp: merging_def slices_ok_append in_set_butlastD)
  show "slices_ok key_ok pos_ok todo n' out" "in_scope out t \<longleftrightarrow> in_scope ss t \<or> state_Contains (vs_state c) t"
    using appendOrMerge_merging [OF rk M _ r] by (auto simp: merging_def)
  show "\<forall>s \<in> set out. vs_hi s \<le> vs_hi c"
  proof (cases "TryMergeWithVirtualSlice (Suc n) (last ss) c")
    case (Some p)
    obtain ms k where p: "p = (ms, k)" by force
    show ?thesis
    proof (cases "ss = []")
      case False
      then have l: "last ss \<in> set ss" by simp
      have "merged_ok key_ok pos_ok todo (last ss) c ms"
        using ss(1) l Some p by (intro TryMerge_ok [OF rk _ c(1)]) (auto simp: slices_ok_def)
      moreover have "vs_hi (last ss) \<le> vs_hi c" using a(2) l by simp
      ultimately have "\<forall>s \<in> set ms. vs_hi s \<le> vs_hi c"
        by (cases ms rule: rev_cases) (auto simp: merged_ok_def min_def)
      moreover have "\<forall>s \<in> set (butlast ss). vs_hi s \<le> vs_hi c" using a(2) in_set_butlastD [of _ ss] by fastforce
      ultimately show ?thesis
        using r False Some p by (auto simp: appendOrMergeSlice_def)
    qed (use r in \<open>auto simp: appendOrMergeSlice_def\<close>)
  qed (use r a(2) in \<open>auto simp: appendOrMergeSlice_def split: if_splits\<close>)
qed

section \<open>The root queue\<close>

lemma in_scope_queues:
  "in_scope (all_slices qs) t \<longleftrightarrow> (\<exists>(k, vq) \<in> set qs. in_scope (virtualSlices vq) t)"
  by (induction qs) auto

lemma virtualSlices_Start [simp]: "virtualSlices (vq_Start q) = virtualSlices q"
  by (simp add: vq_Start_def vq_notify_def)

lemma AddNewVirtualSlice_root:
  assumes rk: "reader_keys key_ok pos_ok" and inv: "admission_inv key_ok pos_ok todo q"
    and c: "mergeable key_ok pos_ok todo c" "sid c = qb_free q" "vs_lo c = qb_new_lo q"
    and r: "AddNewVirtualSliceToRootQueue now i (Suc (qb_free q)) c (qb_manager q) m = (g, m', n')"
  obtains vq where "virtualQueues g = AList.update rootQueueID vq (virtualQueues (qb_manager q))"
    "slices_ok key_ok pos_ok todo n' (virtualSlices vq)" "\<forall>s \<in> set (virtualSlices vq). vs_hi s \<le> vs_hi c"
    "\<And>t. in_scope (virtualSlices vq) t \<longleftrightarrow> in_scope (root_slices q) t \<or> state_Contains (vs_state c) t"
proof -
  have ss: "slices_ok key_ok pos_ok todo (qb_free q) (root_slices q)" "\<forall>s \<in> set (root_slices q). vs_hi s \<le> vs_lo c"
    using inv c(3) by (simp_all add: admission_inv_def)
  note app = append_behind [OF ss c(1,2)] and mrg = merge_behind [OF rk ss c(1,2)]
  show thesis
  proof (cases "map_of (virtualQueues (qb_manager q)) rootQueueID")
    case None
    then have e: "root_slices q = []" by (simp add: root_slices_def)
    show thesis
      using r None app unfolding e
      by (intro that [of "vq_Start (NewVirtualQueue [c])"])
        (auto simp: AddNewVirtualSliceToRootQueue_def put_queue_def NewVirtualQueue_def e)
  next
    case (Some vq)
    then have e: "root_slices q = virtualSlices vq" by (simp add: root_slices_def)
    show thesis
    proof (cases "nextForceNewSliceTime (qb_manager q) < now")
      case True
      show thesis
        using r Some True app unfolding e
        by (intro that [of "AppendSlices [c] vq"])
          (auto simp: AddNewVirtualSliceToRootQueue_def put_queue_def mgr_appendOrMergeSlice_def AppendSlices_def e)
    next
      case False
      obtain out m1 n1 where o: "appendOrMergeSlice (Suc (qb_free q)) (virtualSlices vq) c m = (out, m1, n1)"
        by (metis prod_cases3)
      show thesis
        using r Some False o mrg [unfolded e, OF o]
        by (intro that [of "resetNextReadSliceLocked (vq\<lparr>virtualSlices := out\<rparr>)"])
          (auto simp: AddNewVirtualSliceToRootQueue_def put_queue_def mgr_appendOrMergeSlice_def MergeWithLastSlice_def e)
    qed
  qed
qed

section \<open>New tasks\<close>

lemma admitted_slice:
  assumes rk: "reader_keys key_ok pos_ok" and lo: "key_ok (qb_new_lo q)" and hi: "key_ok k"
    and p: "ss_Predicate (newVirtualSliceState q) = UniversalPredicate"
    and r: "state_TrySplitByTaskKey (newVirtualSliceState q) k = Some (st, rem)"
  defines "c \<equiv> NewVirtualSlice (qb_free q) st NewPendingTaskTracker"
  shows "mergeable key_ok pos_ok todo c" "sid c = qb_free q" "vs_lo c = qb_new_lo q" "vs_hi c = k"
    "state_Contains (vs_state c) t \<longleftrightarrow> qb_new_lo q \<le> GetTaskKey t \<and> GetTaskKey t < k"
proof -
  note sp = state_TrySplitByTaskKey_Some [OF r]
  show b: "sid c = qb_free q" "vs_lo c = qb_new_lo q" "vs_hi c = k" using sp by (simp_all add: c_def NewVirtualSlice_def)
  have pn: "pred_normal (ss_Predicate st)" using sp p by simp
  have "slice_inv key_ok pos_ok todo c"
    unfolding c_def using sp lo hi pn by (intro slice_inv_NewVirtualSlice [OF _ _ _ _ rk]) (simp_all add: less_imp_le)
  then show "mergeable key_ok pos_ok todo c"
    using sp by (auto simp: mergeable_def aligned_def c_def NewVirtualSlice_def range_IsEmpty_def)
  show "state_Contains (vs_state c) t \<longleftrightarrow> qb_new_lo q \<le> GetTaskKey t \<and> GetTaskKey t < k"
    using sp p by (simp add: c_def NewVirtualSlice_def state_Contains_iff)
qed

lemma processNewTasks_admits:
  assumes rk: "reader_keys key_ok pos_ok" and inv: "queue_inv key_ok pos_ok todo q" "admission_inv key_ok pos_ok todo q"
    and k: "key_ok k" "k = new_max_key (qb_category q) (env_maxReadLevel env)"
    and r: "processNewTasks env q = (b, q')"
  shows "queue_inv key_ok pos_ok todo q' \<and> admission_inv key_ok pos_ok todo q' \<and>
    (b \<longrightarrow> qb_new_lo q' = k \<and> (\<forall>t \<in> todo. GetTaskKey t < k \<longrightarrow> in_scope (qb_slices q') t)) \<and>
    (\<not> b \<longrightarrow> q' = q)"
proof (cases "state_TrySplitByTaskKey (newVirtualSliceState q) k")
  case None
  then show ?thesis using r k(2) inv by (simp add: processNewTasks_def)
next
  case (Some p)
  then obtain st rem where sp: "state_TrySplitByTaskKey (newVirtualSliceState q) k = Some (st, rem)" by (cases p) auto
  define c where "c = NewVirtualSlice (qb_free q) st NewPendingTaskTracker"
  let ?qs = "virtualQueues (qb_manager q)"
  have lo: "key_ok (qb_new_lo q)" and pr: "ss_Predicate (newVirtualSliceState q) = UniversalPredicate"
    and wf: "gm_wf ?qs"
    using inv by (simp_all add: queue_inv_def admission_inv_def)
  note c = admitted_slice [OF rk lo k(1) pr sp, folded c_def]
  obtain g m n where add: "AddNewVirtualSliceToRootQueue (env_now env) (VirtualSliceForceAppendInterval env)
      (Suc (qb_free q)) c (qb_manager q) (qb_monitor q) = (g, m, n)" by (metis prod_cases3)
  obtain vq where g: "virtualQueues g = AList.update rootQueueID vq ?qs"
    and vq: "slices_ok key_ok pos_ok todo n (virtualSlices vq)" "\<forall>s \<in> set (virtualSlices vq). vs_hi s \<le> vs_hi c"
    and sc: "\<And>t. in_scope (virtualSlices vq) t \<longleftrightarrow> in_scope (root_slices q) t \<or> state_Contains (vs_state c) t"
    using AddNewVirtualSlice_root [OF rk inv(2) c(1-3) add] by blast
  have q': "b" "q' = q\<lparr>newVirtualSliceState := rem, qb_manager := g, qb_monitor := m, qb_free := n\<rparr>"
    using r sp k(2) add by (auto simp: processNewTasks_def c_def)
  note set_g = set_update_wf [OF wf, of rootQueueID vq, folded g]
  have nl: "qb_new_lo q' = k" using state_TrySplitByTaskKey_Some(5) [OF sp] q'(2) by simp
  have mono: "in_scope (qb_slices q') t" if sc0: "in_scope (qb_slices q) t" for t
  proof -
    obtain j w where w: "(j, w) \<in> set ?qs" "in_scope (virtualSlices w) t" using sc0 by (auto simp: in_scope_queues)
    then have "in_scope (root_slices q) t" if "j = rootQueueID" using that wf by (simp add: root_slices_def)
    then show ?thesis using w sc by (auto simp: in_scope_queues q' set_g)
  qed
  have cov: "in_scope (qb_slices q') t \<or> k \<le> GetTaskKey t" if "t \<in> todo" for t
    using inv(1) that mono [of t] sc [of t] c(5) [of t]
    by (auto simp: queue_inv_def in_scope_queues q' set_g not_le [symmetric])
  have "\<forall>s \<in> set (qb_slices q'). slice_inv key_ok pos_ok todo s"
    using inv(1) vq(1) by (auto simp: queue_inv_def all_slices_def q' set_g slices_ok_def mergeable_def)
  moreover have "\<forall>(j, w) \<in> set (virtualQueues (qb_manager q')). slices_sorted (virtualSlices w)"
    using inv(1) vq(1) by (auto simp: queue_inv_def q' set_g slices_ok_def)
  ultimately have "queue_inv key_ok pos_ok todo q'"
    using inv(1) cov nl k(1) by (simp add: queue_inv_def q'(2))
  moreover have "root_slices q' = virtualSlices vq" by (simp add: root_slices_def q' g update_conv')
  then have "admission_inv key_ok pos_ok todo q'"
    using vq wf nl c(4) pr state_TrySplitByTaskKey_Some(8) [OF sp] by (simp add: admission_inv_def q' g)
  ultimately show ?thesis using q'(1) nl cov leD by auto
qed

end
