(* ===== verification/Slice_Drain.thy ===== *)
theory Slice_Drain
  imports Slice_Invariant
begin

text \<open>
  Repeated reading drains a slice: when enough calls of \<open>GetTasks\<close> meet a database that answers,
  nothing is left unread, and together the calls return every stored task of the slice. Calls in
  between may fail at any query.
\<close>

text \<open>A sequence of calls of \<open>GetTasks\<close>, with the tasks they return.\<close>

primrec read_rounds ::
  "(vslice \<Rightarrow> (htask list result \<times> vslice) option) list \<Rightarrow> vslice \<Rightarrow> (htask list \<times> vslice) option" where
  "read_rounds [] s = Some ([], s)"
| "read_rounds (get # gets) s =
     (case get s of None \<Rightarrow> None
      | Some (Inl err, s') \<Rightarrow> read_rounds gets s'
      | Some (Inr ts, s') \<Rightarrow> map_option (\<lambda>(us, s''). (ts @ us, s'')) (read_rounds gets s'))"

lemma read_rounds_done:
  "progress s = [] \<Longrightarrow> read_rounds (map (\<lambda>d. GetTasks (rd d) init n) ds) s = Some ([], s)"
  by (induction ds) (simp_all add: GetTasks_def)

locale live_reader = queue_reader +
  fixes answering :: "'a \<Rightarrow> bool"
  assumes answers: "store_ok d \<Longrightarrow> answering d \<Longrightarrow> pos_ok (req_Progress req) \<Longrightarrow> 0 < req_PageSize req \<Longrightarrow>
    \<exists>r. get_task d req = Inr r"
begin

definition rest :: "ptask set \<Rightarrow> vslice \<Rightarrow> ptask set" where
  "rest st s = {t \<in> st. Check (vs_pred s) t \<and> GetTaskKey t \<in> unread (progress s)}"

text \<open>A call that returns fewer tasks than asked for has read everything.\<close>

lemma GetTasks_loop_full:
  assumes d: "store_ok d" "todo \<subseteq> stored d" "answering d"
    and init: "\<And>t. ht_Task (init t) = t" "\<And>t. ht_state (init t) = TaskStatePending"
    and inv: "slice_inv key_ok pos_ok todo s" and r: "GetTasks_loop (get_task d) init n tasks s = Some (res, s')"
  shows "\<exists>ts. res = Inr ts \<and> (n \<le> int (length ts) \<or> progress s' = [])"
  using inv r
proof (induction "to_read d s" arbitrary: s tasks rule: less_induct)
  case less
  have sh: "slice_shape key_ok pos_ok s" using less.prems(1) by (rule slice_inv_shape)
  show ?case
  proof (cases "int (length tasks) < n \<and> progress s \<noteq> []")
    case False
    then show ?thesis
      using less.prems(2) by (subst (asm) GetTasks_loop.simps) (auto split: if_splits)
  next
    case True
    then obtain p ps where p: "progress s = p # ps" by (cases "progress s") auto
    let ?req = "\<lparr>req_Progress = p, req_Predicate = vs_pred s, req_PageSize = n - int (length tasks)\<rparr>"
    have n: "0 < n - int (length tasks)" using True by simp
    obtain resp where resp: "get_task d ?req = Inr resp"
      using answers [OF d(1,3), of ?req] n sh p by (auto simp: slice_shape_def)
    have step: "GetTasks_loop (get_task d) init n tasks s =
        GetTasks_loop (get_task d) init n (tasks @ map init (resp_Tasks resp)) (after_page init resp s)"
      using True p resp by (subst GetTasks_loop.simps) (simp add: after_page_def)
    show ?thesis
      using less.prems(2) unfolding step
      by (rule less.hyps [OF to_read_after_page [OF d(1) sh p n resp]
          inv_after_page [OF d(1) less.prems(1) p n resp init d(2)]])
  qed
qed

lemma GetTasks_full:
  assumes "store_ok d" "todo \<subseteq> stored d" "answering d"
    and "\<And>t. ht_Task (init t) = t" "\<And>t. ht_state (init t) = TaskStatePending"
    and "slice_inv key_ok pos_ok todo s" and "GetTasks (get_task d) init n s = Some (res, s')"
  shows "\<exists>ts. res = Inr ts \<and> (n \<le> int (length ts) \<or> progress s' = [])"
  using assms(7) GetTasks_loop_full [OF assms(1-6), of n "[]" res s']
  by (auto simp: GetTasks_def split: if_splits)

text \<open>One call: what it returns is what it reads, and it makes progress when the database answers.\<close>

lemma GetTasks_round:
  assumes d: "store_ok d" "todo \<subseteq> stored d"
    and init: "\<And>t. ht_Task (init t) = t" "\<And>t. ht_state (init t) = TaskStatePending"
    and inv: "slice_inv key_ok pos_ok todo s" and n: "0 < n"
  obtains res s' where "GetTasks (get_task d) init n s = Some (res, s')" "slice_inv key_ok pos_ok todo s'"
    "rest (stored d) s' \<subseteq> rest (stored d) s"
    "case res of Inl e \<Rightarrow> \<not> answering d \<and> rest (stored d) s' = rest (stored d) s
      | Inr ts \<Rightarrow> ht_Task ` set ts = rest (stored d) s - rest (stored d) s'"
    "answering d \<Longrightarrow> progress s' = [] \<or> card (rest (stored d) s') < card (rest (stored d) s)"
proof -
  obtain res s' where r: "GetTasks (get_task d) init n s = Some (res, s')" and l: "loop_result d todo n [] s res s'"
    using GetTasks_total [OF d(1) inv d(2) init] by blast
  have s': "slice_inv key_ok pos_ok todo s'" "vs_pred s' = vs_pred s" "unread (progress s') \<subseteq> unread (progress s)"
    using l by (auto simp: loop_result_def)
  have sub: "rest (stored d) s' \<subseteq> rest (stored d) s"
    using s'(2,3) by (auto simp: rest_def)
  have full: "\<exists>ts. res = Inr ts \<and> (n \<le> int (length ts) \<or> progress s' = [])" if "answering d"
    using GetTasks_full [OF d that init inv r] .
  have res: "case res of Inl e \<Rightarrow> \<not> answering d \<and> rest (stored d) s' = rest (stored d) s
      | Inr ts \<Rightarrow> ht_Task ` set ts = rest (stored d) s - rest (stored d) s'"
  proof (cases res)
    case (Inl e)
    then have "{t \<in> stored d. Check (vs_pred s) t \<and> GetTaskKey t \<in> unread (progress s) - unread (progress s')} = {}"
      using l by (simp add: loop_result_def)
    then have "rest (stored d) s \<subseteq> rest (stored d) s'"
      unfolding rest_def s'(2) by blast
    then show ?thesis
      using Inl sub full by auto
  next
    case (Inr ts)
    then have "ht_Task ` set ts = {t \<in> stored d. Check (vs_pred s) t \<and>
        GetTaskKey t \<in> unread (progress s) - unread (progress s')}"
      using l by (simp add: loop_result_def)
    then show ?thesis
      unfolding Inr rest_def s'(2) by auto
  qed
  have "card (rest (stored d) s') < card (rest (stored d) s)" if a: "answering d" "progress s' \<noteq> []"
  proof -
    obtain ts where ts: "res = Inr ts" "n \<le> int (length ts)" using full [OF a(1)] a(2) by blast
    then have "ts \<noteq> []" using n by auto
    moreover have "ht_Task ` set ts = rest (stored d) s - rest (stored d) s'" using res ts(1) by simp
    ultimately have "rest (stored d) s - rest (stored d) s' \<noteq> {}" by (metis image_is_empty set_empty)
    moreover have "finite (rest (stored d) s)" using finite_stored by (simp add: rest_def)
    ultimately show ?thesis using sub by (intro psubset_card_mono) auto
  qed
  then show thesis by (intro that [OF r s'(1) sub res]) blast
qed

lemma drained:
  assumes st: "todo \<subseteq> st"
    and init: "\<And>t. ht_Task (init t) = t" "\<And>t. ht_state (init t) = TaskStatePending" and n: "0 < n"
    and inv: "slice_inv key_ok pos_ok todo s" and ds: "\<forall>d \<in> set ds. store_ok d \<and> stored d = st"
    and k: "card (rest st s) < length (filter answering ds)"
  shows "\<exists>ts s'. read_rounds (map (\<lambda>d. GetTasks (get_task d) init n) ds) s = Some (ts, s') \<and> progress s' = [] \<and>
    ht_Task ` set ts = rest st s"
  using inv ds k
proof (induction ds arbitrary: s)
  case (Cons d ds)
  have d: "store_ok d" "stored d = st" using Cons.prems(2) by simp_all
  obtain res s1 where r: "GetTasks (get_task d) init n s = Some (res, s1)" "slice_inv key_ok pos_ok todo s1"
    and sub: "rest st s1 \<subseteq> rest st s"
    and res: "case res of Inl e \<Rightarrow> \<not> answering d \<and> rest st s1 = rest st s
      | Inr ts \<Rightarrow> ht_Task ` set ts = rest st s - rest st s1"
    and less: "answering d \<Longrightarrow> progress s1 = [] \<or> card (rest st s1) < card (rest st s)"
    using GetTasks_round [OF d(1) _ init Cons.prems(1) n] st d(2) by metis
  have fin: "finite (rest st s)" using finite_stored [of d] d(2) by (simp add: rest_def)
  show ?case
  proof (cases "progress s1 = []")
    case True
    then have "rest st s1 = {}" by (simp add: rest_def)
    then show ?thesis
      using r True res by (cases res) (simp_all add: read_rounds_done)
  next
    case False
    have "card (rest st s1) < length (filter answering ds)"
      using less False Cons.prems(3) card_mono [OF fin sub] by (auto split: if_splits)
    then obtain us s2 where "read_rounds (map (\<lambda>d. GetTasks (get_task d) init n) ds) s1 = Some (us, s2)"
      "progress s2 = []" "ht_Task ` set us = rest st s1"
      using Cons.IH [OF r(2)] Cons.prems(2) by auto
    then show ?thesis using r res sub by (cases res) (auto simp: image_Un)
  qed
qed simp

end

interpretation sql_live: live_reader "sql_get_task gs"
  "\<lambda>d. shard_tasks (transfer_tasks (fst d)) (snd d)" sql_store_ok immediate_key sql_pos_ok "\<lambda>d. db_reads (fst d)"
proof unfold_locales
  fix d :: "sql_db \<times> int" and req :: GetTaskRequest
  assume "db_reads (fst d)" "sql_pos_ok (req_Progress req)" "0 < req_PageSize req"
  then show "\<exists>r. sql_get_task gs d req = Inr r"
    using sql_get_task_cases(2) [of req d gs] by blast
qed

end
