(* ===== verification/Task_Rescheduler.thy ===== *)
theory Task_Rescheduler
  imports Queue_Mitigator
begin

text \<open>
  The rescheduler (\<open>history/task/rescheduler.go\<close>) to which the virtual queues hand the tasks the
  processor did not accept: a priority queue by time for every domain and priority. It loses no
  pending task, and its count is exact. The timer gate, the processor, the priority and the attempt
  count of a task are arguments; the association list has the arbitrary order of the Go map.
\<close>

section \<open>The operations\<close>

record rescheduledTask =
  rt_task :: htask
  rescheduleTime :: int

record 'g rescheduler =
  rs_status :: daemon_status
  rs_cancelled :: bool
  rs_timerGate :: 'g
  pqMap :: "(string \<times> int, rescheduledTask list) gomap"
  numExecutables :: int

record 'g rescheduler_env =
  rv_Priority :: "htask \<Rightarrow> int"
  rv_GetAttempt :: "htask \<Rightarrow> int"
  rv_TrySubmit :: "htask \<Rightarrow> bool \<times> bool"
  rv_now :: int
  rv_backoff :: int
  rv_gate_Update :: "int \<Rightarrow> 'g \<Rightarrow> 'g"
  rv_gate_Stop :: "'g \<Rightarrow> 'g"

definition rescheduledTaskCompareLess :: "rescheduledTask \<Rightarrow> rescheduledTask \<Rightarrow> bool" where
  "rescheduledTaskCompareLess this that \<longleftrightarrow> rescheduleTime this < rescheduleTime that"

definition rs_newPriorityQueue :: "rescheduledTask list \<Rightarrow> rescheduledTask list" where
  "rs_newPriorityQueue items = NewPriorityQueue rescheduledTaskCompareLess items"

definition NewRescheduler :: "'g \<Rightarrow> 'g rescheduler" where
  "NewRescheduler gate =
     \<lparr>rs_status = DaemonStatusInitialized, rs_cancelled = False, rs_timerGate = gate, pqMap = [], numExecutables = 0\<rparr>"

definition rs_isStopped :: "'g rescheduler \<Rightarrow> bool" where
  "rs_isStopped r \<longleftrightarrow> rs_status r = DaemonStatusStopped"

definition rs_Start :: "'g rescheduler \<Rightarrow> 'g rescheduler" where
  "rs_Start r = (if rs_status r \<noteq> DaemonStatusInitialized then r else r\<lparr>rs_status := DaemonStatusStarted\<rparr>)"

definition rs_Stop :: "'g rescheduler_env \<Rightarrow> 'g rescheduler \<Rightarrow> 'g rescheduler" where
  "rs_Stop env r =
     (if rs_status r \<noteq> DaemonStatusStarted then r
      else r\<lparr>rs_status := DaemonStatusStopped, rs_cancelled := True,
             rs_timerGate := rv_gate_Stop env (rs_timerGate r)\<rparr>)"

definition getOrCreatePQLocked ::
  "string \<times> int \<Rightarrow> 'g rescheduler \<Rightarrow> rescheduledTask list \<times> 'g rescheduler" where
  "getOrCreatePQLocked key r =
     (case map_of (pqMap r) key of
        Some pq \<Rightarrow> (pq, r)
      | None \<Rightarrow> let pq = rs_newPriorityQueue [] in (pq, r\<lparr>pqMap := AList.update key pq (pqMap r)\<rparr>))"

text \<open>Every queue is emptied and deleted from the map.\<close>

definition rs_drain :: "'g rescheduler \<Rightarrow> 'g rescheduler" where
  "rs_drain r =
     r\<lparr>pqMap := fold (\<lambda>(key, _). AList.delete key) (pqMap r) (pqMap r), numExecutables := 0\<rparr>"

definition rs_RescheduleTask :: "'g rescheduler_env \<Rightarrow> htask \<Rightarrow> int \<Rightarrow> 'g rescheduler \<Rightarrow> 'g rescheduler" where
  "rs_RescheduleTask env task time r =
     (let key = (GetDomainID (ht_Task task), rv_Priority env task);
          (pq, r1) = getOrCreatePQLocked key r;
          pq' = pq_Add rescheduledTaskCompareLess \<lparr>rt_task = task, rescheduleTime = time\<rparr> pq;
          r2 = r1\<lparr>pqMap := AList.update key pq' (pqMap r1), numExecutables := numExecutables r1 + 1,
                  rs_timerGate := rv_gate_Update env time (rs_timerGate r1)\<rparr>
      in if rs_isStopped r2 then rs_drain r2 else r2)"

text \<open>The loop of \<open>RescheduleDomains\<close> over one queue.\<close>

function retime_loop :: "int \<Rightarrow> rescheduledTask list \<Rightarrow> rescheduledTask list \<Rightarrow> rescheduledTask list" where
  "retime_loop now pq items =
     (case pq_Remove rescheduledTaskCompareLess pq of
        Inl err \<Rightarrow> items
      | Inr (rescheduled, pq') \<Rightarrow>
          let scheduleTime = scheduledTime (ht_key (rt_task rescheduled))
          in retime_loop now pq'
               (items @ [rescheduled\<lparr>rescheduleTime := (if now < scheduleTime then scheduleTime else now)\<rparr>]))"
  by pat_completeness auto
termination
  by (relation "measure (\<lambda>(now, pq, items). length pq)") (auto dest: length_pq_Remove)

declare retime_loop.simps [simp del]

definition RescheduleDomains :: "'g rescheduler_env \<Rightarrow> string set \<Rightarrow> 'g rescheduler \<Rightarrow> 'g rescheduler" where
  "RescheduleDomains env ids r =
     (let now = rv_now env;
          r1 = r\<lparr>pqMap := map (\<lambda>(key, pq).
                  (key, if fst key \<notin> ids then pq else rs_newPriorityQueue (retime_loop now pq []))) (pqMap r)\<rparr>
      in if \<exists>(key, pq) \<in> set (pqMap r). fst key \<in> ids
         then r1\<lparr>rs_timerGate := rv_gate_Update env now (rs_timerGate r1)\<rparr> else r1)"

definition rs_Size :: "'g rescheduler \<Rightarrow> int" where
  "rs_Size r = numExecutables r"

datatype reschedule_event = RsSubmitted htask | RsDropped htask

text \<open>
  The loop of \<open>reschedule\<close> over one queue: the queue that is left, what was taken out, and the time
  the timer gate is set to when the loop is left early.
\<close>

function reschedule_loop ::
  "'g rescheduler_env \<Rightarrow> bool \<Rightarrow> rescheduledTask list \<Rightarrow>
   rescheduledTask list \<times> reschedule_event list \<times> int option" where
  "reschedule_loop env stopped pq =
     (case pq_Peek pq of
        Inl err \<Rightarrow> (pq, [], None)
      | Inr rescheduled \<Rightarrow>
          if rv_now env < rescheduleTime rescheduled then (pq, [], Some (rescheduleTime rescheduled))
          else if ht_state (rt_task rescheduled) \<noteq> TaskStatePending then
            (case pq_Remove rescheduledTaskCompareLess pq of
               Inl err \<Rightarrow> (pq, [], None)
             | Inr (_, pq') \<Rightarrow>
                 let (pq'', evs, wake) = reschedule_loop env stopped pq'
                 in (pq'', RsDropped (rt_task rescheduled) # evs, wake))
          else
            let task = (if rv_GetAttempt env (rt_task rescheduled) = 0
                        then SetInitialSubmitTime (rv_now env) (rt_task rescheduled) else rt_task rescheduled);
                pq1 = pq[0 := rescheduled\<lparr>rt_task := task\<rparr>];
                (submitted, err) = rv_TrySubmit env task in
            if err \<and> stopped then (pq1, [], None)
            else if \<not> submitted then (pq1, [], Some (rv_now env + rv_backoff env))
            else
              (case pq_Remove rescheduledTaskCompareLess pq1 of
                 Inl err \<Rightarrow> (pq1, [], None)
               | Inr (_, pq') \<Rightarrow>
                   let (pq'', evs, wake) = reschedule_loop env stopped pq'
                   in (pq'', RsSubmitted task # evs, wake)))"
  by pat_completeness auto
termination
  by (relation "measure (\<lambda>(env, stopped, pq). length pq)") (auto dest!: length_pq_Remove)

declare reschedule_loop.simps [simp del]

fun reschedule_queues ::
  "'g rescheduler_env \<Rightarrow> bool \<Rightarrow> (string \<times> int, rescheduledTask list) gomap \<Rightarrow> 'g \<Rightarrow>
   (string \<times> int, rescheduledTask list) gomap \<times> reschedule_event list \<times> 'g" where
  "reschedule_queues env stopped [] gate = ([], [], gate)"
| "reschedule_queues env stopped ((key, pq) # rest) gate =
     (let (pq', evs, wake) = reschedule_loop env stopped pq;
          gate' = (case wake of None \<Rightarrow> gate | Some t \<Rightarrow> rv_gate_Update env t gate);
          (rest', evs', gate'') = reschedule_queues env stopped rest gate'
      in ((key, pq') # rest', evs @ evs', gate''))"

definition reschedule :: "'g rescheduler_env \<Rightarrow> 'g rescheduler \<Rightarrow> 'g rescheduler \<times> reschedule_event list" where
  "reschedule env r =
     (let (qs, evs, gate) = reschedule_queues env (rs_isStopped r) (pqMap r) (rs_timerGate r)
      in (r\<lparr>pqMap := qs, numExecutables := numExecutables r - int (length evs), rs_timerGate := gate\<rparr>, evs))"

definition cleanupPQ :: "'g rescheduler \<Rightarrow> 'g rescheduler" where
  "cleanupPQ r = r\<lparr>pqMap := filter (\<lambda>(key, pq). \<not> pq_IsEmpty pq) (pqMap r)\<rparr>"

datatype reschedule_loop_event = RsCtxDone | RsTimerGate | RsCleanupTimer

definition rescheduleLoop_step ::
  "'g rescheduler_env \<Rightarrow> reschedule_loop_event \<Rightarrow> 'g rescheduler \<Rightarrow> 'g rescheduler \<times> reschedule_event list" where
  "rescheduleLoop_step env ev r =
     (case ev of RsCtxDone \<Rightarrow> (rs_drain r, []) | RsTimerGate \<Rightarrow> reschedule env r
      | RsCleanupTimer \<Rightarrow> (cleanupPQ r, []))"

section \<open>Nothing is lost\<close>

text \<open>The tasks the rescheduler holds, and its count.\<close>

abbreviation pq_tasks :: "rescheduledTask list \<Rightarrow> ptask multiset" where
  "pq_tasks pq \<equiv> image_mset (\<lambda>x. ht_Task (rt_task x)) (mset pq)"

definition rs_tasks :: "'g rescheduler \<Rightarrow> ptask multiset" where
  "rs_tasks r = (\<Sum>p \<leftarrow> pqMap r. pq_tasks (snd p))"

definition rs_wf :: "'g rescheduler \<Rightarrow> bool" where
  "rs_wf r \<longleftrightarrow> gm_wf (pqMap r) \<and> numExecutables r = int (size (rs_tasks r))"

fun event_task :: "reschedule_event \<Rightarrow> htask" where
  "event_task (RsSubmitted t) = t"
| "event_task (RsDropped t) = t"

definition event_ok :: "'g rescheduler_env \<Rightarrow> reschedule_event \<Rightarrow> bool" where
  "event_ok env e \<longleftrightarrow> (case e of RsSubmitted t \<Rightarrow> ht_state t = TaskStatePending \<and> fst (rv_TrySubmit env t)
     | RsDropped t \<Rightarrow> ht_state t \<noteq> TaskStatePending)"

text \<open>\<open>Remove\<close> returns what \<open>Peek\<close> has shown.\<close>

lemma heap_down_nth: "n \<le> k \<Longrightarrow> i < n \<Longrightarrow> heap_down lt i n xs ! k = xs ! k"
proof (induction lt i n xs rule: heap_down.induct)
  case (1 lt i n xs)
  then show ?case
    by (subst heap_down.simps) (auto simp: Let_def heap_swap_def)
qed

lemma pq_Remove_head:
  assumes "items \<noteq> []"
  obtains rest where "pq_Remove lt items = Ok (items ! 0, rest)" "mset items = add_mset (items ! 0) (mset rest)"
proof -
  obtain x rest where r: "pq_Remove lt items = Ok (x, rest)" "mset items = add_mset x (mset rest)"
    using pq_Remove_mset [OF assms] by blast
  define n where "n = length items - 1"
  have "x = heap_down lt 0 n (heap_swap 0 n items) ! n"
    using r(1) assms by (auto simp: pq_Remove_def pq_IsEmpty_def Let_def n_def)
  also have "\<dots> = heap_swap 0 n items ! n"
    by (cases "n = 0") (simp_all add: heap_down_nth)
  also have "\<dots> = items ! 0" using assms by (simp add: heap_swap_def n_def)
  finally show thesis using r that by blast
qed

lemma mset_NewPriorityQueue: "mset (NewPriorityQueue lt items) = mset items"
  by (simp add: NewPriorityQueue_def mset_heap_Init)

lemma set_NewPriorityQueue [simp]: "set (NewPriorityQueue lt items) = set items"
  using mset_NewPriorityQueue [of lt items] by (metis set_mset_mset)

lemma reschedule_loop_tasks:
  assumes "reschedule_loop env stopped pq = (pq', evs, wake)"
  shows "pq_tasks pq = pq_tasks pq' + mset (map (ht_Task \<circ> event_task) evs) \<and> (\<forall>e \<in> set evs. event_ok env e)"
  using assms
proof (induction "length pq" arbitrary: pq pq' evs wake rule: less_induct)
  case less
  show ?case
  proof (cases pq)
    case Nil
    then show ?thesis using less.prems by (subst (asm) reschedule_loop.simps) (simp add: pq_Peek_def pq_IsEmpty_def)
  next
    case (Cons x xs)
    define task where "task = (if rv_GetAttempt env (rt_task x) = 0
      then SetInitialSubmitTime (rv_now env) (rt_task x) else rt_task x)"
    define pq1 where "pq1 = x\<lparr>rt_task := task\<rparr> # xs"
    have task: "ht_Task task = ht_Task (rt_task x)" "ht_state task = ht_state (rt_task x)"
      by (simp_all add: task_def SetInitialSubmitTime_def)
    have same: "pq_tasks pq1 = pq_tasks pq" by (simp add: pq1_def Cons task)
    obtain p0 where p0: "pq_Remove rescheduledTaskCompareLess pq = Ok (x, p0)" "mset pq = add_mset x (mset p0)"
      using pq_Remove_head [of pq rescheduledTaskCompareLess] Cons by auto
    obtain p1 where p1: "pq_Remove rescheduledTaskCompareLess pq1 = Ok (x\<lparr>rt_task := task\<rparr>, p1)"
      "mset pq1 = add_mset (x\<lparr>rt_task := task\<rparr>) (mset p1)"
      using pq_Remove_head [of pq1 rescheduledTaskCompareLess] by (auto simp: pq1_def)
    have len: "length p0 < length pq" "length p1 < length pq"
      using length_pq_Remove [OF p0(1)] length_pq_Remove [OF p1(1)] by (simp_all add: pq1_def Cons)
    obtain q0 e0 w0 where l0: "reschedule_loop env stopped p0 = (q0, e0, w0)" by (metis prod_cases3)
    obtain q1 e1 w1 where l1: "reschedule_loop env stopped p1 = (q1, e1, w1)" by (metis prod_cases3)
    obtain sub err where ts: "rv_TrySubmit env task = (sub, err)" by force
    have eq: "reschedule_loop env stopped pq =
        (if rv_now env < rescheduleTime x then (pq, [], Some (rescheduleTime x))
         else if ht_state (rt_task x) \<noteq> TaskStatePending then (q0, RsDropped (rt_task x) # e0, w0)
         else if err \<and> stopped then (pq1, [], None)
         else if \<not> sub then (pq1, [], Some (rv_now env + rv_backoff env))
         else (q1, RsSubmitted task # e1, w1))"
      using p0(1) p1(1) l0 l1 ts
      by (subst reschedule_loop.simps)
        (simp add: Cons pq_Peek_def pq_IsEmpty_def task_def [symmetric] pq1_def [symmetric])
    show ?thesis
      using less.prems less.hyps [OF len(1) l0] less.hyps [OF len(2) l1] p0(2) p1(2) same task ts
      unfolding eq by (auto simp: event_ok_def split: if_splits)
  qed
qed

lemma reschedule_queues_tasks:
  assumes "reschedule_queues env stopped qs gate = (qs', evs, gate')"
  shows "map fst qs' = map fst qs \<and> (\<forall>e \<in> set evs. event_ok env e) \<and>
    (\<Sum>p \<leftarrow> qs. pq_tasks (snd p)) = (\<Sum>p \<leftarrow> qs'. pq_tasks (snd p)) + mset (map (ht_Task \<circ> event_task) evs)"
  using assms
proof (induction qs arbitrary: gate qs' evs gate')
  case (Cons p qs)
  obtain key pq where p: "p = (key, pq)" by (cases p)
  obtain pq' e1 wake where l: "reschedule_loop env stopped pq = (pq', e1, wake)" by (metis prod_cases3)
  define g where "g = (case wake of None \<Rightarrow> gate | Some t \<Rightarrow> rv_gate_Update env t gate)"
  obtain rest e2 g' where t: "reschedule_queues env stopped qs g = (rest, e2, g')" by (metis prod_cases3)
  show ?case
    using Cons.prems reschedule_loop_tasks [OF l] Cons.IH [OF t] l t
    by (auto simp: p g_def [symmetric] comp_def)
qed simp

lemma reschedule_exact:
  assumes "rs_wf r" "reschedule env r = (r', evs)"
  shows "rs_wf r' \<and> rs_tasks r = rs_tasks r' + mset (map (ht_Task \<circ> event_task) evs) \<and>
    (\<forall>e \<in> set evs. event_ok env e)"
proof -
  obtain qs gate where q: "reschedule_queues env (rs_isStopped r) (pqMap r) (rs_timerGate r) = (qs, evs, gate)"
    and r': "r' = r\<lparr>pqMap := qs, numExecutables := numExecutables r - int (length evs), rs_timerGate := gate\<rparr>"
    using assms(2) by (auto simp: reschedule_def split: prod.splits)
  show ?thesis
    using assms(1) reschedule_queues_tasks [OF q] by (simp add: rs_wf_def rs_tasks_def r')
qed

text \<open>The tasks of a domain that has failed over are all retimed, none to before its scheduled time.\<close>

lemma retime_loop_eq:
  "\<exists>ys. retime_loop now pq items = items @ map (\<lambda>x. x\<lparr>rescheduleTime := max now (scheduledTime (ht_key (rt_task x)))\<rparr>) ys \<and>
     mset ys = mset pq"
proof (induction "length pq" arbitrary: pq items rule: less_induct)
  case less
  show ?case
  proof (cases "pq = []")
    case True
    then show ?thesis by (subst retime_loop.simps) (simp add: pq_Remove_def pq_IsEmpty_def)
  next
    case False
    then obtain rest where r: "pq_Remove rescheduledTaskCompareLess pq = Ok (pq ! 0, rest)"
      "mset pq = add_mset (pq ! 0) (mset rest)"
      using pq_Remove_head by blast
    let ?f = "\<lambda>x. x\<lparr>rescheduleTime := max now (scheduledTime (ht_key (rt_task x)))\<rparr>"
    have eq: "retime_loop now pq items = retime_loop now rest (items @ [?f (pq ! 0)])"
      using r(1) by (subst retime_loop.simps) (simp add: Let_def max_def not_less [symmetric] if_not_P)
    obtain ys where "retime_loop now rest (items @ [?f (pq ! 0)]) = (items @ [?f (pq ! 0)]) @ map ?f ys" "mset ys = mset rest"
      using less [of rest "items @ [?f (pq ! 0)]"] length_pq_Remove [OF r(1)] by auto
    then show ?thesis unfolding eq using r(2) by (intro exI [of _ "pq ! 0 # ys"]) simp
  qed
qed

lemma retimed_tasks: "pq_tasks (rs_newPriorityQueue (retime_loop now pq [])) = pq_tasks pq"
  using retime_loop_eq [of now pq "[]"]
  by (auto simp: rs_newPriorityQueue_def mset_NewPriorityQueue image_mset.compositionality comp_def)

lemma RescheduleDomains_exact:
  assumes "rs_wf r"
  shows "rs_wf (RescheduleDomains env ids r)" "rs_tasks (RescheduleDomains env ids r) = rs_tasks r"
    and "\<forall>(key, pq) \<in> set (pqMap (RescheduleDomains env ids r)). fst key \<in> ids \<longrightarrow>
      (\<forall>x \<in> set pq. rescheduleTime x = max (rv_now env) (scheduledTime (ht_key (rt_task x))))"
proof -
  let ?f = "\<lambda>(key, pq). (key, if fst key \<notin> ids then pq else rs_newPriorityQueue (retime_loop (rv_now env) pq []))"
  have m: "pqMap (RescheduleDomains env ids r) = map ?f (pqMap r)" "numExecutables (RescheduleDomains env ids r) = numExecutables r"
    by (simp_all add: RescheduleDomains_def Let_def)
  have "map (\<lambda>p. pq_tasks (snd p)) (map ?f (pqMap r)) = map (\<lambda>p. pq_tasks (snd p)) (pqMap r)"
    by (auto simp: retimed_tasks)
  then show t: "rs_tasks (RescheduleDomains env ids r) = rs_tasks r" by (simp only: rs_tasks_def m)
  have "map fst (map ?f (pqMap r)) = map fst (pqMap r)" by auto
  then show "rs_wf (RescheduleDomains env ids r)" using assms t unfolding rs_wf_def m by metis
  have "rescheduleTime x = max now (scheduledTime (ht_key (rt_task x)))"
    if "x \<in> set (rs_newPriorityQueue (retime_loop now pq []))" for x now pq
    using that retime_loop_eq [of now pq "[]"] by (auto simp: rs_newPriorityQueue_def)
  then show "\<forall>(key, pq) \<in> set (pqMap (RescheduleDomains env ids r)). fst key \<in> ids \<longrightarrow>
      (\<forall>x \<in> set pq. rescheduleTime x = max (rv_now env) (scheduledTime (ht_key (rt_task x))))"
    unfolding m by auto
qed

lemma set_delete_all:
  fixes m :: "('k, 'v) gomap"
  shows "set (fold (\<lambda>(key, _). AList.delete key) xs m) \<subseteq> {p \<in> set m. fst p \<notin> fst ` set xs}"
proof (induction xs arbitrary: m)
  case (Cons x xs)
  show ?case using Cons.IH [of "AList.delete (fst x) m"] by (cases x) (auto simp: set_delete)
qed simp

lemma rs_drain_empty: "pqMap (rs_drain r) = []" "numExecutables (rs_drain r) = 0"
proof -
  have d: "set (pqMap (rs_drain r)) \<subseteq> {p \<in> set (pqMap r). fst p \<notin> fst ` set (pqMap r)}"
    unfolding rs_drain_def using set_delete_all [of "pqMap r" "pqMap r"] by simp
  have e: "{p \<in> set (pqMap r). fst p \<notin> fst ` set (pqMap r)} = {}" by blast
  show "pqMap (rs_drain r) = []" using d unfolding e by simp
qed (simp add: rs_drain_def)

lemma sum_update:
  "gm_wf m \<Longrightarrow> (\<Sum>p \<leftarrow> AList.update k v m. pq_tasks (snd p)) + (case map_of m k of None \<Rightarrow> {#} | Some w \<Rightarrow> pq_tasks w) =
     (\<Sum>p \<leftarrow> m. pq_tasks (snd p)) + pq_tasks v"
proof (induction m)
  case (Cons p m)
  then show ?case by (cases p; cases "fst p = k") (simp_all add: add_ac)
qed simp

text \<open>A task that is handed over is held, unless the rescheduler has been stopped.\<close>

lemma rs_RescheduleTask_exact:
  assumes "rs_wf r"
  shows "rs_wf (rs_RescheduleTask env t time r)"
    and "\<not> rs_isStopped r \<Longrightarrow> rs_tasks (rs_RescheduleTask env t time r) = add_mset (ht_Task t) (rs_tasks r)"
proof -
  let ?key = "(GetDomainID (ht_Task t), rv_Priority env t)" and ?x = "\<lparr>rt_task = t, rescheduleTime = time\<rparr>"
  obtain pq r1 where g: "getOrCreatePQLocked ?key r = (pq, r1)" by force
  define m where "m = AList.update ?key (pq_Add rescheduledTaskCompareLess ?x pq) (pqMap r1)"
  have r1: "gm_wf (pqMap r1)" "map_of (pqMap r1) ?key = Some pq" "rs_tasks r1 = rs_tasks r"
    "numExecutables r1 = numExecutables r" "rs_isStopped r1 = rs_isStopped r"
    using g assms sum_update [of "pqMap r" ?key "rs_newPriorityQueue []"]
    by (auto simp: getOrCreatePQLocked_def rs_wf_def rs_tasks_def rs_isStopped_def rs_newPriorityQueue_def
        NewPriorityQueue_def update_conv' Let_def split: option.splits)
  have "(\<Sum>p \<leftarrow> m. pq_tasks (snd p)) = add_mset (ht_Task t) (rs_tasks r)"
    using sum_update [OF r1(1), of ?key "pq_Add rescheduledTaskCompareLess ?x pq"] r1(2,3)
    by (simp add: m_def rs_tasks_def pq_Add_mset)
  then show "\<not> rs_isStopped r \<Longrightarrow> rs_tasks (rs_RescheduleTask env t time r) = add_mset (ht_Task t) (rs_tasks r)"
    and "rs_wf (rs_RescheduleTask env t time r)"
    using g r1 assms by (auto simp: rs_RescheduleTask_def Let_def m_def [symmetric] rs_isStopped_def rs_tasks_def rs_wf_def
        rs_drain_empty) (simp_all add: m_def)
qed

lemma cleanupPQ_exact: "rs_wf r \<Longrightarrow> rs_wf (cleanupPQ r) \<and> rs_tasks (cleanupPQ r) = rs_tasks r"
proof -
  have "(\<Sum>p \<leftarrow> filter (\<lambda>(key, pq). \<not> pq_IsEmpty pq) m. pq_tasks (snd p)) = (\<Sum>p \<leftarrow> m. pq_tasks (snd p))"
    for m :: "(string \<times> int, rescheduledTask list) gomap"
    by (induction m) (auto simp: pq_IsEmpty_def)
  then show "rs_wf r \<Longrightarrow> ?thesis" by (simp add: rs_wf_def rs_tasks_def cleanupPQ_def)
qed

end
