(* ===== verification/Version_History.thy ===== *)
theory Version_History
  imports Cadence_Prelude
begin

text \<open>
  Version histories (\<open>common/persistence/versionHistory.go\<close>): the branches of the history of a
  replicated workflow, as lists of the last event of every version.

  A method that modifies its receiver returns the new one. A pointer argument that may be nil is an
  option. A panic is an error of the form \<open>Panic\<close>.

  \<open>vh_wf\<close>: event IDs and versions increase strictly; the operations keep it.
\<close>

definition EmptyVersion :: int where
  "EmptyVersion = -24"

definition FirstEventID :: int where
  "FirstEventID = 1"

record vh_item =
  EventID :: int
  Version :: int

record version_history =
  BranchToken :: "nat list"
  Items :: "vh_item list"

record version_histories =
  CurrentVersionHistoryIndex :: int
  Histories :: "version_history list"

text \<open>The structs of \<open>common/types\<close>.\<close>

record t_VersionHistoryItem =
  t_EventID :: int
  t_Version :: int

record t_VersionHistory =
  t_BranchToken :: "nat list"
  t_Items :: "t_VersionHistoryItem option list"

record t_VersionHistories =
  t_CurrentVersionHistoryIndex :: int
  t_Histories :: "t_VersionHistory option list"

section \<open>Items\<close>

definition NewVersionHistoryItem :: "int \<Rightarrow> int \<Rightarrow> vh_item result" where
  "NewVersionHistoryItem inputEventID inputVersion =
     (if inputEventID < 0 \<or> (inputVersion < 0 \<and> inputVersion \<noteq> EmptyVersion)
      then Err (Panic ''invalid version history item event ID: %v, version: %v'' [inputEventID, inputVersion])
      else Ok \<lparr>EventID = inputEventID, Version = inputVersion\<rparr>)"

definition NewVersionHistoryItemFromInternalType :: "t_VersionHistoryItem option \<Rightarrow> vh_item option result" where
  "NewVersionHistoryItemFromInternalType input =
     (case input of None \<Rightarrow> Ok None
      | Some i \<Rightarrow> rbind (NewVersionHistoryItem (t_EventID i) (t_Version i)) (\<lambda>x. Ok (Some x)))"

definition item_Duplicate :: "vh_item \<Rightarrow> vh_item result" where
  "item_Duplicate item = NewVersionHistoryItem (EventID item) (Version item)"

definition item_ToInternalType :: "vh_item \<Rightarrow> t_VersionHistoryItem" where
  "item_ToInternalType item = \<lparr>t_EventID = EventID item, t_Version = Version item\<rparr>"

definition item_Equals :: "vh_item \<Rightarrow> vh_item \<Rightarrow> bool" where
  "item_Equals item input \<longleftrightarrow> Version item = Version input \<and> EventID item = EventID input"

section \<open>Version histories\<close>

definition AddOrUpdateItem :: "vh_item \<Rightarrow> version_history \<Rightarrow> version_history result" where
  "AddOrUpdateItem item v =
     (if length (Items v) = 0 then rbind (item_Duplicate item) (\<lambda>i. Ok (v\<lparr>Items := [i]\<rparr>))
      else
        let lastItem = last (Items v) in
        if Version item < Version lastItem then
          Err (BadRequestError ''cannot update version history with a lower version %v. Last version: %v''
            [Version item, Version lastItem])
        else if EventID item \<le> EventID lastItem then
          Err (BadRequestError ''cannot add version history with a lower event id %v. Last event id: %v''
            [EventID item, EventID lastItem])
        else if Version item > Version lastItem then
          rbind (item_Duplicate item) (\<lambda>i. Ok (v\<lparr>Items := Items v @ [i]\<rparr>))
        else Ok (v\<lparr>Items := butlast (Items v) @ [lastItem\<lparr>EventID := EventID item\<rparr>]\<rparr>))"

fun add_items :: "vh_item list \<Rightarrow> version_history \<Rightarrow> version_history result" where
  "add_items [] v = Ok v"
| "add_items (item # items) v =
     rbind (item_Duplicate item) (\<lambda>i.
       case AddOrUpdateItem i v of
         Inl err \<Rightarrow> Err (Panic ''unable to initialize version history: %v'' [])
       | Inr v' \<Rightarrow> add_items items v')"

definition NewVersionHistory :: "nat list \<Rightarrow> vh_item list \<Rightarrow> version_history result" where
  "NewVersionHistory inputToken inputItems = add_items inputItems \<lparr>BranchToken = inputToken, Items = []\<rparr>"

text \<open>A nil item of the input is dereferenced, which panics.\<close>

definition NewVersionHistoryFromInternalType :: "t_VersionHistory option \<Rightarrow> version_history option result" where
  "NewVersionHistoryFromInternalType input =
     (case input of None \<Rightarrow> Ok None
      | Some h \<Rightarrow>
          rbind (rmap NewVersionHistoryItemFromInternalType (t_Items h)) (\<lambda>items.
          if None \<in> set items then Err (Panic ''nil pointer dereference'' [])
          else rbind (NewVersionHistory (t_BranchToken h) (map the items)) (\<lambda>v. Ok (Some v))))"

definition vh_Duplicate :: "version_history \<Rightarrow> version_history result" where
  "vh_Duplicate v = NewVersionHistory (BranchToken v) (Items v)"

definition vh_ToInternalType :: "version_history \<Rightarrow> t_VersionHistory" where
  "vh_ToInternalType v =
     \<lparr>t_BranchToken = BranchToken v, t_Items = map (\<lambda>i. Some (item_ToInternalType i)) (Items v)\<rparr>"

definition lca_not_found :: go_error where
  "lca_not_found = BadRequestError ''version history does not contains the LCA item.'' []"

fun duplicate_until :: "vh_item \<Rightarrow> vh_item list \<Rightarrow> version_history \<Rightarrow> version_history result" where
  "duplicate_until lcaItem [] h = Err lca_not_found"
| "duplicate_until lcaItem (item # items) h =
     (if Version item < Version lcaItem then
        rbind (AddOrUpdateItem item h) (\<lambda>h'. duplicate_until lcaItem items h')
      else if Version item = Version lcaItem then
        (if EventID lcaItem > EventID item then Err lca_not_found else AddOrUpdateItem lcaItem h)
      else Err lca_not_found)"

definition DuplicateUntilLCAItem :: "vh_item \<Rightarrow> version_history \<Rightarrow> version_history result" where
  "DuplicateUntilLCAItem lcaItem v =
     rbind (NewVersionHistory [] []) (\<lambda>h. duplicate_until lcaItem (Items v) h)"

definition SetBranchToken :: "nat list \<Rightarrow> version_history \<Rightarrow> version_history" where
  "SetBranchToken inputToken v = v\<lparr>BranchToken := inputToken\<rparr>"

definition GetBranchToken :: "version_history \<Rightarrow> nat list" where
  "GetBranchToken v = BranchToken v"

fun contains_loop :: "vh_item \<Rightarrow> int \<Rightarrow> vh_item list \<Rightarrow> bool" where
  "contains_loop item prevEventID [] = False"
| "contains_loop item prevEventID (currentItem # items) =
     (if Version item = Version currentItem then
        (if prevEventID < EventID item \<and> EventID item \<le> EventID currentItem then True
         else contains_loop item (EventID currentItem) items)
      else if Version item < Version currentItem then False
      else contains_loop item (EventID currentItem) items)"

definition ContainsItem :: "vh_item \<Rightarrow> version_history \<Rightarrow> bool" where
  "ContainsItem item v = contains_loop item (FirstEventID - 1) (Items v)"

text \<open>The two indices run from the end of the lists to their beginning.\<close>

fun find_lca :: "vh_item list \<Rightarrow> vh_item list \<Rightarrow> vh_item result" where
  "find_lca (l # ls) (r # rs) =
     (if Version l = Version r then
        (if EventID l > EventID r then item_Duplicate r else item_Duplicate l)
      else if Version l > Version r then find_lca ls (r # rs)
      else find_lca (l # ls) rs)"
| "find_lca _ _ = Err (BadRequestError ''version history is malformed. No joint point found.'' [])"

definition FindLCAItem :: "version_history \<Rightarrow> version_history \<Rightarrow> vh_item result" where
  "FindLCAItem v remote = find_lca (rev (Items v)) (rev (Items remote))"

definition IsLCAAppendable :: "vh_item option \<Rightarrow> version_history \<Rightarrow> bool result" where
  "IsLCAAppendable item v =
     (if length (Items v) = 0 then Err (Panic ''version history not initialized'' [])
      else case item of None \<Rightarrow> Err (Panic ''version history item is null'' [])
        | Some i \<Rightarrow> Ok (last (Items v) = i))"

definition GetFirstItem :: "version_history \<Rightarrow> vh_item result" where
  "GetFirstItem v =
     (if length (Items v) = 0 then Err (BadRequestError ''version history is empty.'' [])
      else item_Duplicate (hd (Items v)))"

definition GetLastItem :: "version_history \<Rightarrow> vh_item result" where
  "GetLastItem v =
     (if length (Items v) = 0 then Err (BadRequestError ''version history is empty'' [])
      else item_Duplicate (last (Items v)))"

fun event_version_loop :: "int \<Rightarrow> vh_item list \<Rightarrow> int result" where
  "event_version_loop eventID [] = Err (BadRequestError ''input event ID is not in range.'' [])"
| "event_version_loop eventID (currentItem # items) =
     (if eventID \<le> EventID currentItem then Ok (Version currentItem) else event_version_loop eventID items)"

definition GetEventVersion :: "int \<Rightarrow> version_history \<Rightarrow> int result" where
  "GetEventVersion eventID v =
     rbind (GetLastItem v) (\<lambda>lastItem.
     if eventID < FirstEventID \<or> eventID > EventID lastItem
     then Err (BadRequestError ''input event ID is not in range.'' [])
     else event_version_loop eventID (Items v))"

definition vh_IsEmpty :: "version_history \<Rightarrow> bool" where
  "vh_IsEmpty v \<longleftrightarrow> length (Items v) = 0"

definition vh_Equals :: "version_history \<Rightarrow> version_history \<Rightarrow> bool" where
  "vh_Equals v input \<longleftrightarrow> BranchToken v = BranchToken input \<and> length (Items v) = length (Items input) \<and>
     list_all2 item_Equals (Items v) (Items input)"

section \<open>The branches of a workflow\<close>

definition NewVersionHistories :: "version_history option \<Rightarrow> version_histories option" where
  "NewVersionHistories versionHistory =
     map_option (\<lambda>v. \<lparr>CurrentVersionHistoryIndex = 0, Histories = [v]\<rparr>) versionHistory"

definition GetVersionHistory :: "int \<Rightarrow> version_histories \<Rightarrow> version_history result" where
  "GetVersionHistory branchIndex h =
     (if branchIndex < 0 \<or> branchIndex \<ge> int (length (Histories h))
      then Err (BadRequestError ''getting branch index: %d, available branch count: %d''
        [branchIndex, int (length (Histories h))])
      else Ok (Histories h ! nat branchIndex))"

definition AddVersionHistory :: "version_history option \<Rightarrow> version_histories \<Rightarrow> (bool \<times> int \<times> version_histories) result" where
  "AddVersionHistory v h =
     (case v of None \<Rightarrow> Err (BadRequestError ''version histories is null.'' [])
      | Some v \<Rightarrow>
          rbind (GetFirstItem v) (\<lambda>incomingFirstItem.
          rbind (GetVersionHistory (CurrentVersionHistoryIndex h) h) (\<lambda>currentVersionHistory.
          rbind (GetFirstItem currentVersionHistory) (\<lambda>currentFirstItem.
          if Version incomingFirstItem \<noteq> Version currentFirstItem
          then Err (BadRequestError ''version history first item does not match.'' [])
          else
            rbind (vh_Duplicate v) (\<lambda>newVersionHistory.
            let h1 = h\<lparr>Histories := Histories h @ [newVersionHistory]\<rparr>;
                newVersionHistoryIndex = int (length (Histories h1)) - 1 in
            rbind (GetLastItem newVersionHistory) (\<lambda>newLastItem.
            rbind (GetLastItem currentVersionHistory) (\<lambda>currentLastItem.
            if Version newLastItem > Version currentLastItem
            then Ok (True, newVersionHistoryIndex, h1\<lparr>CurrentVersionHistoryIndex := newVersionHistoryIndex\<rparr>)
            else Ok (False, newVersionHistoryIndex, h1))))))))"

fun add_histories :: "t_VersionHistory option list \<Rightarrow> version_histories \<Rightarrow> version_histories result" where
  "add_histories [] h = Ok h"
| "add_histories (input # inputs) h =
     rbind (NewVersionHistoryFromInternalType input) (\<lambda>v.
       case AddVersionHistory v h of
         Inl err \<Rightarrow> Err (Panic ''unable to initialize version histories: %v'' [])
       | Inr (_, _, h') \<Rightarrow> add_histories inputs h')"

text \<open>\<open>NewVersionHistories\<close> of a nil first history is nil, on which the code panics later.\<close>

definition NewVersionHistoriesFromInternalType :: "t_VersionHistories option \<Rightarrow> version_histories option result" where
  "NewVersionHistoriesFromInternalType input =
     (case input of None \<Rightarrow> Ok None
      | Some t \<Rightarrow>
          (case t_Histories t of
             [] \<Rightarrow> Err (Panic ''version histories cannot have empty'' [])
           | t0 # ts \<Rightarrow>
               rbind (NewVersionHistoryFromInternalType t0) (\<lambda>v0.
               case NewVersionHistories v0 of
                 None \<Rightarrow> Err (Panic ''nil pointer dereference'' [])
               | Some h0 \<Rightarrow>
                   rbind (add_histories ts h0) (\<lambda>h.
                   if t_CurrentVersionHistoryIndex t \<noteq> CurrentVersionHistoryIndex h
                   then Err (Panic ''unable to initialize version histories: current index mismatch'' [])
                   else Ok (Some h)))))"

definition vhs_Duplicate :: "version_histories option \<Rightarrow> version_histories option result" where
  "vhs_Duplicate h =
     (case h of None \<Rightarrow> Ok None
      | Some h \<Rightarrow>
          rbind (rmap vh_Duplicate (Histories h)) (\<lambda>histories.
          Ok (Some \<lparr>CurrentVersionHistoryIndex = CurrentVersionHistoryIndex h, Histories = histories\<rparr>)))"

definition to_int32 :: "int \<Rightarrow> int" where
  "to_int32 x = (x + 2 ^ 31) mod 2 ^ 32 - 2 ^ 31"

definition vhs_ToInternalType :: "version_histories \<Rightarrow> t_VersionHistories" where
  "vhs_ToInternalType h =
     \<lparr>t_CurrentVersionHistoryIndex = to_int32 (CurrentVersionHistoryIndex h),
      t_Histories = map (\<lambda>v. Some (vh_ToInternalType v)) (Histories h)\<rparr>"

text \<open>The accumulator holds the index, the length and the item of the best branch so far.\<close>

fun lca_loop ::
  "version_history \<Rightarrow> nat \<Rightarrow> version_history list \<Rightarrow> (int \<times> nat \<times> vh_item option) \<Rightarrow> (int \<times> vh_item option) result" where
  "lca_loop incoming index [] (i, n, best) = Ok (i, best)"
| "lca_loop incoming index (localHistory # hs) (i, n, best) =
     rbind (FindLCAItem localHistory incoming) (\<lambda>item.
       let better = (case best of None \<Rightarrow> True
             | Some b \<Rightarrow> EventID item > EventID b \<or>
                 (EventID item = EventID b \<and> length (Items localHistory) < n)) in
       if better then lca_loop incoming (Suc index) hs (int index, length (Items localHistory), Some item)
       else lca_loop incoming (Suc index) hs (i, n, best))"

definition FindLCAVersionHistoryIndexAndItem ::
  "version_history \<Rightarrow> version_histories \<Rightarrow> (int \<times> vh_item option) result" where
  "FindLCAVersionHistoryIndexAndItem incomingHistory h = lca_loop incomingHistory 0 (Histories h) (0, 0, None)"

fun find_first_loop :: "vh_item \<Rightarrow> nat \<Rightarrow> version_history list \<Rightarrow> (int \<times> version_history) result" where
  "find_first_loop item index [] = Err (BadRequestError ''version histories does not contains given item.'' [])"
| "find_first_loop item index (localHistory # hs) =
     (if ContainsItem item localHistory then Ok (int index, localHistory)
      else find_first_loop item (Suc index) hs)"

definition FindFirstVersionHistoryByItem :: "vh_item \<Rightarrow> version_histories \<Rightarrow> (int \<times> version_history) result" where
  "FindFirstVersionHistoryByItem item h = find_first_loop item 0 (Histories h)"

definition GetCurrentVersionHistoryIndex :: "version_histories \<Rightarrow> int" where
  "GetCurrentVersionHistoryIndex h = CurrentVersionHistoryIndex h"

definition GetCurrentVersionHistory :: "version_histories \<Rightarrow> version_history result" where
  "GetCurrentVersionHistory h = GetVersionHistory (GetCurrentVersionHistoryIndex h) h"

fun rebuilt_loop :: "vh_item \<Rightarrow> version_history list \<Rightarrow> bool result" where
  "rebuilt_loop currentLastItem [] = Ok False"
| "rebuilt_loop currentLastItem (versionHistory # hs) =
     rbind (GetLastItem versionHistory) (\<lambda>lastItem.
     if Version lastItem > Version currentLastItem then Ok True else rebuilt_loop currentLastItem hs)"

definition IsRebuilt :: "version_histories \<Rightarrow> bool result" where
  "IsRebuilt h =
     rbind (GetCurrentVersionHistory h) (\<lambda>currentVersionHistory.
     rbind (GetLastItem currentVersionHistory) (\<lambda>currentLastItem.
     rebuilt_loop currentLastItem (Histories h)))"

definition SetCurrentVersionHistoryIndex :: "int \<Rightarrow> version_histories \<Rightarrow> version_histories result" where
  "SetCurrentVersionHistoryIndex index h =
     (if index < 0 \<or> index \<ge> int (length (Histories h))
      then Err (BadRequestError ''invalid current branch index.'' [])
      else Ok (h\<lparr>CurrentVersionHistoryIndex := index\<rparr>))"

end
