(* ===== verification/Version_History_Inv.thy ===== *)
theory Version_History_Inv
  imports Version_History
begin

text \<open>
  Well-formed version histories and what the operations promise of them: copying is the identity,
  an item is contained exactly when its event has its version, and the lowest common ancestor of
  two histories is the last point they share.
\<close>

definition valid_item :: "vh_item \<Rightarrow> bool" where
  "valid_item i \<longleftrightarrow> 0 \<le> EventID i \<and> (0 \<le> Version i \<or> Version i = EmptyVersion)"

definition items_sorted :: "vh_item list \<Rightarrow> bool" where
  "items_sorted is \<longleftrightarrow> sorted_wrt (\<lambda>a b. EventID a < EventID b \<and> Version a < Version b) is"

definition vh_wf :: "version_history \<Rightarrow> bool" where
  "vh_wf v \<longleftrightarrow> (\<forall>i \<in> set (Items v). valid_item i) \<and> items_sorted (Items v)"

lemma items_sorted_simps [simp]:
  "items_sorted []"
  "items_sorted (i # is) \<longleftrightarrow> (\<forall>j \<in> set is. EventID i < EventID j \<and> Version i < Version j) \<and> items_sorted is"
  "items_sorted (xs @ ys) \<longleftrightarrow> items_sorted xs \<and> items_sorted ys \<and>
     (\<forall>x \<in> set xs. \<forall>y \<in> set ys. EventID x < EventID y \<and> Version x < Version y)"
  by (auto simp: items_sorted_def sorted_wrt_append)

lemma item_Duplicate_valid [simp]: "valid_item i \<Longrightarrow> item_Duplicate i = Ok i"
  by (auto simp: valid_item_def item_Duplicate_def NewVersionHistoryItem_def)

section \<open>Adding items\<close>

lemma AddOrUpdateItem_wf:
  assumes wf: "vh_wf v" and i: "valid_item item" and r: "AddOrUpdateItem item v = Ok v'"
  shows "vh_wf v'" "last (Items v') = item" "Items v' \<noteq> []" "BranchToken v' = BranchToken v"
proof -
  have "vh_wf v' \<and> last (Items v') = item \<and> Items v' \<noteq> [] \<and> BranchToken v' = BranchToken v"
  proof (cases "Items v" rule: rev_cases)
    case Nil
    then show ?thesis using i r by (auto simp: AddOrUpdateItem_def vh_wf_def)
  next
    case (snoc xs l)
    have w: "\<forall>x \<in> set xs. valid_item x \<and> EventID x < EventID l \<and> Version x < Version l" "valid_item l"
      "items_sorted xs"
      using wf snoc by (auto simp: vh_wf_def)
    consider "Version item = Version l" "EventID l < EventID item"
        "v' = v\<lparr>Items := xs @ [l\<lparr>EventID := EventID item\<rparr>]\<rparr>"
      | "Version l < Version item" "EventID l < EventID item" "v' = v\<lparr>Items := xs @ [l, item]\<rparr>"
      using r i snoc by (auto simp: AddOrUpdateItem_def Let_def split: if_splits)
    then show ?thesis
    proof cases
      case 1
      then have "l\<lparr>EventID := EventID item\<rparr> = item" by simp
      then show ?thesis using w 1 i by (auto simp: vh_wf_def valid_item_def)
    next
      case 2
      then show ?thesis using w i by (auto simp: vh_wf_def)
    qed
  qed
  then show "vh_wf v'" "last (Items v') = item" "Items v' \<noteq> []" "BranchToken v' = BranchToken v"
    by simp_all
qed

lemma AddOrUpdateItem_append:
  assumes "valid_item x" "\<forall>y \<in> set ys. EventID y < EventID x \<and> Version y < Version x"
  shows "AddOrUpdateItem x \<lparr>BranchToken = tok, Items = ys\<rparr> = Ok \<lparr>BranchToken = tok, Items = ys @ [x]\<rparr>"
proof (cases ys rule: rev_cases)
  case (snoc zs l)
  then have "EventID l < EventID x" "Version l < Version x" using assms(2) by simp_all
  then show ?thesis using assms(1) snoc by (simp add: AddOrUpdateItem_def Let_def)
qed (use assms in \<open>simp add: AddOrUpdateItem_def\<close>)

lemma add_items_wf:
  assumes "items_sorted (ys @ xs)" "\<forall>x \<in> set xs. valid_item x"
  shows "add_items xs \<lparr>BranchToken = tok, Items = ys\<rparr> = Ok \<lparr>BranchToken = tok, Items = ys @ xs\<rparr>"
  using assms
proof (induction xs arbitrary: ys)
  case (Cons x xs)
  have "AddOrUpdateItem x \<lparr>BranchToken = tok, Items = ys\<rparr> = Ok \<lparr>BranchToken = tok, Items = ys @ [x]\<rparr>"
    using Cons.prems by (intro AddOrUpdateItem_append) auto
  then show ?case using Cons.IH [of "ys @ [x]"] Cons.prems by auto
qed simp

lemma vh_Duplicate_id: "vh_wf v \<Longrightarrow> vh_Duplicate v = Ok v"
  using add_items_wf [of "[]" "Items v" "BranchToken v"]
  by (simp add: vh_Duplicate_def NewVersionHistory_def vh_wf_def)

lemma history_roundtrip:
  assumes "vh_wf v"
  shows "NewVersionHistoryFromInternalType (Some (vh_ToInternalType v)) = Ok (Some v)"
proof -
  have it: "NewVersionHistoryItemFromInternalType (Some (item_ToInternalType i)) = Ok (Some i)"
    if "valid_item i" for i
    using item_Duplicate_valid [OF that]
    by (simp add: NewVersionHistoryItemFromInternalType_def item_ToInternalType_def item_Duplicate_def)
  have "rmap NewVersionHistoryItemFromInternalType (map (\<lambda>i. Some (item_ToInternalType i)) is) = Ok (map Some is)"
    if "\<forall>i \<in> set is. valid_item i" for "is"
    using that it by (induction "is") auto
  then have "rmap NewVersionHistoryItemFromInternalType (t_Items (vh_ToInternalType v)) = Ok (map Some (Items v))"
    using assms by (simp add: vh_ToInternalType_def vh_wf_def)
  moreover have "NewVersionHistory (BranchToken v) (Items v) = Ok v"
    using vh_Duplicate_id [OF assms] by (simp add: vh_Duplicate_def)
  ultimately show ?thesis
    by (simp add: NewVersionHistoryFromInternalType_def vh_ToInternalType_def comp_def)
qed

section \<open>Lookup\<close>

lemma event_version_loop_Ok: "event_version_loop e is = Ok w \<Longrightarrow> \<exists>i \<in> set is. Version i = w"
  by (induction "is") (auto split: if_splits)

lemma event_version_loop_below: "\<forall>i \<in> set is. w < Version i \<Longrightarrow> event_version_loop e is \<noteq> Ok w"
  using event_version_loop_Ok by fastforce

lemma contains_loop_above: "\<forall>i \<in> set is. Version x < Version i \<Longrightarrow> \<not> contains_loop x p is"
  by (cases "is") auto

lemma contains_loop_iff:
  assumes "items_sorted is" "\<forall>i \<in> set is. prev < EventID i"
  shows "contains_loop x prev is \<longleftrightarrow> prev < EventID x \<and> event_version_loop (EventID x) is = Ok (Version x)"
  using assms
proof (induction "is" arbitrary: prev)
  case (Cons c "is")
  have IH: "contains_loop x (EventID c) is \<longleftrightarrow>
      EventID c < EventID x \<and> event_version_loop (EventID x) is = Ok (Version x)"
    using Cons.prems by (intro Cons.IH) auto
  have up: "Version x \<le> Version c \<Longrightarrow> event_version_loop (EventID x) is \<noteq> Ok (Version x)"
    using Cons.prems by (intro event_version_loop_below) force
  have ab: "Version x \<le> Version c \<Longrightarrow> \<not> contains_loop x (EventID c) is"
    using Cons.prems by (intro contains_loop_above) force
  show ?case
    using Cons.prems(2) IH up ab by (cases "Version x" "Version c" rule: linorder_cases) auto
qed simp

lemma last_greatest: "items_sorted is \<Longrightarrow> i \<in> set is \<Longrightarrow> EventID i \<le> EventID (last is)"
  by (cases "is" rule: rev_cases) (auto simp: less_imp_le)

lemma event_version_loop_range: "event_version_loop e is = Ok w \<Longrightarrow> \<exists>i \<in> set is. e \<le> EventID i"
  by (induction "is") (auto split: if_splits)

lemma ContainsItem_GetEventVersion:
  assumes wf: "vh_wf v" and pos: "\<forall>i \<in> set (Items v). FirstEventID \<le> EventID i"
  shows "ContainsItem x v \<longleftrightarrow> GetEventVersion (EventID x) v = Ok (Version x)"
proof (cases "Items v = []")
  case True
  then show ?thesis by (simp add: ContainsItem_def GetEventVersion_def GetLastItem_def)
next
  case False
  then have l: "GetLastItem v = Ok (last (Items v))"
    using wf by (simp add: GetLastItem_def vh_wf_def)
  have "EventID x \<le> EventID (last (Items v))" if "event_version_loop (EventID x) (Items v) = Ok (Version x)"
    using event_version_loop_range [OF that] last_greatest [of "Items v"] wf order_trans
    by (fastforce simp: vh_wf_def)
  moreover have "ContainsItem x v \<longleftrightarrow> FirstEventID - 1 < EventID x \<and>
      event_version_loop (EventID x) (Items v) = Ok (Version x)"
    unfolding ContainsItem_def using wf pos by (intro contains_loop_iff) (auto simp: vh_wf_def)
  ultimately show ?thesis by (auto simp: GetEventVersion_def l)
qed

section \<open>The lowest common ancestor\<close>

text \<open>\<open>x\<close> is the last point that the items \<open>is\<close> and \<open>js\<close> have in common.\<close>

definition is_lca :: "vh_item list \<Rightarrow> vh_item list \<Rightarrow> vh_item \<Rightarrow> bool" where
  "is_lca is js x \<longleftrightarrow> (\<exists>l \<in> set is. \<exists>r \<in> set js. Version l = Version r \<and>
     x = (if EventID r < EventID l then r else l) \<and>
     (\<forall>a \<in> set is. \<forall>b \<in> set js. Version a = Version b \<longrightarrow> Version a \<le> Version l))"

lemma is_lca_drop:
  assumes "is_lca ls js x" "\<And>b. b \<in> set js \<Longrightarrow> Version l \<noteq> Version b"
  shows "is_lca (l # ls) js x"
  using assms unfolding is_lca_def by (simp add: ball_Un)

lemma is_lca_drop2:
  assumes "is_lca is rs x" "\<And>a. a \<in> set is \<Longrightarrow> Version r \<noteq> Version a"
  shows "is_lca is (r # rs) x"
proof -
  obtain l q where lq: "l \<in> set is" "q \<in> set rs" "Version l = Version q"
    "x = (if EventID q < EventID l then q else l)"
    "\<forall>a \<in> set is. \<forall>b \<in> set rs. Version a = Version b \<longrightarrow> Version a \<le> Version l"
    using assms(1) unfolding is_lca_def by blast
  have "\<forall>a \<in> set is. \<forall>b \<in> set (r # rs). Version a = Version b \<longrightarrow> Version a \<le> Version l"
    using lq(5) assms(2) by fastforce
  then show ?thesis unfolding is_lca_def using lq(1-4) by (intro bexI [of _ l] bexI [of _ q]) simp_all
qed

lemma find_lca_spec:
  assumes "sorted_wrt (\<lambda>a b. Version b < Version a) ls" "sorted_wrt (\<lambda>a b. Version b < Version a) rs"
    and "\<forall>i \<in> set ls \<union> set rs. valid_item i"
  shows "case find_lca ls rs of Inl e \<Rightarrow> \<forall>a \<in> set ls. \<forall>b \<in> set rs. Version a \<noteq> Version b
    | Inr x \<Rightarrow> is_lca ls rs x"
  using assms
proof (induction ls rs rule: find_lca.induct)
  case (1 l ls r rs)
  consider "Version l = Version r" | "Version r < Version l" | "Version l < Version r" by linarith
  then show ?case
  proof cases
    case c: 1
    have "is_lca (l # ls) (r # rs) (if EventID r < EventID l then r else l)"
      unfolding is_lca_def using 1(3,4) c by (intro bexI [of _ l] bexI [of _ r]) auto
    then show ?thesis using c 1(5) by auto
  next
    case c: 2
    have "Version l \<noteq> Version b" if "b \<in> set (r # rs)" for b using 1(4) c that by auto
    note ne = this
    have "is_lca (l # ls) (r # rs) x" if "is_lca ls (r # rs) x" for x
      by (rule is_lca_drop [OF that ne])
    then show ?thesis using 1(1) 1(3-5) c ne by (auto split: sum.splits)
  next
    case c: 3
    have "Version r \<noteq> Version a" if "a \<in> set (l # ls)" for a using 1(3) c that by auto
    note ne = this
    have lca: "is_lca (l # ls) (r # rs) x" if "is_lca (l # ls) rs x" for x
      by (rule is_lca_drop2 [OF that ne])
    have IH: "case find_lca (l # ls) rs of Inl e \<Rightarrow> \<forall>a \<in> set (l # ls). \<forall>b \<in> set rs. Version a \<noteq> Version b
        | Inr x \<Rightarrow> is_lca (l # ls) rs x"
      using 1(2) 1(3-5) c by simp
    have "find_lca (l # ls) (r # rs) = find_lca (l # ls) rs" using c by simp
    moreover have "Version a \<noteq> Version r" if "a \<in> set (l # ls)" for a using ne [OF that] by simp
    ultimately show ?thesis
      using IH lca by (cases "find_lca (l # ls) rs") (auto simp del: find_lca.simps)
  qed
qed auto

lemma rev_sorted: "items_sorted is \<Longrightarrow> sorted_wrt (\<lambda>a b. Version b < Version a) (rev is)"
  by (induction "is") (auto simp: sorted_wrt_append)

lemma FindLCAItem_spec:
  assumes "vh_wf v" "vh_wf r"
  shows "case FindLCAItem v r of Inl e \<Rightarrow> \<forall>a \<in> set (Items v). \<forall>b \<in> set (Items r). Version a \<noteq> Version b
    | Inr x \<Rightarrow> is_lca (Items v) (Items r) x"
  unfolding FindLCAItem_def
  using find_lca_spec [OF rev_sorted [of "Items v"] rev_sorted [of "Items r"]] assms
  by (cases "find_lca (rev (Items v)) (rev (Items r))") (simp_all add: vh_wf_def is_lca_def ball_Un)

section \<open>Copying up to the ancestor\<close>

lemma duplicate_until_Ok:
  assumes "items_sorted (acc @ is)" "\<forall>i \<in> set is. valid_item i" "valid_item x"
    and "\<forall>y \<in> set acc. EventID y \<le> prev \<and> Version y < Version x"
    and "contains_loop x prev is"
  shows "duplicate_until x is \<lparr>BranchToken = tok, Items = acc\<rparr> =
    Ok \<lparr>BranchToken = tok, Items = acc @ takeWhile (\<lambda>i. Version i < Version x) is @ [x]\<rparr>"
  using assms
proof (induction "is" arbitrary: acc prev)
  case (Cons c "is")
  show ?case
  proof (cases "Version c < Version x")
    case True
    have a: "AddOrUpdateItem c \<lparr>BranchToken = tok, Items = acc\<rparr> = Ok \<lparr>BranchToken = tok, Items = acc @ [c]\<rparr>"
      using Cons.prems by (intro AddOrUpdateItem_append) auto
    have "\<forall>y \<in> set (acc @ [c]). EventID y \<le> EventID c \<and> Version y < Version x"
      using Cons.prems(1,4) True by (auto simp: less_imp_le)
    then show ?thesis
      using Cons.IH [of "acc @ [c]" "EventID c"] Cons.prems True a by auto
  next
    case False
    have nl: "\<not> contains_loop x (EventID c) is"
      using Cons.prems(1) False by (intro contains_loop_above) fastforce
    then have c: "Version c = Version x" "prev < EventID x" "EventID x \<le> EventID c"
      using Cons.prems(5) False by (auto split: if_splits)
    have "AddOrUpdateItem x \<lparr>BranchToken = tok, Items = acc\<rparr> = Ok \<lparr>BranchToken = tok, Items = acc @ [x]\<rparr>"
      using Cons.prems(3,4) c(2) by (intro AddOrUpdateItem_append) fastforce+
    then show ?thesis using c by simp
  qed
qed simp

lemma DuplicateUntilLCAItem_Ok:
  assumes "vh_wf v" "valid_item x" "ContainsItem x v"
  shows "DuplicateUntilLCAItem x v =
    Ok \<lparr>BranchToken = [], Items = takeWhile (\<lambda>i. Version i < Version x) (Items v) @ [x]\<rparr>"
  using assms duplicate_until_Ok [of "[]" "Items v" x "FirstEventID - 1" "[]"]
  by (simp add: DuplicateUntilLCAItem_def NewVersionHistory_def ContainsItem_def vh_wf_def)

section \<open>The current branch\<close>

text \<open>Adding a branch makes it the current one exactly if its last version is greater.\<close>

lemma AddVersionHistory_Ok:
  assumes "AddVersionHistory (Some v) h = Ok (changed, i, h')" "vh_wf v" "\<forall>x \<in> set (Histories h). vh_wf x"
  shows "Histories h' = Histories h @ [v]" "i = int (length (Histories h))"
    "CurrentVersionHistoryIndex h' = (if changed then i else CurrentVersionHistoryIndex h)"
    "changed \<longleftrightarrow> Version (last (Items v)) >
       Version (last (Items (Histories h ! nat (CurrentVersionHistoryIndex h))))"
proof -
  have idx: "\<not> (CurrentVersionHistoryIndex h < 0 \<or> CurrentVersionHistoryIndex h \<ge> int (length (Histories h)))"
    using assms(1) by (auto simp: AddVersionHistory_def GetVersionHistory_def rbind_eq_Inr_iff split: if_splits)
  let ?c = "Histories h ! nat (CurrentVersionHistoryIndex h)"
  have wc: "vh_wf ?c" using assms(3) idx by (auto simp: nat_less_iff)
  have ne: "Items v \<noteq> []" "Items ?c \<noteq> []"
    using assms(1) idx
    by (auto simp: AddVersionHistory_def GetVersionHistory_def GetFirstItem_def rbind_eq_Inr_iff split: if_splits)
  then have f: "GetFirstItem v = Ok (hd (Items v))" "GetLastItem v = Ok (last (Items v))"
    "GetFirstItem ?c = Ok (hd (Items ?c))" "GetLastItem ?c = Ok (last (Items ?c))"
    using assms(2) wc by (simp_all add: GetFirstItem_def GetLastItem_def vh_wf_def)
  have "Histories h' = Histories h @ [v] \<and> i = int (length (Histories h)) \<and>
      CurrentVersionHistoryIndex h' = (if changed then i else CurrentVersionHistoryIndex h) \<and>
      (changed \<longleftrightarrow> Version (last (Items v)) > Version (last (Items ?c)))"
    using assms(1) idx
    by (simp add: AddVersionHistory_def GetVersionHistory_def f vh_Duplicate_id [OF assms(2)] Let_def
        split: if_splits)
      auto
  then show "Histories h' = Histories h @ [v]" "i = int (length (Histories h))"
    "CurrentVersionHistoryIndex h' = (if changed then i else CurrentVersionHistoryIndex h)"
    "changed \<longleftrightarrow> Version (last (Items v)) > Version (last (Items ?c))" by simp_all
qed

end
