(* ===== verification/Workflow_State.thy ===== *)
theory Workflow_State
  imports Cadence_Prelude
begin

text \<open>
  The states of a workflow execution: the transitions allowed by
  \<open>common/persistence/workflow_execution_info.go\<close> and the checks of
  \<open>common/persistence/workflowStateCloseStatusValidator.go\<close>. States and close statuses are
  integers in the code, so an argument may be any integer.

  \<open>execution_reach\<close> is what the updates can reach from a new execution.
\<close>

section \<open>Constants\<close>

definition WorkflowStateCreated :: int where "WorkflowStateCreated = 0"
definition WorkflowStateRunning :: int where "WorkflowStateRunning = 1"
definition WorkflowStateCompleted :: int where "WorkflowStateCompleted = 2"
definition WorkflowStateZombie :: int where "WorkflowStateZombie = 3"
definition WorkflowStateVoid :: int where "WorkflowStateVoid = 4"
definition WorkflowStateCorrupted :: int where "WorkflowStateCorrupted = 5"

definition WorkflowCloseStatusNone :: int where "WorkflowCloseStatusNone = 0"
definition WorkflowCloseStatusCompleted :: int where "WorkflowCloseStatusCompleted = 1"
definition WorkflowCloseStatusFailed :: int where "WorkflowCloseStatusFailed = 2"
definition WorkflowCloseStatusCanceled :: int where "WorkflowCloseStatusCanceled = 3"
definition WorkflowCloseStatusTerminated :: int where "WorkflowCloseStatusTerminated = 4"
definition WorkflowCloseStatusContinuedAsNew :: int where "WorkflowCloseStatusContinuedAsNew = 5"
definition WorkflowCloseStatusTimedOut :: int where "WorkflowCloseStatusTimedOut = 6"

lemmas workflow_states =
  WorkflowStateCreated_def WorkflowStateRunning_def WorkflowStateCompleted_def
  WorkflowStateZombie_def WorkflowStateVoid_def WorkflowStateCorrupted_def

lemmas close_statuses =
  WorkflowCloseStatusNone_def WorkflowCloseStatusCompleted_def WorkflowCloseStatusFailed_def
  WorkflowCloseStatusCanceled_def WorkflowCloseStatusTerminated_def
  WorkflowCloseStatusContinuedAsNew_def WorkflowCloseStatusTimedOut_def

lemma distinct_states [simp]:
  "WorkflowStateCreated \<noteq> WorkflowStateRunning"
  "WorkflowStateCreated \<noteq> WorkflowStateCompleted"
  "WorkflowStateCreated \<noteq> WorkflowStateZombie"
  "WorkflowStateCreated \<noteq> WorkflowStateVoid"
  "WorkflowStateCreated \<noteq> WorkflowStateCorrupted"
  "WorkflowStateRunning \<noteq> WorkflowStateCreated"
  "WorkflowStateRunning \<noteq> WorkflowStateCompleted"
  "WorkflowStateRunning \<noteq> WorkflowStateZombie"
  "WorkflowStateRunning \<noteq> WorkflowStateVoid"
  "WorkflowStateRunning \<noteq> WorkflowStateCorrupted"
  "WorkflowStateCompleted \<noteq> WorkflowStateCreated"
  "WorkflowStateCompleted \<noteq> WorkflowStateRunning"
  "WorkflowStateCompleted \<noteq> WorkflowStateZombie"
  "WorkflowStateCompleted \<noteq> WorkflowStateVoid"
  "WorkflowStateCompleted \<noteq> WorkflowStateCorrupted"
  "WorkflowStateZombie \<noteq> WorkflowStateCreated"
  "WorkflowStateZombie \<noteq> WorkflowStateRunning"
  "WorkflowStateZombie \<noteq> WorkflowStateCompleted"
  "WorkflowStateZombie \<noteq> WorkflowStateVoid"
  "WorkflowStateZombie \<noteq> WorkflowStateCorrupted"
  "WorkflowStateVoid \<noteq> WorkflowStateCreated"
  "WorkflowStateVoid \<noteq> WorkflowStateRunning"
  "WorkflowStateVoid \<noteq> WorkflowStateCompleted"
  "WorkflowStateVoid \<noteq> WorkflowStateZombie"
  "WorkflowStateVoid \<noteq> WorkflowStateCorrupted"
  "WorkflowStateCorrupted \<noteq> WorkflowStateCreated"
  "WorkflowStateCorrupted \<noteq> WorkflowStateRunning"
  "WorkflowStateCorrupted \<noteq> WorkflowStateCompleted"
  "WorkflowStateCorrupted \<noteq> WorkflowStateZombie"
  "WorkflowStateCorrupted \<noteq> WorkflowStateVoid"
  by (simp_all add: workflow_states)

lemma distinct_close_statuses [simp]:
  "WorkflowCloseStatusCompleted \<noteq> WorkflowCloseStatusNone"
  "WorkflowCloseStatusFailed \<noteq> WorkflowCloseStatusNone"
  "WorkflowCloseStatusCanceled \<noteq> WorkflowCloseStatusNone"
  "WorkflowCloseStatusTerminated \<noteq> WorkflowCloseStatusNone"
  "WorkflowCloseStatusContinuedAsNew \<noteq> WorkflowCloseStatusNone"
  "WorkflowCloseStatusTimedOut \<noteq> WorkflowCloseStatusNone"
  by (simp_all add: close_statuses)

section \<open>Validation\<close>

definition validWorkflowStates :: "int set" where
  "validWorkflowStates = {WorkflowStateCreated, WorkflowStateRunning, WorkflowStateCompleted,
     WorkflowStateZombie, WorkflowStateCorrupted}"

definition validWorkflowCloseStatuses :: "int set" where
  "validWorkflowCloseStatuses = {WorkflowCloseStatusNone, WorkflowCloseStatusCompleted,
     WorkflowCloseStatusFailed, WorkflowCloseStatusCanceled, WorkflowCloseStatusTerminated,
     WorkflowCloseStatusContinuedAsNew, WorkflowCloseStatusTimedOut}"

definition validateWorkflowState :: "int \<Rightarrow> unit result" where
  "validateWorkflowState state =
     (if state \<notin> validWorkflowStates
      then Err (InternalServiceError ''Invalid workflow state: %v'' [state]) else Ok ())"

definition validateWorkflowCloseStatus :: "int \<Rightarrow> unit result" where
  "validateWorkflowCloseStatus closeStatus =
     (if closeStatus \<notin> validWorkflowCloseStatuses
      then Err (InternalServiceError ''Invalid workflow close status: %v'' [closeStatus]) else Ok ())"

definition ValidateCreateWorkflowStateCloseStatus :: "int \<Rightarrow> int \<Rightarrow> unit result" where
  "ValidateCreateWorkflowStateCloseStatus state closeStatus =
     rbind (validateWorkflowState state) (\<lambda>_.
     rbind (validateWorkflowCloseStatus closeStatus) (\<lambda>_.
     if state = WorkflowStateCompleted \<or> closeStatus \<noteq> WorkflowCloseStatusNone
     then Err (InternalServiceError ''Create workflow with invalid state: %v or close status: %v''
       [state, closeStatus])
     else Ok ()))"

definition ValidateUpdateWorkflowStateCloseStatus :: "int \<Rightarrow> int \<Rightarrow> unit result" where
  "ValidateUpdateWorkflowStateCloseStatus state closeStatus =
     rbind (validateWorkflowState state) (\<lambda>_.
     rbind (validateWorkflowCloseStatus closeStatus) (\<lambda>_.
     if closeStatus = WorkflowCloseStatusNone then
       (if state = WorkflowStateCompleted
        then Err (InternalServiceError ''Update workflow with invalid state: %v or close status: %v''
          [state, closeStatus])
        else Ok ())
     else
       (if state \<noteq> WorkflowStateCompleted
        then Err (InternalServiceError ''Update workflow with invalid state: %v or close status: %v''
          [state, closeStatus])
        else Ok ())))"

datatype WorkflowExecutionCloseStatus =
    ExecCompleted | ExecFailed | ExecCanceled | ExecTerminated | ExecContinuedAsNew | ExecTimedOut

definition ToInternalWorkflowExecutionCloseStatus :: "int \<Rightarrow> WorkflowExecutionCloseStatus option result" where
  "ToInternalWorkflowExecutionCloseStatus closeStatus =
     (if closeStatus = WorkflowCloseStatusNone then Ok None
      else if closeStatus = WorkflowCloseStatusCompleted then Ok (Some ExecCompleted)
      else if closeStatus = WorkflowCloseStatusFailed then Ok (Some ExecFailed)
      else if closeStatus = WorkflowCloseStatusCanceled then Ok (Some ExecCanceled)
      else if closeStatus = WorkflowCloseStatusTerminated then Ok (Some ExecTerminated)
      else if closeStatus = WorkflowCloseStatusContinuedAsNew then Ok (Some ExecContinuedAsNew)
      else if closeStatus = WorkflowCloseStatusTimedOut then Ok (Some ExecTimedOut)
      else Err (Panic ''Invalid value for enum WorkflowExecutionCloseStatus'' []))"

fun FromInternalWorkflowExecutionCloseStatus :: "WorkflowExecutionCloseStatus option \<Rightarrow> int" where
  "FromInternalWorkflowExecutionCloseStatus None = WorkflowCloseStatusNone"
| "FromInternalWorkflowExecutionCloseStatus (Some ExecCompleted) = WorkflowCloseStatusCompleted"
| "FromInternalWorkflowExecutionCloseStatus (Some ExecFailed) = WorkflowCloseStatusFailed"
| "FromInternalWorkflowExecutionCloseStatus (Some ExecCanceled) = WorkflowCloseStatusCanceled"
| "FromInternalWorkflowExecutionCloseStatus (Some ExecTerminated) = WorkflowCloseStatusTerminated"
| "FromInternalWorkflowExecutionCloseStatus (Some ExecContinuedAsNew) = WorkflowCloseStatusContinuedAsNew"
| "FromInternalWorkflowExecutionCloseStatus (Some ExecTimedOut) = WorkflowCloseStatusTimedOut"

section \<open>Transitions\<close>

record execution_info =
  State :: int
  CloseStatus :: int
  NextEventID :: int
  LastFirstEventID :: int

definition SetNextEventID :: "int \<Rightarrow> execution_info \<Rightarrow> execution_info" where
  "SetNextEventID i e = e\<lparr>NextEventID := i\<rparr>"

definition IncreaseNextEventID :: "execution_info \<Rightarrow> execution_info" where
  "IncreaseNextEventID e = e\<lparr>NextEventID := wrap64 (NextEventID e + 1)\<rparr>"

definition SetLastFirstEventID :: "int \<Rightarrow> execution_info \<Rightarrow> execution_info" where
  "SetLastFirstEventID i e = e\<lparr>LastFirstEventID := i\<rparr>"

definition createInvalidStateTransitionErr :: "int \<Rightarrow> int \<Rightarrow> int \<Rightarrow> go_error" where
  "createInvalidStateTransitionErr currentState targetState targetCloseStatus =
     InternalServiceError ''unable to change workflow state from %v to %v, close status %v''
       [currentState, targetState, targetCloseStatus]"

definition unknown_state :: "int \<Rightarrow> go_error" where
  "unknown_state state = InternalServiceError ''unknown workflow state: %v'' [state]"

text \<open>The nested switch: \<open>None\<close> is that the transition is allowed.\<close>

definition transition_err :: "int \<Rightarrow> int \<Rightarrow> int \<Rightarrow> int \<Rightarrow> go_error option" where
  "transition_err cur curClose state closeStatus =
     (let invalid = Some (createInvalidStateTransitionErr cur state closeStatus);
          none = WorkflowCloseStatusNone in
      if cur = WorkflowStateVoid then None
      else if cur = WorkflowStateCreated then
        (if state = WorkflowStateCreated then (if closeStatus \<noteq> none then invalid else None)
         else if state = WorkflowStateRunning then (if closeStatus \<noteq> none then invalid else None)
         else if state = WorkflowStateCompleted then
           (if closeStatus \<noteq> WorkflowCloseStatusTerminated \<and> closeStatus \<noteq> WorkflowCloseStatusTimedOut \<and>
               closeStatus \<noteq> WorkflowCloseStatusContinuedAsNew then invalid else None)
         else if state = WorkflowStateZombie then (if closeStatus \<noteq> none then invalid else None)
         else Some (unknown_state state))
      else if cur = WorkflowStateRunning then
        (if state = WorkflowStateCreated then invalid
         else if state = WorkflowStateRunning then (if closeStatus \<noteq> none then invalid else None)
         else if state = WorkflowStateCompleted then (if closeStatus = none then invalid else None)
         else if state = WorkflowStateZombie then (if closeStatus \<noteq> none then invalid else None)
         else Some (unknown_state state))
      else if cur = WorkflowStateCompleted then
        (if state = WorkflowStateCreated then invalid
         else if state = WorkflowStateRunning then invalid
         else if state = WorkflowStateCompleted then (if closeStatus \<noteq> curClose then invalid else None)
         else if state = WorkflowStateZombie then invalid
         else Some (unknown_state state))
      else if cur = WorkflowStateZombie then
        (if state = WorkflowStateCreated then (if closeStatus \<noteq> none then invalid else None)
         else if state = WorkflowStateRunning then (if closeStatus \<noteq> none then invalid else None)
         else if state = WorkflowStateCompleted then (if closeStatus = none then invalid else None)
         else if state = WorkflowStateZombie then (if closeStatus = none then invalid else None)
         else Some (unknown_state state))
      else Some (unknown_state state))"

definition UpdateWorkflowStateCloseStatus :: "int \<Rightarrow> int \<Rightarrow> execution_info \<Rightarrow> execution_info result" where
  "UpdateWorkflowStateCloseStatus state closeStatus e =
     (case transition_err (State e) (CloseStatus e) state closeStatus of
        Some err \<Rightarrow> Err err
      | None \<Rightarrow> Ok (e\<lparr>State := state, CloseStatus := closeStatus\<rparr>))"

definition IsRunning :: "execution_info \<Rightarrow> bool result" where
  "IsRunning e =
     (if State e = WorkflowStateCreated then Ok True
      else if State e = WorkflowStateRunning then Ok True
      else if State e = WorkflowStateCompleted then Ok False
      else if State e = WorkflowStateZombie then Ok False
      else if State e = WorkflowStateCorrupted then Ok False
      else Err (Panic ''unknown workflow state: %v'' [State e]))"

section \<open>Reachable states\<close>

inductive execution_reach :: "execution_info \<Rightarrow> execution_info \<Rightarrow> bool" for e0 where
  start: "execution_reach e0 e0"
| update: "execution_reach e0 e \<Longrightarrow> UpdateWorkflowStateCloseStatus s c e = Ok e' \<Longrightarrow> execution_reach e0 e'"
| next_event: "execution_reach e0 e \<Longrightarrow> execution_reach e0 (IncreaseNextEventID e)"

inductive_cases execution_reachE: "execution_reach e0 e"

text \<open>The transitions that are allowed.\<close>

lemma transition_allowed:
  "transition_err cur cc s c = None \<longleftrightarrow>
     cur = WorkflowStateVoid \<or>
     cur = WorkflowStateCreated \<and>
       (s \<in> {WorkflowStateCreated, WorkflowStateRunning, WorkflowStateZombie} \<and> c = WorkflowCloseStatusNone \<or>
        s = WorkflowStateCompleted \<and> c \<in> {WorkflowCloseStatusTerminated, WorkflowCloseStatusTimedOut,
          WorkflowCloseStatusContinuedAsNew}) \<or>
     cur = WorkflowStateRunning \<and>
       (s \<in> {WorkflowStateRunning, WorkflowStateZombie} \<and> c = WorkflowCloseStatusNone \<or>
        s = WorkflowStateCompleted \<and> c \<noteq> WorkflowCloseStatusNone) \<or>
     cur = WorkflowStateCompleted \<and> s = WorkflowStateCompleted \<and> c = cc \<or>
     cur = WorkflowStateZombie \<and>
       (s \<in> {WorkflowStateCreated, WorkflowStateRunning} \<and> c = WorkflowCloseStatusNone \<or>
        s \<in> {WorkflowStateCompleted, WorkflowStateZombie} \<and> c \<noteq> WorkflowCloseStatusNone)"
  unfolding transition_err_def Let_def
  by (cases "cur = WorkflowStateVoid"; cases "cur = WorkflowStateCreated"; cases "cur = WorkflowStateRunning";
      cases "cur = WorkflowStateCompleted"; cases "cur = WorkflowStateZombie"; simp)

lemma Update_Ok_iff:
  "UpdateWorkflowStateCloseStatus s c e = Ok e' \<longleftrightarrow>
     transition_err (State e) (CloseStatus e) s c = None \<and> e' = e\<lparr>State := s, CloseStatus := c\<rparr>"
  by (auto simp: UpdateWorkflowStateCloseStatus_def split: option.splits)

text \<open>A closed execution stays closed, with the same close status.\<close>

lemma completed_final:
  assumes "execution_reach e0 e" "State e0 = WorkflowStateCompleted"
  shows "State e = WorkflowStateCompleted \<and> CloseStatus e = CloseStatus e0"
  using assms
proof (induction rule: execution_reach.induct)
  case (update e s c e')
  then show ?case
    by (auto simp: Update_Ok_iff transition_allowed)
qed (auto simp: IncreaseNextEventID_def)

text \<open>
  An execution that started in a valid state stays in one: it is completed exactly if it has a
  close status, unless it is a zombie.
\<close>

definition execution_ok :: "execution_info \<Rightarrow> bool" where
  "execution_ok e \<longleftrightarrow>
     State e \<in> {WorkflowStateCreated, WorkflowStateRunning, WorkflowStateCompleted, WorkflowStateZombie} \<and>
     (State e = WorkflowStateZombie \<or>
      (State e = WorkflowStateCompleted \<longleftrightarrow> CloseStatus e \<noteq> WorkflowCloseStatusNone))"

lemma execution_ok_update:
  assumes "execution_ok e" "UpdateWorkflowStateCloseStatus s c e = Ok e'"
  shows "execution_ok e'"
proof -
  have e: "e' = e\<lparr>State := s, CloseStatus := c\<rparr>" and t: "transition_err (State e) (CloseStatus e) s c = None"
    using assms(2) by (simp_all add: Update_Ok_iff)
  consider "State e = WorkflowStateCreated" | "State e = WorkflowStateRunning"
    | "State e = WorkflowStateCompleted" "CloseStatus e \<noteq> WorkflowCloseStatusNone" | "State e = WorkflowStateZombie"
    using assms(1) by (auto simp: execution_ok_def)
  then show ?thesis
    unfolding e using t by cases (auto simp: execution_ok_def transition_allowed)
qed

lemma execution_ok_reach: "execution_reach e0 e \<Longrightarrow> execution_ok e0 \<Longrightarrow> execution_ok e"
proof (induction rule: execution_reach.induct)
  case (update e s c e')
  then show ?case by (intro execution_ok_update [OF _ update.hyps(2)]) simp
next
  case (next_event e)
  then show ?case by (simp add: IncreaseNextEventID_def execution_ok_def)
qed simp

text \<open>What an update accepts passes the validation of the store, zombies excepted.\<close>

lemma update_validated:
  assumes "UpdateWorkflowStateCloseStatus s c e = Ok e'" "execution_ok e"
    and "c \<in> validWorkflowCloseStatuses" "s \<noteq> WorkflowStateZombie"
  shows "ValidateUpdateWorkflowStateCloseStatus s c = Ok ()"
proof -
  have "State e' = s" "CloseStatus e' = c" using assms(1) by (simp_all add: Update_Ok_iff)
  then have "s \<in> validWorkflowStates" "s = WorkflowStateCompleted \<longleftrightarrow> c \<noteq> WorkflowCloseStatusNone"
    using execution_ok_update [OF assms(2,1)] assms(4) by (auto simp: execution_ok_def validWorkflowStates_def)
  then show ?thesis
    using assms(3)
    by (simp add: ValidateUpdateWorkflowStateCloseStatus_def validateWorkflowState_def
        validateWorkflowCloseStatus_def)
qed

lemma close_status_roundtrip:
  "ToInternalWorkflowExecutionCloseStatus (FromInternalWorkflowExecutionCloseStatus c) = Ok c"
  by (cases c rule: FromInternalWorkflowExecutionCloseStatus.cases)
    (simp_all add: ToInternalWorkflowExecutionCloseStatus_def close_statuses)

text \<open>A zombie can be updated to a zombie only with a close status, which the store then refuses.\<close>

lemma zombie_update_refused:
  assumes "State e = WorkflowStateZombie" "c \<in> validWorkflowCloseStatuses"
    and "UpdateWorkflowStateCloseStatus WorkflowStateZombie c e = Ok e'"
  shows "ValidateUpdateWorkflowStateCloseStatus (State e') (CloseStatus e') \<noteq> Ok ()"
  using assms
  by (auto simp: Update_Ok_iff transition_allowed
      ValidateUpdateWorkflowStateCloseStatus_def validateWorkflowState_def validateWorkflowCloseStatus_def
      validWorkflowStates_def)

end
