(* ===== verification/Spec2Isabelle.thy ===== *)
theory Spec2Isabelle
  imports Cache_Properties Tasklist_Properties New_Tasks Slice_Drain Task_Rescheduler Version_History_Inv Workflow_State
begin

text \<open>
  Verification of the task queues of the history service (\<open>service/history/queuev2\<close>), with the
  parts of the persistence layer they rest on, of the task lists of the matching service
  (\<open>service/matching/tasklist\<close>) with their store and the acknowledgement manager they share with the
  Kafka consumer, and of two data structures of \<open>common/persistence\<close>: version histories and the
  workflow state machine.

  \<^bold>\<open>The program.\<close> A history shard stores the tasks of each category in a table, ordered by task key.
  A queue reads them in key order and hands them to a processor. What is still to be processed is
  described by virtual slices, each a range of keys with a predicate on tasks, its tracked tasks and
  its reading progress. Virtual queues hold slices in order and load them page by page; a manager
  holds the virtual queues. A monitor counts the tracked tasks and raises an alert when there are too
  many; a mitigator then splits slices by domain, clears them and moves them to other queues. The
  queue periodically updates its state, deletes the stored tasks below the acknowledgement level and
  persists the state.

  A matching host owns a task list by a lease: a range ID in the table that each lease increases and
  that conditions every write. The range also gives the host a block of task IDs. Its writer persists
  batches of tasks, its reader pumps them into buffers and hands them to pollers, and an ack manager
  turns completions in any order into an ack level, up to which a garbage collector deletes. A task
  that a poller could not start is written back under a new ID. Another host may take the list over
  at any time.

  \<^bold>\<open>Theories.\<close>
  \<^item> \<open>Cadence_Prelude\<close>: errors, Go maps as association lists, 64-bit wrap-around.
  \<^item> \<open>Task_Key\<close> (\<open>persistence/tasks.go\<close>, \<open>history/task/task.go\<close>): keys, their order, tasks.
  \<^item> \<open>Predicates\<close> (\<open>predicate.go\<close>, \<open>predicate_operation.go\<close>).
  \<^item> \<open>Queue_State\<close> (\<open>range.go\<close>, \<open>queue_state.go\<close>, \<open>convert.go\<close>): ranges, states, persisted form.
  \<^item> \<open>Task_Tracker\<close> (\<open>pending_task_tracker.go\<close>).
  \<^item> \<open>Task_Store\<close>, \<open>Queue_Reader\<close> (\<open>sql_execution_store.go\<close>, \<open>mysql/execution.go\<close>,
    \<open>queue_reader.go\<close>): the immediate task tables and the reading of pages.
  \<^item> \<open>Virtual_Slice\<close>, \<open>Slice_Merge\<close> (\<open>virtual_slice.go\<close>); \<open>Slice_Invariant\<close>, \<open>Slice_Split\<close> and
    \<open>Slice_Merge_Inv\<close> prove the invariant of slices for reading, updating, splitting and merging,
    \<open>Slice_Drain\<close> that repeated reading leaves nothing unread.
  \<^item> \<open>Queue_Monitor\<close> (\<open>monitor.go\<close>, \<open>alert.go\<close>, \<open>pause_controller.go\<close>).
  \<^item> \<open>Virtual_Queue\<close> (\<open>virtual_queue.go\<close>); \<open>Virtual_Queue_Inv\<close> and \<open>Virtual_Queue_Ops\<close> prove its
    operations.
  \<^item> \<open>Queue_Manager\<close> (\<open>virtual_queue_manager.go\<close>), \<open>Queue_Mitigator\<close> (\<open>mitigator.go\<close>,
    \<open>common/collection/priority_queue.go\<close>).
  \<^item> \<open>Task_Rescheduler\<close> (\<open>history/task/rescheduler.go\<close>): the tasks the processor did not accept.
  \<^item> \<open>History_Queue\<close> (\<open>queue_base.go\<close>, \<open>queue_immediate.go\<close>, \<open>queue_scheduled.go\<close>);
    \<open>History_Queue_Inv\<close> proves the safety of deletion, \<open>New_Tasks\<close> that of the admission of new tasks.
  \<^item> \<open>Mem_Queue\<close> (\<open>queue_mem.go\<close>): the sorted queue in memory.
  \<^item> \<open>Cached_Reader\<close> (\<open>queue_reader_cached_base.go\<close>, \<open>queue_reader_cached_immediate.go\<close>,
    \<open>queue_reader_cached_scheduled.go\<close>): the caching readers; \<open>Cached_Reader_Inv\<close> proves that the
    window of the transfer queue's cache is exact and that reading through a cache satisfies the
    contract \<open>queue_reader\<close>. \<open>Scheduled_Cache\<close> puts the timer queue's cache into a system of steps,
    in which a prefetch overlaps with all other operations, and proves its invariant; \<open>Cache_Gaps\<close>
    shows what happens in the cases its steps exclude.
  \<^item> \<open>Cached_Queue\<close> (\<open>queue_cached.go\<close>): queues with a caching reader.
  \<^item> \<open>Version_History\<close>, \<open>Version_History_Inv\<close> (\<open>versionHistory.go\<close>).
  \<^item> \<open>Workflow_State\<close> (\<open>workflow_execution_info.go\<close>, \<open>workflowStateCloseStatusValidator.go\<close>).
  \<^item> \<open>Ack_Manager\<close> (\<open>common/messaging/ackManager.go\<close>, \<open>kafka/partition_ack_manager.go\<close>): the ack
    manager, with the contract \<open>ack_tracker\<close> its clients rely on.
  \<^item> \<open>Tasklist_Store\<close> (\<open>sql_task_store.go\<close>, \<open>mysql/task.go\<close>) and \<open>Tasklist_Host\<close> (\<open>db.go\<close>,
    \<open>task_writer.go\<close>, \<open>task_gc.go\<close>, \<open>task_reader.go\<close>): the store and one host. \<open>Tasklist_Lease\<close> has
    the lemmas on leases and task IDs; \<open>Tasklist_System\<close> runs any number of hosts as a sequence of
    events; \<open>Tasklist_Inv\<close>, \<open>Tasklist_Steps\<close> and \<open>Tasklist_Safety\<close> have the invariant of a run and
    its proof, \<open>Tasklist_Properties\<close> the properties and their sample data.
  \<^item> \<open>Sample_Data\<close>, \<open>Sample_Queue\<close>, \<open>Sample_Cache\<close>: the concrete values at which the properties are
    applied. \<open>Cache_Properties\<close> has the properties of the caches, this theory those of the other
    parts of the history queues.

  \<^bold>\<open>Correspondence.\<close> A struct is a record and a method a function on it that returns the new record.
  Errors and panics are values of \<open>go_error\<close>. The identity of a slice object is its \<open>sid\<close>; operations
  that allocate slices take and return the next free one. An element of a Go list is given by the
  slice it holds, or is \<open>Removed\<close>. Times are nanoseconds. Code outside the repository and the
  effects of other goroutines (processor, rescheduler, clock, rate limiter, timer gate, order of map
  iteration) are arguments.

  \<^bold>\<open>What is shown.\<close> C1, C2: deletion from the history queues is safe. C3 to C6: virtual queues. C7 to
  C10 and C27: slices, with the liveness of reading in C27. C11 to C14 and C19: matching task lists,
  for every interleaving of hosts and every fault of a database call, with C15 to C18 for their parts.
  C20 to C25: the caches and the queues that use them. C26: the admission of new tasks. C28: the
  rescheduler. C29: the persisted state. C30: the queue manager. C31: predicates. C32 to C34: version
  histories. C35: workflow states. C36: the Kafka partition manager. C37 to C40: where the code falls
  short. The theorems without a number are further properties of the same parts; those of the last
  section again show where the code falls short. The set \<open>todo\<close> in the statements is the set of
  stored tasks that are still to be processed.

  \<^bold>\<open>Loops.\<close> No fuel is used. The loops that depend on the store are partial functions with value
  \<open>None\<close> for a run that does not return, and they are shown to return; all others are total.

  \<^bold>\<open>Restrictions.\<close> The properties of reading and of deletion are for the
  transfer table of the SQL store; the timer cache is proved against the contract of a reader
  (\<open>reads_page\<close>). The caches assume that tasks are stored and injected in one step, as
  the shard does under its lock, that the tasks of a shard have different keys and, for the transfer
  queue, that new tasks have greater keys. Merging assumes slices with a non-empty range, and
  splitting by key that a progress that reaches below the slice ends with it. That the mitigator
  keeps the invariant of the queue is not shown, nor that an update keeps the condition of merging:
  it raises the lower bound of a slice and keeps the start of its progress.

  A query of the SQL store of the history tasks, the decoding of a row and a deletion may fail in any
  call; which calls fail is a part of the modelled database. A deletion that fails has no effect, so a
  deletion whose reply is lost is not covered. The size of a page is not negative: for a negative one
  the code panics.

  A run of a task list starts with a list that does not exist yet and does not delete the list's row
  (\<open>DeleteTaskList\<close>, which the scavenger of idle lists calls, would let a range be granted twice). The
  database is MySQL, which has no TTL. A call to it happens at once, or not at all, and its reply may
  be lost; a write that takes effect after its caller has gone on is not covered. Task IDs are integers
  without bound: the default range size reaches 64 bits after more than ten to the thirteenth leases.
  \<open>RangeSize\<close> and \<open>ReadRangeSize\<close> are assumed positive.

  Some steps are coarser than the code's. One step each are: \<open>LeaseTaskList\<close>, although the code reads
  or inserts the row before the transaction that locks it; a round of the writer of a task list
  (\<open>taskWriterLoop\<close>), with all its lease renewals and the write of the batch; a round of its reader
  (\<open>getTasksPump\<close>), with up to ten reads and the update of the levels; the start of a prefetch of the
  timer cache (\<open>prefetch_begin\<close>), although the code releases its lock between reading the bounds and
  setting the target. Other hosts and goroutines run between these steps, not within them.

  \<^bold>\<open>Not modelled.\<close> The matcher, forwarding and pollers of the matching service;
  locks, metrics and logging; the execution and retry of tasks; the timer table, whose page token is
  JSON; the NoSQL stores; the other services and the tools.
\<close>

section \<open>The history queue\<close>

text \<open>
  C1: Updating the state of a transfer queue is safe and ends. It always returns, whatever the
  batch size of the deletion is; every task that is still to be processed is still in the store
  afterwards, is in the scope of a slice or above the admitted keys, and lies at or above the
  acknowledgement level. The level never moves back, and the timer for the next update is armed.
\<close>

theorem updateQueueState_deletes_only_processed:
  assumes "env_complete env = RangeCompleteHistoryTask sch"
    and "qb_category q = HistoryTaskCategoryTransfer"
    and "sql_store_ok (d, env_shardID env)" "todo \<subseteq> shard_tasks (transfer_tasks d) (env_shardID env)"
    and "queue_inv immediate_key sql_pos_ok todo q"
  shows "\<exists>d' q'. updateQueueState env d q = Some (d', q') \<and>
    todo \<subseteq> shard_tasks (transfer_tasks d') (env_shardID env) \<and>
    queue_inv immediate_key sql_pos_ok todo q' \<and> updateTimerArmed q' \<and>
    exclusiveAckLevel q \<le> exclusiveAckLevel q'"
  using assms by (rule updateQueueState_safe)

theorem updateQueueState_deletes_only_processed_witness:
  "\<exists>d' q'. updateQueueState sample_env (fst sample_db) sample_base = Some (d', q') \<and>
    sample_task ''a'' 10 \<in> shard_tasks (transfer_tasks d') 1 \<and>
    queue_inv immediate_key sql_pos_ok {sample_task ''a'' 10} q' \<and>
    NewImmediateTaskKey 0 \<le> exclusiveAckLevel q'"
proof -
  have db: "(fst sample_db, env_shardID sample_env) = sample_db" "env_shardID sample_env = 1"
    by (simp_all add: sample_db_def sample_env_def)
  have td: "{sample_task ''a'' 10} \<subseteq> shard_tasks (transfer_tasks (fst sample_db)) (env_shardID sample_env)"
    using sample_tasks by (simp add: sample_db_def sample_env_def)
  have ok: "sql_store_ok (fst sample_db, env_shardID sample_env)" using sample_db_ok db(1) by simp
  have ec: "env_complete sample_env = RangeCompleteHistoryTask (\<lambda>_ _ _. Err (PersistenceError ''not available''))"
    by (simp add: sample_env_def)
  obtain d' q' where "updateQueueState sample_env (fst sample_db) sample_base = Some (d', q')"
    "{sample_task ''a'' 10} \<subseteq> shard_tasks (transfer_tasks d') (env_shardID sample_env)"
    "queue_inv immediate_key sql_pos_ok {sample_task ''a'' 10} q'"
    "exclusiveAckLevel sample_base \<le> exclusiveAckLevel q'"
    using updateQueueState_deletes_only_processed
      [OF ec sample_base_simps(6) ok td sample_queue_inv]
    by blast
  then show ?thesis using db(2) by auto
qed

text \<open>
  C26: Admitting new tasks loses nothing. It keeps the invariant of the queue and the order of the
  root queue, whether the new slice is appended or merged with the last one; if something was
  admitted, every task to be processed below the new bound is in the scope of a slice, and otherwise
  nothing has changed.
\<close>

theorem processNewTasks_keeps_todo:
  assumes "queue_inv immediate_key sql_pos_ok todo q" "admission_inv immediate_key sql_pos_ok todo q"
    and "immediate_key k" "k = new_max_key (qb_category q) (env_maxReadLevel env)"
    and "processNewTasks env q = (b, q')"
  shows "queue_inv immediate_key sql_pos_ok todo q' \<and> admission_inv immediate_key sql_pos_ok todo q' \<and>
    (b \<longrightarrow> qb_new_lo q' = k \<and> (\<forall>t \<in> todo. GetTaskKey t < k \<longrightarrow> in_scope (qb_slices q') t)) \<and>
    (\<not> b \<longrightarrow> q' = q)"
  using processNewTasks_admits [OF sql_reader.reader_keys assms] .

theorem processNewTasks_keeps_todo_witness:
  "\<exists>b q'. processNewTasks sample_env sample_base = (b, q') \<and>
    queue_inv immediate_key sql_pos_ok {sample_task ''a'' 10} q' \<and>
    admission_inv immediate_key sql_pos_ok {sample_task ''a'' 10} q'"
proof -
  obtain b q' where r: "processNewTasks sample_env sample_base = (b, q')" by force
  have "root_slices sample_base = [sample_slice]" "qb_free sample_base = 2"
    by (simp_all add: root_slices_def rootQueueID_def) (simp add: sample_base_def)
  then have adm: "admission_inv immediate_key sql_pos_ok {sample_task ''a'' 10} sample_base"
    using sample_slices_ok(1) by (simp add: admission_inv_def sample_slice_simps sample_state_def)
  have "new_max_key (qb_category sample_base) (env_maxReadLevel sample_env) = NewImmediateTaskKey 151"
    by (simp add: new_max_key_def sample_env_def NewImmediateTaskKey_def wrap64_def)
  then have "immediate_key (new_max_key (qb_category sample_base) (env_maxReadLevel sample_env))"
    by (simp add: immediate_key_New MaxInt64_def)
  then show ?thesis using processNewTasks_keeps_todo [OF sample_queue_inv adm _ refl r] r by blast
qed

text \<open>
  C2: The acknowledgement level of a queue state is the least of its maximum read level and the
  first keys of its non-empty virtual queues.
\<close>

theorem ack_level_is_minimum:
  "fst (getExclusiveAckLevelAndMaxQueueIDFromQueueState st) =
     Min (insert (ExclusiveMaxReadLevel st)
       {InclusiveMinTaskKey (ss_Range (hd ss)) | ss. ss \<in> snd ` set (VirtualQueueStates st) \<and> ss \<noteq> []})"
  by (rule ack_level_Min)

section \<open>Virtual queues\<close>

text \<open>
  C3: Merging slices into a virtual queue loses nothing and keeps it in order. If the slices of
  the queue and the incoming ones are each sorted without overlap, satisfy the slice invariant and
  have no read progress below their ranges, then the same holds of the result, and a task is in
  the scope of the result exactly if it was in the scope of one of them.
\<close>

theorem MergeSlices_keeps_scope:
  assumes "slices_ok immediate_key sql_pos_ok todo n (virtualSlices q)"
    and "slices_ok immediate_key sql_pos_ok todo n ss"
    and "sid ` set (virtualSlices q) \<inter> sid ` set ss = {}"
    and "MergeSlices n ss q m = (q', m', n')"
  shows "slices_ok immediate_key sql_pos_ok todo n' (virtualSlices q') \<and>
    (\<forall>t. in_scope (virtualSlices q') t \<longleftrightarrow> in_scope (virtualSlices q) t \<or> in_scope ss t)"
  using MergeSlices_ok [OF sql_reader.reader_keys assms] by blast

theorem MergeSlices_keeps_scope_witness:
  "slices_ok immediate_key sql_pos_ok {sample_task ''a'' 10}
     (snd (snd (MergeSlices 2 [sample_slice2] sample_vq sample_monitor)))
     (virtualSlices (fst (MergeSlices 2 [sample_slice2] sample_vq sample_monitor))) \<and>
   in_scope (virtualSlices (fst (MergeSlices 2 [sample_slice2] sample_vq sample_monitor))) (sample_task ''a'' 10)"
proof -
  obtain q' m' n' where r: "MergeSlices 2 [sample_slice2] sample_vq sample_monitor = (q', m', n')"
    by (metis prod_cases3)
  have "sid ` set (virtualSlices sample_vq) \<inter> sid ` set [sample_slice2] = {}"
    by (simp add: sample_slice_simps sample_slice2_def NewVirtualSlice_def)
  from MergeSlices_keeps_scope [OF _ sample_slices_ok(2) this r, of "{sample_task ''a'' 10}"] show ?thesis
    using sample_slices_ok(1) [of "{sample_task ''a'' 10}"] by (simp add: r sample_contains)
qed

text \<open>
  C4: Loading tasks over the SQL store always returns and keeps the states of the slices and their
  invariants. Unless the queue is shut down, every uncorrupted task to be processed that was
  waiting in a slice still waits there or has been submitted or rescheduled: none is dropped.
\<close>

theorem loadAndSubmitTasks_hands_on:
  assumes "sql_store_ok d" "todo \<subseteq> shard_tasks (transfer_tasks (fst d)) (snd d)"
    and "le_taskInitializer env = NewHistoryTaskV2 now" "le_reader env = sql_get_task gs d"
    and "\<forall>t \<in> todo. \<not> IsTaskCorrupted t"
    and "\<forall>s \<in> set (virtualSlices q). slice_inv immediate_key sql_pos_ok todo s"
    and "\<forall>s. sliceToRead q = Some (Removed s) \<longrightarrow> slice_inv immediate_key sql_pos_ok todo s"
    and "distinct (map sid (virtualSlices q))"
  shows "\<exists>evs q' m'. loadAndSubmitTasks env q m = Some (evs, q', m') \<and>
    (\<forall>s \<in> set (virtualSlices q'). slice_inv immediate_key sql_pos_ok todo s) \<and>
    vq_GetState q' = vq_GetState q \<and> map sid (virtualSlices q') = map sid (virtualSlices q) \<and>
    (\<forall>t \<in> todo. \<not> le_ctxDone env \<longrightarrow> waiting (virtualSlices q) t \<longrightarrow>
       waiting (virtualSlices q') t \<or> t \<in> ev_task ` set evs)"
  by (rule sql_reader.loadAndSubmitTasks_ok [OF assms(1,2) _ _ assms(4-8)]) (simp_all add: assms(3))

theorem loadAndSubmitTasks_hands_on_witness:
  "\<exists>evs q' m'. loadAndSubmitTasks sample_load_env sample_vq sample_monitor = Some (evs, q', m') \<and>
    vq_GetState q' = [sample_state] \<and>
    (waiting (virtualSlices q') (sample_task ''a'' 10) \<or> sample_task ''a'' 10 \<in> ev_task ` set evs)"
proof -
  have "waiting (virtualSlices sample_vq) (sample_task ''a'' 10)"
    by (simp add: waiting_def sample_slice_simps sample_state_def)
  moreover have "vq_GetState sample_vq = [sample_state]" by (simp add: vq_GetState_def sample_slice_simps)
  moreover have "\<not> IsTaskCorrupted (sample_task ''a'' 10)"
    by (simp add: IsTaskCorrupted_def sample_task_def GetDomainID_def GetWorkflowID_def GetRunID_def)
  moreover have "\<not> le_ctxDone sample_load_env" by (simp add: sample_load_env_def)
  moreover have "sliceToRead sample_vq = Some (Elem 0)"
    by (simp add: sample_vq_def NewVirtualQueue_def sample_slice_simps)
  ultimately show ?thesis
    using loadAndSubmitTasks_hands_on [OF sample_db_ok, of "{sample_task ''a'' 10}" sample_load_env 9
        no_scheduled sample_vq sample_monitor] sample_tasks
    by (auto simp: sample_load_env_def sample_slice_inv)
qed

text \<open>
  C5: When a virtual queue updates its state, no task to be processed leaves its scope, the empty
  slices are dropped and only those, and
  afterwards the total of a monitor that counts no other slices is exactly the number of the pending
  tasks of the remaining slices, whatever it held for them before.
\<close>

theorem vq_UpdateAndGetState_exact:
  assumes "\<forall>s \<in> set (virtualSlices q). slice_inv immediate_key sql_pos_ok todo s"
    and "distinct (map sid (virtualSlices q))" "monitor_wf m"
    and "\<forall>i. i \<notin> sid ` set (virtualSlices q) \<longrightarrow> mon_cnt m i = 0"
    and "vq_UpdateAndGetState q m = (q', states, m')"
  shows "virtualSlices q' =
      filter (\<lambda>s. \<not> vs_IsEmpty s) (map (\<lambda>s. fst (UpdateAndGetState s)) (virtualSlices q)) \<and>
    states = vq_GetState q' \<and>
    (\<forall>t \<in> todo. in_scope (virtualSlices q) t \<longrightarrow> in_scope (virtualSlices q') t) \<and>
    GetTotalPendingTaskCount m' = sum_list (map vs_GetPendingTaskCount (virtualSlices q'))"
proof -
  obtain e where u: "update_slices (virtualSlices q) (sliceToRead q) m = (virtualSlices q', states, e, m')"
    and st: "states = map vs_state (virtualSlices q')"
    using vq_UpdateAndGetState_eq [OF assms(5)] by blast
  have "mon_sync (\<lambda>_. 0) (virtualSlices q') m'" "distinct (map sid (virtualSlices q'))"
    using update_mon_sync [OF u assms(2,3), of "\<lambda>_. 0"] assms(4) by simp_all
  then show ?thesis
    using update_slices_eq(1) [OF u] st update_keeps_scope(2) [OF sql_reader.reader_keys assms(1) u]
      mon_sync_total by (auto simp: vq_GetState_def)
qed

theorem vq_UpdateAndGetState_exact_witness:
  "in_scope (virtualSlices (fst (vq_UpdateAndGetState sample_vq sample_monitor))) (sample_task ''a'' 10)"
proof -
  obtain q' states m' where r: "vq_UpdateAndGetState sample_vq sample_monitor = (q', states, m')"
    by (metis prod_cases3)
  have "mon_cnt sample_monitor i = 0" for i by (simp add: mon_cnt_def sample_monitor_def)
  moreover have "monitor_wf sample_monitor" by (auto simp: sample_monitor_def)
  ultimately show ?thesis
    using vq_UpdateAndGetState_exact [of sample_vq "{sample_task ''a'' 10}", OF _ _ _ _ r]
    by (auto simp: sample_slice_inv sample_contains r simp del: filter.simps)
qed

text \<open>
  C6: Merging slices keeps the monitor exact: afterwards it holds the number of the pending tasks
  of every slice of the queue, and the counts of the slices of other queues are untouched.
\<close>

theorem MergeSlices_monitor_exact:
  assumes "merge_sync others n [] (virtualSlices q @ ss) m" "ss \<noteq> []"
    and "MergeSlices n ss q m = (q', m', n')"
  shows "mon_sync others (virtualSlices q') m'"
  using MergeSlices_sync(1) [OF assms] .

theorem MergeSlices_monitor_exact_witness:
  "mon_sync (\<lambda>_. 0) (virtualSlices (fst (MergeSlices 2 [sample_slice2] sample_vq sample_monitor)))
     (fst (snd (MergeSlices 2 [sample_slice2] sample_vq sample_monitor)))"
proof -
  obtain q' m' n' where r: "MergeSlices 2 [sample_slice2] sample_vq sample_monitor = (q', m', n')"
    by (metis prod_cases3)
  have "merge_sync (\<lambda>_. 0) 2 [] (virtualSlices sample_vq @ [sample_slice2]) sample_monitor"
    by (auto simp: merge_sync_def sample_monitor_def mon_cnt_def sample_slice_simps sample_slice2_def
        NewVirtualSlice_def)
  from MergeSlices_monitor_exact [OF this _ r] show ?thesis by (simp add: r)
qed

section \<open>Virtual slices\<close>

text \<open>
  C7: Reading from a virtual slice over the SQL store always returns. The slice keeps its
  invariant and its state, and when no error is reported the tasks handed to the processor are
  exactly the stored tasks that match the predicate in the part of the slice that is no longer
  unread: none is skipped and none from outside is returned, and there are at most as many as
  asked for.
\<close>

theorem GetTasks_reads_exactly:
  assumes "sql_store_ok d" "slice_inv immediate_key sql_pos_ok todo s"
    and "todo \<subseteq> shard_tasks (transfer_tasks (fst d)) (snd d)" "0 \<le> n"
  shows "\<exists>res s'. GetTasks (sql_get_task gs d) (NewHistoryTaskV2 now) n s = Some (res, s') \<and>
    slice_inv immediate_key sql_pos_ok todo s' \<and> vs_state s' = vs_state s \<and>
    (\<forall>ts. res = Ok ts \<longrightarrow> int (length ts) \<le> n \<and>
      ht_Task ` set ts = {t \<in> shard_tasks (transfer_tasks (fst d)) (snd d). Check (vs_pred s) t \<and>
        GetTaskKey t \<in> unread (progress s) - unread (progress s')})"
proof -
  obtain res s' where r: "GetTasks (sql_get_task gs d) (NewHistoryTaskV2 now) n s = Some (res, s')"
    and l: "sql_reader.loop_result d todo n [] s res s'"
    using sql_reader.GetTasks_total [OF assms(1-3), of "NewHistoryTaskV2 now" gs n] by auto
  then show ?thesis
    using assms(4) by (cases res) (auto simp: sql_reader.loop_result_def)
qed

theorem GetTasks_reads_exactly_witness:
  "\<exists>res s'. GetTasks (sql_get_task no_scheduled sample_db) (NewHistoryTaskV2 5) 2 sample_slice = Some (res, s') \<and>
    slice_inv immediate_key sql_pos_ok {sample_task ''a'' 10} s' \<and> vs_state s' = vs_state sample_slice \<and>
    (\<forall>ts. res = Ok ts \<longrightarrow> int (length ts) \<le> 2 \<and>
      ht_Task ` set ts = {t \<in> shard_tasks (transfer_tasks (fst sample_db)) (snd sample_db).
        Check (vs_pred sample_slice) t \<and>
        GetTaskKey t \<in> unread (progress sample_slice) - unread (progress s')})"
  by (rule GetTasks_reads_exactly [OF sample_db_ok sample_slice_inv]) (simp_all add: sample_tasks)

text \<open>
  C27: Reading drains a slice, although the database may fail. Take any sequence of calls of
  \<open>GetTasks\<close> with a positive page size over databases with the same stored tasks, in which queries
  and the decoding of rows may fail in any call. If the number of calls whose database answers is
  greater than the number of unread matching tasks, nothing is left unread at the end, and together
  the calls, also those that fail half way, return exactly those tasks.
\<close>

theorem slice_is_drained:
  assumes "\<forall>d \<in> set ds. sql_store_ok d \<and> shard_tasks (transfer_tasks (fst d)) (snd d) = st" "todo \<subseteq> st"
    and "slice_inv immediate_key sql_pos_ok todo s" "0 < n"
    and "U = {t \<in> st. Check (vs_pred s) t \<and> GetTaskKey t \<in> unread (progress s)}"
    and "card U < length (filter (\<lambda>d. db_reads (fst d)) ds)"
  shows "\<exists>ts s'. read_rounds (map (\<lambda>d. GetTasks (sql_get_task gs d) (NewHistoryTaskV2 now) n) ds) s = Some (ts, s') \<and>
    progress s' = [] \<and> ht_Task ` set ts = U"
  using sql_live.drained [OF assms(2) _ _ assms(4,3,1), of "NewHistoryTaskV2 now" gs] assms(6)
  by (simp add: sql_live.rest_def assms(5))

theorem slice_is_drained_witness:
  "\<exists>ts s'. read_rounds (map (\<lambda>d. GetTasks (sql_get_task no_scheduled d) (NewHistoryTaskV2 5) 2)
      [failing_db, sample_db, failing_db, sample_db, sample_db, sample_db]) sample_slice = Some (ts, s') \<and>
    progress s' = [] \<and> ht_Task ` set ts = {sample_task ''a'' 10, sample_task ''b'' 20, sample_task ''a'' 30}"
proof -
  let ?U = "{t \<in> shard_tasks (transfer_tasks (fst sample_db)) (snd sample_db). Check (vs_pred sample_slice) t \<and>
      GetTaskKey t \<in> unread (progress sample_slice)}"
  have U: "?U = {sample_task ''a'' 10, sample_task ''b'' 20, sample_task ''a'' 30}"
    unfolding sample_tasks by (auto simp: sample_slice_simps sample_state_def)
  have card: "card {sample_task ''a'' 10, sample_task ''b'' 20, sample_task ''a'' 30} = 3"
    by (simp add: sample_task_def)
  show ?thesis
    by (rule slice_is_drained [OF _ empty_subsetI sample_slice_inv])
      (use U card sample_db_ok failing_db_simps sample_db_reads in auto)
qed

text \<open>
  C8: When a slice updates its state it may raise the lower bound of its range, but it gives up
  no task that is still to be processed: such a task of the old state also belongs to the new
  one. The invariant of the slice is kept.
\<close>

theorem UpdateAndGetState_keeps_todo:
  assumes "slice_inv immediate_key sql_pos_ok todo s"
  shows "slice_inv immediate_key sql_pos_ok todo (fst (UpdateAndGetState s)) \<and>
    vs_lo s \<le> vs_lo (fst (UpdateAndGetState s)) \<and>
    (\<forall>t \<in> todo. state_Contains (vs_state s) t \<longrightarrow> state_Contains (snd (UpdateAndGetState s)) t)"
proof -
  note rk = sql_reader.reader_keys
  have "slice_shape immediate_key sql_pos_ok s" "slice_tasks immediate_key todo s"
    using assms by (simp_all add: slice_inv_def)
  then show ?thesis
    using slice_inv_UpdateAndGetState [OF assms rk] UpdateAndGetState_scope [OF assms rk]
      UpdateAndGetState_simps(6) [OF assms] new_lo_bounds(1) [OF _ _ rk]
    by simp
qed

theorem UpdateAndGetState_keeps_todo_witness:
  "slice_inv immediate_key sql_pos_ok {sample_task ''a'' 10} (fst (UpdateAndGetState sample_slice)) \<and>
   state_Contains (snd (UpdateAndGetState sample_slice)) (sample_task ''a'' 10)"
proof -
  have "state_Contains (vs_state sample_slice) (sample_task ''a'' 10)"
    by (simp add: sample_slice_simps sample_state_def state_Contains_iff)
  then show ?thesis
    using UpdateAndGetState_keeps_todo [OF sample_slice_inv, of "{sample_task ''a'' 10}"] by simp
qed


text \<open>
  C9: Merging two overlapping or adjacent slices gives slices that are sorted and do not overlap,
  span exactly the two ranges, satisfy the invariant, and together have exactly the tasks of the
  two in their scope. It applies to slices with non-empty ranges whose read progress does not
  reach below the range.
\<close>

theorem TryMerge_partition:
  assumes "mergeable immediate_key sql_pos_ok todo a" "mergeable immediate_key sql_pos_ok todo b"
    and "TryMergeWithVirtualSlice n a b = Some (out, n')"
  shows "(\<forall>m \<in> set out. mergeable immediate_key sql_pos_ok todo m) \<and> slices_sorted out \<and>
    vs_lo (hd out) = min (vs_lo a) (vs_lo b) \<and> vs_hi (last out) = max (vs_hi a) (vs_hi b) \<and>
    (\<forall>t. in_scope out t \<longleftrightarrow> state_Contains (vs_state a) t \<or> state_Contains (vs_state b) t)"
  using TryMerge_ok [OF sql_reader.reader_keys assms]
  by (simp add: merged_ok_def slices_sorted_def in_scope_def)

theorem TryMerge_partition_witness:
  "\<exists>out n'. TryMergeWithVirtualSlice 2 sample_slice sample_slice2 = Some (out, n') \<and> slices_sorted out \<and>
    in_scope out (sample_task ''a'' 10) \<and> in_scope out (sample_task ''a'' 150)"
proof -
  have "TryMergeWithVirtualSlice 2 sample_slice sample_slice2 \<noteq> None"
  proof
    assume n: "TryMergeWithVirtualSlice 2 sample_slice sample_slice2 = None"
    show False
      using TryMerge_None [OF n]
      by (simp add: sample_slice_simps sample_state_def sample_slice2_def NewVirtualSlice_def)
  qed
  then obtain out n' where r: "TryMergeWithVirtualSlice 2 sample_slice sample_slice2 = Some (out, n')" by force
  have "state_Contains (vs_state sample_slice2) (sample_task ''a'' 150)"
    by (simp add: sample_slice2_def NewVirtualSlice_def state_Contains_iff)
      (simp add: sample_task_def GetDomainID_def)
  then show ?thesis
    using TryMerge_partition [OF sample_mergeable sample_mergeable2 r] r by (auto simp: sample_contains)
qed



text \<open>
  Splitting a slice by a predicate gives two slices that satisfy the invariant; every task of
  the slice is in the scope of exactly one of them, the first one if it satisfies the predicate.
\<close>

theorem TrySplitByPredicate_partition:
  assumes "slice_inv immediate_key sql_pos_ok todo s" "pred_normal p"
    and "TrySplitByPredicate n p s = Some (a, b)"
  shows "slice_inv immediate_key sql_pos_ok todo a \<and> slice_inv immediate_key sql_pos_ok todo b \<and>
    (\<forall>t. state_Contains (vs_state a) t \<longleftrightarrow> state_Contains (vs_state s) t \<and> Check p t) \<and>
    (\<forall>t. state_Contains (vs_state b) t \<longleftrightarrow> state_Contains (vs_state s) t \<and> \<not> Check p t)"
proof -
  have n: "pred_normal (vs_pred s)" using assms(1) by (simp add: slice_inv_def slice_shape_def)
  then show ?thesis
    using slice_inv_TrySplitByPredicate [OF assms] TrySplitByPredicate_Some [OF assms(3)] assms(2)
    by (auto simp: state_Contains_iff Check_And_pred Check_Not_pred pred_normal_Not_pred)
qed

theorem TrySplitByPredicate_partition_witness:
  "\<exists>a b. TrySplitByPredicate 2 (NewDomainIDPredicate [''a''] False) sample_slice = Some (a, b) \<and>
    state_Contains (vs_state a) (sample_task ''a'' 10) \<and> state_Contains (vs_state b) (sample_task ''b'' 20)"
proof -
  have "TrySplitByPredicate 2 (NewDomainIDPredicate [''a''] False) sample_slice \<noteq> None"
    by (simp add: TrySplitByPredicate_def state_TrySplitByPredicate_def sample_slice_simps sample_state_def
        NewDomainIDPredicate_def Let_def split: prod.splits)
  then obtain a b where r: "TrySplitByPredicate 2 (NewDomainIDPredicate [''a''] False) sample_slice = Some (a, b)"
    by auto
  have "Check (NewDomainIDPredicate [''a''] False) (sample_task ''a'' 10)"
    "\<not> Check (NewDomainIDPredicate [''a''] False) (sample_task ''b'' 20)"
    by (simp_all add: NewDomainIDPredicate_def sample_task_def GetDomainID_def)
  then show ?thesis
    using TrySplitByPredicate_partition [OF sample_slice_inv _ r, of "{}"] by (simp add: r sample_contains)
qed

text \<open>
  Clearing a slice cancels its pending tasks without losing them: the invariant is kept and
  every task of the slice that is still to be processed is to be read again.
\<close>

theorem Clear_reads_again:
  assumes "slice_inv immediate_key sql_pos_ok todo s"
  shows "slice_inv immediate_key sql_pos_ok todo (fst (Clear s)) \<and>
    vs_GetPendingTaskCount (fst (Clear s)) = 0 \<and>
    (\<forall>t \<in> todo. state_Contains (vs_state s) t \<longrightarrow> GetTaskKey t \<in> unread (progress (fst (Clear s))))"
proof -
  have "vs_GetPendingTaskCount (fst (Clear s)) = 0"
    using tracker_Clear_New
    by (simp add: Clear_def Let_def case_prod_unfold vs_GetPendingTaskCount_def GetPendingTaskCount_def
        NewPendingTaskTracker_def)
  then show ?thesis
    using slice_inv_Clear [OF assms sql_reader.reader_keys] Clear_rereads [OF assms sql_reader.reader_keys]
    by simp
qed

theorem Clear_reads_again_witness:
  "NewImmediateTaskKey 10 \<in> unread (progress (fst (Clear sample_slice)))"
  using Clear_reads_again [OF sample_slice_inv, of "{sample_task ''a'' 10}"] by (simp add: sample_contains)

text \<open>
  Two slices that are not merged, although they are different objects, do not overlap.
\<close>

theorem not_merged_disjoint:
  assumes "TryMergeWithVirtualSlice n a b = None" "sid a \<noteq> sid b"
  shows "\<not> (\<exists>k. k \<in> range_keys (vs_range a) \<and> k \<in> range_keys (vs_range b))"
  using TryMerge_None [OF assms] by auto

theorem not_merged_disjoint_witness:
  "\<not> (\<exists>k. k \<in> range_keys (vs_range sample_slice) \<and>
     k \<in> range_keys \<lparr>InclusiveMinTaskKey = NewImmediateTaskKey 150, ExclusiveMaxTaskKey = NewImmediateTaskKey 160\<rparr>)"
proof -
  let ?b = "NewVirtualSlice 1 \<lparr>ss_Range = \<lparr>InclusiveMinTaskKey = NewImmediateTaskKey 150,
    ExclusiveMaxTaskKey = NewImmediateTaskKey 160\<rparr>, ss_Predicate = UniversalPredicate\<rparr> NewPendingTaskTracker"
  have "TryMergeWithVirtualSlice 2 sample_slice ?b = None"
    by (simp add: TryMergeWithVirtualSlice_def sample_slice_simps sample_state_def NewVirtualSlice_def CanMerge_def)
  from not_merged_disjoint [OF this] show ?thesis
    by (simp add: sample_slice_simps NewVirtualSlice_def)
qed

section \<open>The reader and the store\<close>

text \<open>
  Reading on from the position a page ends at returns the tasks that follow: two consecutive
  pages have no task in common, and together they hold every matching task of the store between
  the first position and the last.
\<close>

theorem consecutive_pages_exact:
  assumes "sql_store_ok d" "progress_wf (req_Progress req)" "sql_pos_ok (req_Progress req)"
    "0 < req_PageSize req" "sql_get_task gs d req = Inr r"
    "NextTaskKey (resp_Progress r) < ExclusiveMaxTaskKey (req_Progress req)" "0 < n"
    "sql_get_task gs d \<lparr>req_Progress = resp_Progress r, req_Predicate = req_Predicate req, req_PageSize = n\<rparr> = Inr r'"
  shows "set (resp_Tasks r) \<inter> set (resp_Tasks r') = {} \<and>
    set (resp_Tasks r) \<union> set (resp_Tasks r') =
      {t \<in> shard_tasks (transfer_tasks (fst d)) (snd d). NextTaskKey (req_Progress req) \<le> GetTaskKey t \<and>
        GetTaskKey t < NextTaskKey (resp_Progress r') \<and> Check (req_Predicate req) t}"
  using sql_reader.consecutive_pages [OF assms(1-6) refl assms(7,8)] by blast

theorem consecutive_pages_exact_witness:
  "\<exists>req r r'. sql_get_task no_scheduled sample_db req = Inr r \<and>
    sql_get_task no_scheduled sample_db
      \<lparr>req_Progress = resp_Progress r, req_Predicate = req_Predicate req, req_PageSize = 1\<rparr> = Inr r' \<and>
    set (resp_Tasks r) \<inter> set (resp_Tasks r') = {}"
proof -
  let ?pr = "mk_progress (NewImmediateTaskKey 0) (NewImmediateTaskKey 100)"
  let ?req = "\<lparr>req_Progress = ?pr, req_Predicate = UniversalPredicate, req_PageSize = 1\<rparr>"
  have pos: "sql_pos_ok ?pr" "progress_wf ?pr"
    by (simp_all add: sql_pos_ok_def immediate_key_New MaxInt64_def)
  have "sql_page sample_db ?pr 1 = [sample_task ''a'' 10]"
    by (simp add: sql_page_def sql_rows_def select_rows_def sample_db_def NewImmediateTaskKey_def)
      (simp add: sample_task_def)
  then have nx: "sql_next sample_db ?pr 1 = NewImmediateTaskKey 11"
    by (simp add: sql_next_def sql_more_def NewImmediateTaskKey_def wrap64_def Next_def MaxInt64_def)
      (simp add: sample_task_def)
  obtain r where r: "sql_get_task no_scheduled sample_db ?req = Inr r"
    and lt: "NextTaskKey (resp_Progress r) < NewImmediateTaskKey 100"
    using sql_get_task_cases(2) [of ?req sample_db no_scheduled] pos(1) nx sample_db_reads
    by (auto simp: sql_answer_def Let_def)
  let ?req' = "\<lparr>req_Progress = resp_Progress r, req_Predicate = UniversalPredicate, req_PageSize = 1\<rparr>"
  have "sql_pos_ok (resp_Progress r)"
    using sql_read_pos [OF sample_db_ok _ _ _ r] pos lt by simp
  then obtain r' where r': "sql_get_task no_scheduled sample_db ?req' = Inr r'"
    using sql_get_task_cases(2) [of ?req' sample_db no_scheduled] sample_db_reads by auto
  have "set (resp_Tasks r) \<inter> set (resp_Tasks r') = {}"
    using consecutive_pages_exact [OF sample_db_ok _ _ _ r, of 1 r'] pos lt r' by simp
  then show ?thesis using r r' by (intro exI [of _ ?req] exI [of _ r] exI [of _ r']) simp
qed

text \<open>
  The page token of the immediate task tables survives serialization.
\<close>

theorem page_token_roundtrip:
  assumes "int64 x"
  shows "deserializePageToken (serializePageToken x) = Ok x"
  using assms by (rule token_roundtrip)

theorem page_token_roundtrip_witness: "deserializePageToken (serializePageToken (-3)) = Ok (-3)"
  by (rule page_token_roundtrip) (simp add: int64_def MinInt64_def MaxInt64_def)

text \<open>
  Range deletion of transfer tasks removes only rows of its shard with a task ID in the range.
\<close>

theorem RangeDelete_only_range:
  assumes "RangeDeleteFromTransferTasks db f = Ok (db', n)"
    and "t \<in> shard_tasks (transfer_tasks db) shard"
    and "shard \<noteq> tf_ShardID f \<or> task_TaskID t < tf_InclusiveMinTaskID f \<or>
      tf_ExclusiveMaxTaskID f \<le> task_TaskID t"
  shows "t \<in> shard_tasks (transfer_tasks db') shard"
  using assms by (rule RangeDeleteFromTransferTasks_keeps)

theorem RangeDelete_only_range_witness:
  "\<exists>db' n. RangeDeleteFromTransferTasks (fst sample_db)
      \<lparr>tf_ShardID = 1, tf_InclusiveMinTaskID = 0, tf_ExclusiveMaxTaskID = 25, tf_PageSize = 10\<rparr> = Ok (db', n) \<and>
    sample_task ''a'' 30 \<in> shard_tasks (transfer_tasks db') 1"
proof -
  let ?f = "\<lparr>tf_ShardID = 1, tf_InclusiveMinTaskID = 0, tf_ExclusiveMaxTaskID = 25, tf_PageSize = 10\<rparr>"
  obtain db' n where r: "RangeDeleteFromTransferTasks (fst sample_db) ?f = Ok (db', n)"
    using sample_db_deletes by (simp add: RangeDeleteFromTransferTasks_def db_deletes_def Let_def)
  have "sample_task ''a'' 30 \<in> shard_tasks (transfer_tasks (fst sample_db)) 1"
    using sample_tasks by (simp add: sample_db_def)
  from RangeDelete_only_range [OF r this] show ?thesis using r by (simp add: sample_task_def)
qed

section \<open>Persisted state\<close>

text \<open>
  The state of a queue is restored from its persisted form unchanged, if the scheduled times
  of its keys have a 64 bit number of nanoseconds.
\<close>

theorem queue_state_roundtrip:
  assumes "\<forall>(k, ss) \<in> set (VirtualQueueStates st). \<forall>s \<in> set ss. storable_state s"
    and "storable_key (ExclusiveMaxReadLevel st)"
  shows "FromPersistenceQueueState (ToPersistenceQueueState st) = Ok st"
  using assms by (rule queue_state_restored)

theorem queue_state_roundtrip_witness:
  "FromPersistenceQueueState (ToPersistenceQueueState
     \<lparr>VirtualQueueStates = [(0, [sample_state])], ExclusiveMaxReadLevel = NewImmediateTaskKey 100\<rparr>) =
   Ok \<lparr>VirtualQueueStates = [(0, [sample_state])], ExclusiveMaxReadLevel = NewImmediateTaskKey 100\<rparr>"
  by (rule queue_state_roundtrip)
    (simp_all add: storable_state_def storable_key_def sample_state_def NewImmediateTaskKey_def int64_def
      MinInt64_def MaxInt64_def)

text \<open>
  C29: Restarting a queue from a persisted state loses no task: if a state was stored whose slices
  are storable, the queue that is created from it has the same slice states, starts to admit tasks
  at the same key, and has the acknowledgement level of that state.
\<close>

theorem restart_restores_state:
  assumes "\<forall>(k, ss) \<in> set (VirtualQueueStates st). \<forall>s \<in> set ss. storable_state s"
    and "storable_key (ExclusiveMaxReadLevel st)"
  shows "\<exists>q. newQueueBase cat opts n (ToPersistenceQueueState st) = Ok q \<and>
    map (\<lambda>(k, vq). (k, vq_GetState vq)) (virtualQueues (qb_manager q)) = VirtualQueueStates st \<and>
    qb_new_lo q = ExclusiveMaxReadLevel st \<and>
    exclusiveAckLevel q = fst (getExclusiveAckLevelAndMaxQueueIDFromQueueState st)"
proof -
  note rt = queue_state_restored [OF assms]
  obtain qs n' where q: "new_queues n (VirtualQueueStates st) = (qs, n')" by force
  show ?thesis
    using new_queues_states [of n "VirtualQueueStates st"]
    by (simp add: newQueueBase_def rt NewVirtualQueueManager_def q)
qed

theorem restart_restores_state_witness:
  "\<exists>q. newQueueBase HistoryTaskCategoryTransfer (mon_options sample_monitor) 0
      (ToPersistenceQueueState \<lparr>VirtualQueueStates = [(0, [sample_state])],
        ExclusiveMaxReadLevel = NewImmediateTaskKey 100\<rparr>) = Ok q \<and>
    qb_new_lo q = NewImmediateTaskKey 100"
proof -
  let ?st = "\<lparr>VirtualQueueStates = [(0, [sample_state])], ExclusiveMaxReadLevel = NewImmediateTaskKey 100\<rparr>"
  have "\<forall>(k, ss) \<in> set (VirtualQueueStates ?st). \<forall>s \<in> set ss. storable_state s"
    "storable_key (ExclusiveMaxReadLevel ?st)"
    by (simp_all add: storable_state_def storable_key_def sample_state_def NewImmediateTaskKey_def int64_def
        MinInt64_def MaxInt64_def)
  from restart_restores_state [OF this, of HistoryTaskCategoryTransfer "mon_options sample_monitor" 0]
  show ?thesis by auto
qed

section \<open>Monitor, manager and mitigator\<close>

text \<open>
  Setting and removing the count of a slice keep the total of the monitor equal to the sum of the
  counts of its slices, and the count of that slice is then the new one, or zero.
\<close>

theorem monitor_total_invariant:
  assumes "monitor_wf m"
  shows "monitor_wf (SetSlicePendingTaskCount s c m) \<and> monitor_wf (RemoveSlice s m) \<and>
    GetSlicePendingTaskCount s (SetSlicePendingTaskCount s c m) = c \<and>
    GetSlicePendingTaskCount s (RemoveSlice s m) = 0"
  using assms mon_counts_ops(4) [of s m]
  by (auto simp: GetSlicePendingTaskCount_def gm_int_def mon_counts_def update_conv' simp del: mon_counts_ops)

theorem monitor_total_invariant_witness:
  "monitor_wf (SetSlicePendingTaskCount sample_slice 3 sample_monitor)"
  using monitor_total_invariant [of sample_monitor sample_slice 3] by (simp add: sample_monitor_def monitor_wf_NewMonitor)

text \<open>
  The monitor never has two alerts of the same type on their way, and it raises an alert when
  the total exceeds the critical count, alerts are enabled and the subscriber is ready.
\<close>

theorem alerts_deduplicated:
  assumes "alerts_wf m"
  shows "alerts_wf (SetSlicePendingTaskCount s c m) \<and> alerts_wf (RemoveSlice s m) \<and>
    (\<forall>ch. mon_subscriber m = Some ch \<longrightarrow> length (ch_buf ch) < ch_cap ch \<longrightarrow>
       EnablePendingTaskCountAlert (mon_options m) \<longrightarrow> 0 < opt_CriticalPendingTaskCount (mon_options m) \<longrightarrow>
       opt_CriticalPendingTaskCount (mon_options m) <
         totalPendingTaskCount m + (c - gm_int (slicePendingTaskCount m) (sid s)) \<longrightarrow>
       AlertTypeQueuePendingTaskCount |\<in>| pendingAlerts (SetSlicePendingTaskCount s c m))"
  using assms Set_raises_alert [of m c s] by auto

theorem alerts_deduplicated_witness:
  "alerts_wf (SetSlicePendingTaskCount sample_slice 3 (mon_Subscribe \<lparr>ch_cap = 10, ch_buf = []\<rparr> sample_monitor)) \<and>
   AlertTypeQueuePendingTaskCount |\<in>|
     pendingAlerts (SetSlicePendingTaskCount sample_slice 3 (mon_Subscribe \<lparr>ch_cap = 10, ch_buf = []\<rparr> sample_monitor))"
  using alerts_deduplicated [of "mon_Subscribe \<lparr>ch_cap = 10, ch_buf = []\<rparr> sample_monitor" sample_slice 3]
  by (simp add: mon_Subscribe_def sample_monitor_def NewMonitor_def alerts_wf_def)

text \<open>
  A pause request with a positive duration leaves the queue paused until at least the end of
  that duration; no request shortens a pause.
\<close>

theorem Pause_only_extends:
  assumes "pause_wf p" "zeroTime \<le> now" "0 < d"
  shows "IsPaused (pc_Pause now d p) \<and> now + d \<le> pauseUntil (pc_Pause now d p) \<and>
    pauseUntil p \<le> pauseUntil (pc_Pause now d p) \<and> pause_wf (pc_Pause now d p)"
  using Pause_pauses [OF assms(1,3,2)] Pause_extends pause_wf_ops(1) [OF assms(1)] by blast

theorem Pause_only_extends_witness: "Queue_Monitor.IsPaused (pc_Pause 5 3 NewPauseController)"
  using Pause_only_extends [OF pause_wf_New, of 5 3] by (simp add: zeroTime_def)

text \<open>
  C30: Updating all virtual queues reports the states of the queues that keep slices, and no task to
  be processed leaves their scope.
\<close>

theorem mgr_UpdateAndGetState_keeps_scope:
  assumes "\<forall>s \<in> set (all_slices (virtualQueues g)). slice_inv immediate_key sql_pos_ok todo s"
    and "mgr_UpdateAndGetState g m = (g', states, m')"
  shows "states = filter (\<lambda>(_, ss). ss \<noteq> []) (map (\<lambda>(k, vq). (k, vq_GetState vq)) (virtualQueues g')) \<and>
    (\<forall>t \<in> todo. in_scope (all_slices (virtualQueues g)) t \<longrightarrow> in_scope (all_slices (virtualQueues g')) t)"
proof -
  obtain qs c where r: "update_queues (virtualQueues g) m = (qs, states, c, m')" and g: "virtualQueues g' = qs"
    using assms(2) by (auto simp: mgr_UpdateAndGetState_def split: prod.splits)
  show ?thesis
    using update_queues_ok(3,4) [OF sql_reader.reader_keys assms(1) r] g by blast
qed

theorem mgr_UpdateAndGetState_keeps_scope_witness:
  "in_scope (all_slices (virtualQueues (fst (mgr_UpdateAndGetState (qb_manager sample_base) sample_monitor))))
     (sample_task ''a'' 10)"
proof -
  obtain g' states m' where r: "mgr_UpdateAndGetState (qb_manager sample_base) sample_monitor = (g', states, m')"
    by (metis prod_cases3)
  show ?thesis
    using mgr_UpdateAndGetState_keeps_scope [OF _ r, of "{sample_task ''a'' 10}"]
    by (simp add: r sample_slice_inv sample_contains)
qed

text \<open>
  The minimum read level is the least read level of all slices of all virtual queues, and the
  maximum key if there is none.
\<close>

theorem GetMinReadLevel_is_minimum:
  "GetMinReadLevel g = Min (insert MaximumHistoryTaskKey (GetReadLevel ` set (all_slices (virtualQueues g))))"
  by (rule GetMinReadLevel_Min)

text \<open>
  C28: The rescheduler loses no task. A pass over its queues ends; every task it held is afterwards
  still held, or was pending and accepted by the processor, or was no longer pending, and the count
  of the tasks stays exact. A failover keeps all tasks and the count, and makes the tasks of the
  domains due now, or at their scheduled time if that is later.
\<close>

theorem rescheduler_loses_nothing:
  assumes "rs_wf r" "reschedule env r = (r', evs)"
  shows "rs_wf r' \<and> rs_tasks r = rs_tasks r' + mset (map (ht_Task \<circ> event_task) evs) \<and>
    (\<forall>e \<in> set evs. event_ok env e) \<and>
    rs_wf (RescheduleDomains env ids r) \<and> rs_tasks (RescheduleDomains env ids r) = rs_tasks r \<and>
    (\<forall>(key, pq) \<in> set (pqMap (RescheduleDomains env ids r)). fst key \<in> ids \<longrightarrow>
      (\<forall>x \<in> set pq. rescheduleTime x = max (rv_now env) (scheduledTime (ht_key (rt_task x)))))"
  using reschedule_exact [OF assms] RescheduleDomains_exact [OF assms(1), of env ids] by blast

theorem rescheduler_loses_nothing_witness:
  "let env = \<lparr>rv_Priority = (\<lambda>_. 0), rv_GetAttempt = (\<lambda>_. 0), rv_TrySubmit = (\<lambda>_. (True, False)), rv_now = 9,
        rv_backoff = 2, rv_gate_Update = (\<lambda>_ g. g), rv_gate_Stop = (\<lambda>g. g)\<rparr>;
       r = rs_RescheduleTask env (NewHistoryTaskV2 5 (sample_task ''a'' 10)) 7 (NewRescheduler ())
   in rs_tasks (RescheduleDomains env {''a''} r) = rs_tasks r \<and> rs_wf (fst (reschedule env r))"
proof -
  let ?env = "\<lparr>rv_Priority = (\<lambda>_. 0), rv_GetAttempt = (\<lambda>_. 0), rv_TrySubmit = (\<lambda>_. (True, False)), rv_now = 9,
        rv_backoff = 2, rv_gate_Update = (\<lambda>_ g. g), rv_gate_Stop = (\<lambda>g. g)\<rparr> :: unit rescheduler_env"
  let ?r = "rs_RescheduleTask ?env (NewHistoryTaskV2 5 (sample_task ''a'' 10)) 7 (NewRescheduler ())"
  have "rs_wf (NewRescheduler ())" by (simp add: rs_wf_def rs_tasks_def NewRescheduler_def)
  then have wf: "rs_wf ?r" by (rule rs_RescheduleTask_exact)
  obtain r' evs where "reschedule ?env ?r = (r', evs)" by force
  then show ?thesis
    using rescheduler_loses_nothing [OF wf, of ?env r' evs "{''a''}"] unfolding Let_def by simp
qed

text \<open>
  The search for the domains to clear ends, and it stops only when the remaining tasks do not
  exceed the target or when no domain with pending tasks is left.
\<close>

theorem find_domains_reaches_target:
  "\<exists>acc tot pq. find_domains_loop perSlice target pq0 tot0 perDomain sl [] = (acc, tot, pq) \<and>
     (tot \<le> target \<or> pq = [])"
  by (metis find_domains_loop_stops prod_cases3)

text \<open>
  The priority queue holds what was put in: adding an item adds exactly it, and removing from a
  non-empty queue succeeds and takes out exactly the item it returns.
\<close>

theorem priority_queue_multiset:
  "mset (NewPriorityQueue lt items) = mset items \<and> mset (pq_Add lt x items) = add_mset x (mset items) \<and>
   (pq_IsEmpty items \<or> (\<exists>y rest. pq_Remove lt items = Ok (y, rest) \<and> mset items = add_mset y (mset rest)))"
  using pq_Remove_mset [of items lt]
  by (auto simp: NewPriorityQueue_def mset_heap_Init pq_Add_mset pq_IsEmpty_def)

section \<open>Keys, predicates and trackers\<close>

text \<open>
  \<open>Next\<close> is the successor of a key: it is greater, and no valid key lies between.
\<close>

theorem Next_is_successor:
  assumes "valid_key k" "valid_key j"
  shows "k < Next k \<and> (k < j \<longleftrightarrow> Next k \<le> j)"
  using assms by (simp add: Next_le_iff)

theorem Next_is_successor_witness: "NewImmediateTaskKey 4 < Next (NewImmediateTaskKey 4)"
  using Next_is_successor [of "NewImmediateTaskKey 4" "NewImmediateTaskKey 4"]
  by (simp add: valid_key_def NewImmediateTaskKey_def MaxInt64_def)

text \<open>
  C31: The operations on predicates are the Boolean ones on the tasks they accept, with one
  exception: the conjunction of two predicates that both exclude the empty set of domains, and so
  accept every task, accepts none. \<open>IsEmpty\<close> holds exactly of the predicates that accept no task.
\<close>

theorem predicate_operations_boolean:
  "(Check (And_pred p q) t \<longleftrightarrow> Check p t \<and> Check q t \<and>
      \<not> (p = DomainIDPredicate {||} True \<and> q = DomainIDPredicate {||} True)) \<and>
   (Check (Or_pred p q) t \<longleftrightarrow> Check p t \<or> Check q t) \<and>
   (Check (Not_pred p) t \<longleftrightarrow> \<not> Check p t) \<and>
   (pred_IsEmpty p \<longleftrightarrow> (\<forall>t'. \<not> Check p t'))"
  by (simp add: Check_And_pred_iff Check_Or_pred Check_Not_pred pred_IsEmpty_iff)

text \<open>
  Pruning a tracker removes exactly the acknowledged tasks, reports how many it removed, and
  leaves the tracker consistent: the minimum it reports afterwards is a key of a tracked task and
  not above any other.
\<close>

theorem PruneAckedTasks_exact:
  assumes "tracker_wf tr"
  shows "tracker_wf (fst (PruneAckedTasks tr)) \<and>
    (\<forall>k t. tracked (fst (PruneAckedTasks tr)) k = Some t \<longleftrightarrow>
       tracked tr k = Some t \<and> ht_state t \<noteq> TaskStateAcked) \<and>
    snd (PruneAckedTasks tr) = GetPendingTaskCount tr - GetPendingTaskCount (fst (PruneAckedTasks tr)) \<and>
    (\<forall>m. GetMinimumTaskKey (fst (PruneAckedTasks tr)) = (m, True) \<longrightarrow>
       m \<in> dom (tracked (fst (PruneAckedTasks tr))) \<and>
       (\<forall>k \<in> dom (tracked (fst (PruneAckedTasks tr))). m \<le> k))"
proof -
  have wf: "gm_wf (taskMap tr)" using assms by (rule tracker_wf_gm_wf)
  have i: "tracker_wf (fst (PruneAckedTasks tr))" using assms by (rule tracker_wf_PruneAckedTasks)
  have n: "snd (PruneAckedTasks tr) = GetPendingTaskCount tr - GetPendingTaskCount (fst (PruneAckedTasks tr))"
    using sum_length_filter_compl [of "\<lambda>e. ht_state (snd e) = TaskStateAcked" "taskMap tr"]
    by (simp add: snd_PruneAckedTasks [OF wf] GetPendingTaskCount_def taskMap_PruneAckedTasks [OF wf])
  show ?thesis
    using i n tk.minimum_in [OF i] tk.minimum_le [OF i] tracked_PruneAckedTasks [OF wf]
    by (auto split: option.splits)
qed

theorem PruneAckedTasks_exact_witness:
  "tracked (fst (PruneAckedTasks (tracker_Ack (NewImmediateTaskKey 10)
      (AddTask NewPendingTaskTracker (NewHistoryTaskV2 5 (sample_task ''a'' 10)))))) = Map.empty"
proof -
  let ?tr = "tracker_Ack (NewImmediateTaskKey 10) (AddTask NewPendingTaskTracker (NewHistoryTaskV2 5 (sample_task ''a'' 10)))"
  have "tracker_wf ?tr"
    by (intro tracker_wf_tracker_Ack tracker_wf_AddTask tracker_wf_New)
      (simp add: NewImmediateTaskKey_def MaximumHistoryTaskKey_def less_eq_htask_key_def MaxInt64_def)
  then have "tracked (fst (PruneAckedTasks ?tr)) k \<noteq> Some t" for k t
    using PruneAckedTasks_exact [of ?tr]
    by (auto simp: tracked_tracker_Ack tracked_AddTask task_Ack_state split: if_splits)
  then show ?thesis by (meson option.exhaust ext)
qed

section \<open>Version histories\<close>

text \<open>
  Adding an item to a well-formed version history keeps it well-formed, with that item at the end.
\<close>

theorem AddOrUpdateItem_keeps_order:
  assumes "vh_wf v" "valid_item item" "AddOrUpdateItem item v = Ok v'"
  shows "vh_wf v' \<and> last (Items v') = item \<and> BranchToken v' = BranchToken v"
  using AddOrUpdateItem_wf [OF assms] by simp

theorem AddOrUpdateItem_keeps_order_witness:
  "vh_wf \<lparr>BranchToken = [], Items = [\<lparr>EventID = 3, Version = 1\<rparr>, \<lparr>EventID = 7, Version = 2\<rparr>]\<rparr>"
proof -
  let ?v = "\<lparr>BranchToken = [], Items = [\<lparr>EventID = 3, Version = 1\<rparr>]\<rparr>"
  have "AddOrUpdateItem \<lparr>EventID = 7, Version = 2\<rparr> ?v =
      Ok \<lparr>BranchToken = [], Items = [\<lparr>EventID = 3, Version = 1\<rparr>, \<lparr>EventID = 7, Version = 2\<rparr>]\<rparr>"
    by (simp add: AddOrUpdateItem_def item_Duplicate_def NewVersionHistoryItem_def)
  from AddOrUpdateItem_keeps_order [OF _ _ this] show ?thesis by (simp add: vh_wf_def valid_item_def)
qed

text \<open>
  C32: A well-formed version history is restored from its internal form unchanged, and its copy is
  equal to it.
\<close>

theorem version_history_roundtrip:
  assumes "vh_wf v"
  shows "NewVersionHistoryFromInternalType (Some (vh_ToInternalType v)) = Ok (Some v) \<and> vh_Duplicate v = Ok v"
  using assms by (simp add: history_roundtrip vh_Duplicate_id)

definition sample_history :: version_history where
  "sample_history = \<lparr>BranchToken = [7], Items = [\<lparr>EventID = 3, Version = 1\<rparr>, \<lparr>EventID = 7, Version = 4\<rparr>]\<rparr>"

lemma sample_history_wf: "vh_wf sample_history"
  by (simp add: sample_history_def vh_wf_def valid_item_def)

theorem version_history_roundtrip_witness:
  "NewVersionHistoryFromInternalType (Some (vh_ToInternalType sample_history)) = Ok (Some sample_history)"
  using version_history_roundtrip [OF sample_history_wf] by simp

text \<open>
  C33: The linear scan \<open>ContainsItem\<close> and the lookup \<open>GetEventVersion\<close> agree: a history contains an
  item exactly if the event of the item has the version of the item.
\<close>

theorem ContainsItem_iff_GetEventVersion:
  assumes "vh_wf v" "\<forall>i \<in> set (Items v). FirstEventID \<le> EventID i"
  shows "ContainsItem x v \<longleftrightarrow> GetEventVersion (EventID x) v = Ok (Version x)"
  using assms by (rule ContainsItem_GetEventVersion)

theorem ContainsItem_iff_GetEventVersion_witness:
  "ContainsItem \<lparr>EventID = 5, Version = 4\<rparr> sample_history"
  using ContainsItem_iff_GetEventVersion [OF sample_history_wf, of "\<lparr>EventID = 5, Version = 4\<rparr>"]
  by (simp add: sample_history_def FirstEventID_def GetEventVersion_def GetLastItem_def item_Duplicate_def
      NewVersionHistoryItem_def)

text \<open>
  C34: The lowest common ancestor of two well-formed histories is the earlier of their last events
  of the greatest version they share; an error means that they share no version.
\<close>

theorem FindLCAItem_greatest_common:
  assumes "vh_wf v" "vh_wf r"
  shows "case FindLCAItem v r of Inl e \<Rightarrow> \<forall>a \<in> set (Items v). \<forall>b \<in> set (Items r). Version a \<noteq> Version b
    | Inr x \<Rightarrow> is_lca (Items v) (Items r) x"
  using assms by (rule FindLCAItem_spec)

theorem FindLCAItem_greatest_common_witness:
  "is_lca (Items sample_history) [\<lparr>EventID = 5, Version = 4\<rparr>] \<lparr>EventID = 5, Version = 4\<rparr>"
proof -
  let ?r = "\<lparr>BranchToken = [], Items = [\<lparr>EventID = 5, Version = 4\<rparr>]\<rparr>"
  have "vh_wf ?r" by (simp add: vh_wf_def valid_item_def)
  moreover have "FindLCAItem sample_history ?r = Ok \<lparr>EventID = 5, Version = 4\<rparr>"
    by (simp add: FindLCAItem_def sample_history_def item_Duplicate_def NewVersionHistoryItem_def)
  ultimately show ?thesis using FindLCAItem_greatest_common [OF sample_history_wf, of ?r] by simp
qed

text \<open>
  Copying a history up to an item it contains gives the items of smaller versions followed by
  that item.
\<close>

theorem DuplicateUntilLCAItem_prefix:
  assumes "vh_wf v" "valid_item x" "ContainsItem x v"
  shows "DuplicateUntilLCAItem x v =
    Ok \<lparr>BranchToken = [], Items = takeWhile (\<lambda>i. Version i < Version x) (Items v) @ [x]\<rparr>"
  using assms by (rule DuplicateUntilLCAItem_Ok)

theorem DuplicateUntilLCAItem_prefix_witness:
  "DuplicateUntilLCAItem \<lparr>EventID = 5, Version = 4\<rparr> sample_history =
     Ok \<lparr>BranchToken = [], Items = [\<lparr>EventID = 3, Version = 1\<rparr>, \<lparr>EventID = 5, Version = 4\<rparr>]\<rparr>"
proof -
  have "ContainsItem \<lparr>EventID = 5, Version = 4\<rparr> sample_history"
    by (simp add: ContainsItem_def sample_history_def FirstEventID_def)
  from DuplicateUntilLCAItem_prefix [OF sample_history_wf _ this] show ?thesis
    by (simp add: valid_item_def sample_history_def)
qed

section \<open>Workflow executions\<close>

text \<open>
  C35: No sequence of updates reopens a completed execution or changes its close status.
\<close>

theorem completed_execution_is_final:
  assumes "execution_reach e0 e" "State e0 = WorkflowStateCompleted"
  shows "State e = WorkflowStateCompleted \<and> CloseStatus e = CloseStatus e0"
  using assms by (rule completed_final)

theorem completed_execution_is_final_witness:
  "\<exists>e. UpdateWorkflowStateCloseStatus WorkflowStateCompleted 1
      (IncreaseNextEventID \<lparr>State = WorkflowStateCompleted, CloseStatus = 1, NextEventID = 5, LastFirstEventID = 1\<rparr>) = Ok e \<and>
    State e = WorkflowStateCompleted \<and> CloseStatus e = 1"
proof -
  let ?e = "\<lparr>State = WorkflowStateCompleted, CloseStatus = 1, NextEventID = 5, LastFirstEventID = 1\<rparr>"
  have u: "UpdateWorkflowStateCloseStatus WorkflowStateCompleted 1 (IncreaseNextEventID ?e) = Ok (IncreaseNextEventID ?e)"
    by code_simp
  show ?thesis
    using completed_execution_is_final [OF execution_reach.update [OF execution_reach.next_event [OF execution_reach.start] u]] u
    by simp
qed

text \<open>
  An execution that starts in a consistent state stays in one: it is completed exactly if it
  has a close status, unless it is a zombie.
\<close>

theorem execution_state_consistent:
  assumes "execution_reach e0 e" "execution_ok e0"
  shows "execution_ok e"
  using assms by (rule execution_ok_reach)

theorem execution_state_consistent_witness:
  "execution_ok (IncreaseNextEventID \<lparr>State = WorkflowStateCreated, CloseStatus = WorkflowCloseStatusNone,
     NextEventID = 1, LastFirstEventID = 1\<rparr>)"
  by (rule execution_state_consistent [OF execution_reach.next_event [OF execution_reach.start]])
    (simp add: execution_ok_def)

text \<open>
  The close statuses of the API are restored from their persisted form.
\<close>

theorem close_status_restored:
  "ToInternalWorkflowExecutionCloseStatus (FromInternalWorkflowExecutionCloseStatus c) = Ok c"
  by (rule close_status_roundtrip)

section \<open>Limits of the code\<close>

text \<open>
  Two predicates that exclude no domain accept every task, and their conjunction accepts none.
\<close>

theorem And_of_empty_exclusions:
  "Check (DomainIDPredicate {||} True) t \<and>
   \<not> Check (And_pred (DomainIDPredicate {||} True) (DomainIDPredicate {||} True)) t"
  by (simp add: stringSet_defs)

text \<open>A task that is added again is counted twice for its domain and held once.\<close>

lemma AddTask_counts_twice:
  "let h = NewHistoryTaskV2 5 (sample_task ''a'' 10); tr = AddTask (AddTask NewPendingTaskTracker h) h
   in GetPendingTaskCount tr = 1 \<and> gm_int (GetPerDomainPendingTaskCount tr) ''a'' = 2"
  by code_simp

text \<open>
  C39: An update can stop a virtual queue from reading. When the slice to read has become empty,
  updating the state removes it and leaves the queue with a pointer to the removed element of the
  list. The next load finds nothing, sends no notification and leaves no slice to read, so all later
  loads find nothing either, although every slice that has more tasks is still in the queue.
\<close>

theorem removed_slice_stops_reading:
  assumes "distinct (map sid (virtualSlices q))" and "s \<in> set (virtualSlices q)"
    and "sliceToRead q = Some (Elem (sid s))" and "vs_IsEmpty (fst (UpdateAndGetState s))"
    and "vq_UpdateAndGetState q m = (q1, states, m1)"
    and "\<not> le_limiterErr env" "GetTotalPendingTaskCount m1 < MaxPendingTasksCount env" "\<not> IsPaused (pauseController q)"
  shows "\<exists>q2 m2. loadAndSubmitTasks env q1 m1 = Some ([], q2, m2) \<and> vq_notified q2 = vq_notified q \<and>
    (\<forall>s' \<in> set (virtualSlices q). HasMoreTasks s' \<longrightarrow>
       fst (UpdateAndGetState s') \<in> set (virtualSlices q2) \<and> HasMoreTasks (fst (UpdateAndGetState s'))) \<and>
    (\<forall>env' m'. loadAndSubmitTasks env' q2 m' = Some ([], q2, m'))"
proof -
  let ?s = "fst (UpdateAndGetState s)"
  obtain e where up: "update_slices (virtualSlices q) (sliceToRead q) m = (virtualSlices q1, states, e, m1)"
    and q1: "q1 = q\<lparr>virtualSlices := virtualSlices q1, sliceToRead := e\<rparr>"
    using assms(5) by (auto simp: vq_UpdateAndGetState_def split: prod.splits)
  have "e = Some (Removed ?s)"
    using update_slices_unlinks [OF assms(1,2,4), of m] up assms(3) by simp
  then have "sliceToRead q1 = Some (Removed ?s)" "pauseController q1 = pauseController q" "vq_notified q1 = vq_notified q"
    by (subst q1; simp)+
  moreover have "progress ?s = []"
    using assms(4) by (simp add: vs_IsEmpty_def HasMoreTasks_def)
  ultimately have load: "loadAndSubmitTasks env q1 m1 = Some ([], q1\<lparr>sliceToRead := None\<rparr>, track_slice ?s m1)"
    and n: "vq_notified q1 = vq_notified q"
    using assms(6-8) by (auto intro: load_removed)
  have "fst (UpdateAndGetState s') \<in> set (virtualSlices q1) \<and> HasMoreTasks (fst (UpdateAndGetState s'))"
    if "s' \<in> set (virtualSlices q)" "HasMoreTasks s'" for s'
    using that unfolding update_slices_eq(1) [OF up]
    by (auto simp: vs_IsEmpty_def HasMoreTasks_def progress_UpdateAndGetState)
  then show ?thesis
    using load n load_nothing by (intro exI [of _ "q1\<lparr>sliceToRead := None\<rparr>"] exI [of _ "track_slice ?s m1"]) auto
qed

theorem removed_slice_stops_reading_witness:
  "\<exists>q2 m2. loadAndSubmitTasks sample_load_env (fst (vq_UpdateAndGetState sample_gap_vq sample_monitor))
      (snd (snd (vq_UpdateAndGetState sample_gap_vq sample_monitor))) = Some ([], q2, m2) \<and>
    fst (UpdateAndGetState sample_slice2) \<in> set (virtualSlices q2) \<and>
    (\<forall>env' m'. loadAndSubmitTasks env' q2 m' = Some ([], q2, m'))"
proof -
  obtain q1 states m1 where u: "vq_UpdateAndGetState sample_gap_vq sample_monitor = (q1, states, m1)"
    by (metis prod_cases3)
  have m1: "GetTotalPendingTaskCount m1 < MaxPendingTasksCount sample_load_env"
  proof -
    have "GetTotalPendingTaskCount (snd (snd (vq_UpdateAndGetState sample_gap_vq sample_monitor))) <
        MaxPendingTasksCount sample_load_env" by code_simp
    then show ?thesis by (simp add: u)
  qed
  have e: "vs_IsEmpty (fst (UpdateAndGetState sample_read_slice))" by code_simp
  have q: "virtualSlices sample_gap_vq = [sample_read_slice, sample_slice2]"
    "sliceToRead sample_gap_vq = Some (Elem (sid sample_read_slice))"
    "\<not> IsPaused (pauseController sample_gap_vq)" "\<not> le_limiterErr sample_load_env"
    "sid sample_read_slice \<noteq> sid sample_slice2" "HasMoreTasks sample_slice2"
    by (simp_all add: sample_gap_vq_def NewVirtualQueue_def IsPaused_def NewPauseController_def sample_load_env_def
        sample_read_slice_def sample_slice2_def sample_slice_simps NewVirtualSlice_def HasMoreTasks_def)
  show ?thesis
    using removed_slice_stops_reading [OF _ _ q(2) e u q(4) m1 q(3)] q by (auto simp: u)
qed

text \<open>
  Splitting at a key above the end of a progress that starts below the slice gives the right part a
  progress whose range ends before it begins.
\<close>

lemma split_inverts_progress:
  "let k = NewImmediateTaskKey;
       p = \<lparr>InclusiveMinTaskKey = k 0, ExclusiveMaxTaskKey = k 100, NextPageToken = None, NextTaskKey = k 60\<rparr>;
       (lp, rp) = split_progress \<lparr>InclusiveMinTaskKey = k 50, ExclusiveMaxTaskKey = k 120\<rparr>
         \<lparr>InclusiveMinTaskKey = k 120, ExclusiveMaxTaskKey = k 200\<rparr> [p]
   in map (\<lambda>p. (InclusiveMinTaskKey p, ExclusiveMaxTaskKey p)) rp = [(k 120, k 100)]"
  by code_simp

text \<open>
  A notification that arrives before the event loop has taken the one of \<open>Start\<close> replaces the
  immediate wake-up by its own time.
\<close>

theorem start_wakeup_replaced:
  assumes "sq_status q = DaemonStatusInitialized" "sq_nextTime q = zeroTime"
  shows "sq_nextTime (sq_NotifyNewTask [t] (sq_Start q)) = task_VisibilityTimestamp t"
  using assms by (simp add: sq_NotifyNewTask_def sq_Start_def sq_notify_def)

theorem start_wakeup_replaced_witness:
  "sq_nextTime (sq_NotifyNewTask [(sample_task ''a'' 10)\<lparr>task_VisibilityTimestamp := 7\<rparr>]
     (sq_Start (newScheduledQueue () sample_base))) = 7"
  using start_wakeup_replaced [of "newScheduledQueue () sample_base"] by (simp add: newScheduledQueue_def)

text \<open>
  A zombie execution can be updated to a zombie only with a close status, which the validation
  before the update of the store refuses.
\<close>

theorem zombie_update_not_storable:
  assumes "State e = WorkflowStateZombie" "c \<in> validWorkflowCloseStatuses"
    and "UpdateWorkflowStateCloseStatus WorkflowStateZombie c e = Ok e'"
  shows "ValidateUpdateWorkflowStateCloseStatus (State e') (CloseStatus e') \<noteq> Ok ()"
  using assms by (rule zombie_update_refused)

theorem zombie_update_not_storable_witness:
  "ValidateUpdateWorkflowStateCloseStatus WorkflowStateZombie WorkflowCloseStatusFailed \<noteq> Ok ()"
proof -
  let ?e = "\<lparr>State = WorkflowStateZombie, CloseStatus = WorkflowCloseStatusNone, NextEventID = 5, LastFirstEventID = 1\<rparr>"
  have "UpdateWorkflowStateCloseStatus WorkflowStateZombie WorkflowCloseStatusFailed ?e =
      Ok (?e\<lparr>CloseStatus := WorkflowCloseStatusFailed\<rparr>)"
    by (simp add: Update_Ok_iff transition_allowed)
  from zombie_update_not_storable [OF _ _ this] show ?thesis by (simp add: validWorkflowCloseStatuses_def)
qed

end
